(* ===== verification/Prelude.thy ===== *)
theory Prelude
  imports Complex_Main "HOL-Library.Word" "HOL-Library.Char_ord" "HOL-Library.List_Lexorder"
begin

text \<open>
  Shared vocabulary of the development: the Go machine types the program uses, the
  draws from \<^verbatim>\<open>math/rand\<close>, the iteration of a string by runes, and the general
  facts on lists, words and majorities that the components share. Strings are byte strings
  (\<open>string\<close>), ordered bytewise as \<^verbatim>\<open>sort.Strings\<close> orders them.
\<close>

named_theorems node_defs \<comment> \<open>the operations of one Raft participant\<close>
named_theorems word_order \<comment> \<open>order facts on 64-bit terms, read through \<open>unat\<close>\<close>

section \<open>Machine types\<close>

type_synonym byte = "8 word"
type_synonym u64 = "64 word"

text \<open>
  A pseudo-random generator is the sequence of numbers it will still deliver. \<open>Intn n\<close>
  delivers a number in \<open>[0, n)\<close> and advances the generator; every sequence of results
  that \<^verbatim>\<open>(*rand.Rand).Intn\<close> can deliver is the result of some sequence.
\<close>

type_synonym rand = "nat \<Rightarrow> nat"

definition Intn :: "int \<Rightarrow> rand \<Rightarrow> int \<times> rand" where
  "Intn n r = (int (r 0) mod n, \<lambda>i. r (Suc i))"

section \<open>Runes of a string\<close>

text \<open>
  \<^verbatim>\<open>for _, c := range s\<close> decodes UTF-8: the width of the first rune and its code
  point, with width 1 and U+FFFD for a byte that starts no valid encoding.
\<close>

fun cont_in :: "nat \<Rightarrow> nat \<Rightarrow> nat list \<Rightarrow> bool" where
  "cont_in lo hi (b # _) = (lo \<le> b \<and> b \<le> hi)"
| "cont_in lo hi [] = False"

definition decode_rune :: "nat list \<Rightarrow> nat \<times> nat" where
  "decode_rune bs =
     (let b0 = hd bs; t1 = drop 1 bs; t2 = drop 2 bs; t3 = drop 3 bs;
          c = (\<lambda>t. hd t - 128)
      in if b0 < 128 then (1, b0)
         else if 194 \<le> b0 \<and> b0 \<le> 223 \<and> cont_in 128 191 t1
           then (2, (b0 - 192) * 64 + c t1)
         else if 224 \<le> b0 \<and> b0 \<le> 239
             \<and> cont_in (if b0 = 224 then 160 else 128) (if b0 = 237 then 159 else 191) t1
             \<and> cont_in 128 191 t2
           then (3, (b0 - 224) * 4096 + c t1 * 64 + c t2)
         else if 240 \<le> b0 \<and> b0 \<le> 244
             \<and> cont_in (if b0 = 240 then 144 else 128) (if b0 = 244 then 143 else 191) t1
             \<and> cont_in 128 191 t2 \<and> cont_in 128 191 t3
           then (4, (b0 - 240) * 262144 + c t1 * 4096 + c t2 * 64 + c t3)
         else (1, 65533))"

function runes_of :: "nat list \<Rightarrow> nat list" where
  "runes_of [] = []"
| "runes_of (b # bs) =
     (let (w, r) = decode_rune (b # bs) in r # runes_of (drop w (b # bs)))"
  by pat_completeness auto

lemma decode_rune_width: "decode_rune bs = (w, r) \<Longrightarrow> 1 \<le> w"
  by (auto simp: decode_rune_def Let_def split: if_splits)

termination runes_of
  by (relation "measure length") (auto simp: less_Suc_eq_le diff_le_self dest!: sym [THEN decode_rune_width])

definition runes :: "string \<Rightarrow> nat list" where
  "runes s = runes_of (map of_char s)"

section \<open>Facts on random draws, words and lists\<close>

lemma Intn_range: "0 < n \<Longrightarrow> Intn n r = (x, r') \<Longrightarrow> 0 \<le> x \<and> x < n"
  by (auto simp: Intn_def)

lemma unat_Suc_u64: "unat (t :: u64) < 2 ^ 64 - 1 \<Longrightarrow> unat (t + 1) = Suc (unat t)"
  by (simp add: unat_word_ariths)

lemma u64_less_iff [word_order]: "(a :: u64) < b \<longleftrightarrow> unat a < unat b"
  by (rule word_less_nat_alt)

lemma u64_le_iff [word_order]: "(a :: u64) \<le> b \<longleftrightarrow> unat a \<le> unat b"
  by (rule word_le_nat_alt)

lemma u64_inc_greater: "unat (t :: u64) < 2 ^ 64 - 1 \<Longrightarrow> t < t + 1"
  by (simp add: word_order unat_Suc_u64)

lemma card_majorities_meet:
  assumes "finite U" "A \<subseteq> U" "B \<subseteq> U" "card U < card A + card B"
  shows "A \<inter> B \<noteq> {}"
proof
  assume "A \<inter> B = {}"
  then have "card A + card B = card (A \<union> B)"
    using assms by (metis card_Un_disjoint finite_subset)
  also have "\<dots> \<le> card U"
    using assms by (intro card_mono) auto
  finally show False using assms by simp
qed

lemma length_filter_distinct_neq:
  "distinct xs \<Longrightarrow> x \<in> set xs \<Longrightarrow> length (filter (\<lambda>y. y \<noteq> x) xs) + 1 = length xs"
proof (induction xs)
  case (Cons a xs)
  have "x \<notin> set xs \<Longrightarrow> filter (\<lambda>y. y \<noteq> x) xs = xs"
    by (rule filter_True) auto
  with Cons show ?case by (cases "a = x") auto
qed simp

text \<open>The decimal digits of a number, as \<^verbatim>\<open>%d\<close> prints them.\<close>

fun show_nat :: "nat \<Rightarrow> string" where
  "show_nat n = (if n < 10 then [char_of (48 + n)] else show_nat (n div 10) @ [char_of (48 + n mod 10)])"

declare show_nat.simps [simp del]

definition show_int :: "int \<Rightarrow> string" where
  "show_int i = (if i < 0 then CHR ''-'' # show_nat (nat (- i)) else show_nat (nat i))"

end
