(* ===== verification/Raft_Node.thy ===== *)
theory Raft_Node
  imports Prelude
begin

text \<open>
  One Raft participant (\<^verbatim>\<open>internal/raft/raft.go\<close>): its state as the record
  \<open>node\<close>, the messages, and the pure state machine \<open>Tick\<close> / \<open>Step\<close>, each
  returning the new state and the messages to send. The pointer receiver of the Go methods
  is the state passed in and returned. \<^verbatim>\<open>map[string]bool\<close> sets (\<open>votes\<close>,
  only ever assigned \<open>true\<close>) are sets of keys. Terms and counters are 64-bit words.
\<close>

section \<open>Data\<close>

datatype Role = Follower | Candidate | Leader

fun Role_String :: "Role \<Rightarrow> string" where
  "Role_String Follower = ''follower''"
| "Role_String Candidate = ''candidate''"
| "Role_String Leader = ''leader''"

datatype MessageType = MsgRequestVote | MsgVote | MsgHeartbeat | MsgHeartbeatAck

fun MessageType_String :: "MessageType \<Rightarrow> string" where
  "MessageType_String MsgRequestVote = ''RequestVote''"
| "MessageType_String MsgVote = ''Vote''"
| "MessageType_String MsgHeartbeat = ''Heartbeat''"
| "MessageType_String MsgHeartbeatAck = ''HeartbeatAck''"

record Message =
  Type :: MessageType
  From :: string
  To :: string
  Term :: u64
  Granted :: bool

definition Message_String :: "Message \<Rightarrow> string" where
  "Message_String m =
     MessageType_String (Type m) @ '' '' @ From m @ ''->'' @ To m @ '' term='' @ show_nat (unat (Term m))
     @ (if Type m = MsgVote then '' granted='' @ (if Granted m then ''true'' else ''false'') else [])"

record Config =
  ElectionTimeoutMin :: int
  ElectionTimeoutMax :: int
  HeartbeatTicks :: int
  Seed :: u64 \<comment> \<open>an int64, kept as its 64 bits\<close>

definition DefaultConfig :: Config where
  "DefaultConfig = \<lparr>ElectionTimeoutMin = 15, ElectionTimeoutMax = 30, HeartbeatTicks = 5, Seed = 0\<rparr>"

record node =
  nid :: string
  peers :: "string list"
  cfg :: Config
  rng :: rand
  role :: Role
  nterm :: u64
  votedFor :: string
  leader :: string
  votes :: "string set"
  elapsed :: int
  electionTimeout :: int
  electionsWon :: u64
  electionsBegun :: u64

section \<open>Operations\<close>

definition quorum :: "node \<Rightarrow> nat" where
  "quorum n = (length (peers n) + 1) div 2 + 1"

definition resetElectionTimer :: "node \<Rightarrow> node" where
  "resetElectionTimer n =
     (let span = ElectionTimeoutMax (cfg n) - ElectionTimeoutMin (cfg n) + 1;
          (x, r) = Intn span (rng n)
      in n\<lparr>elapsed := 0, electionTimeout := ElectionTimeoutMin (cfg n) + x, rng := r\<rparr>)"

definition broadcast :: "node \<Rightarrow> MessageType \<Rightarrow> Message list" where
  "broadcast n t =
     map (\<lambda>p. \<lparr>Type = t, From = nid n, To = p, Term = nterm n, Granted = False\<rparr>) (peers n)"

definition becomeLeader :: "node \<Rightarrow> node \<times> Message list" where
  "becomeLeader n =
     (let n' = n\<lparr>role := Leader, leader := nid n, elapsed := 0, electionsWon := electionsWon n + 1\<rparr>
      in (n', broadcast n' MsgHeartbeat))"

definition startElection :: "node \<Rightarrow> node \<times> Message list" where
  "startElection n =
     (let n' = resetElectionTimer
                 (n\<lparr>nterm := nterm n + 1, role := Candidate, votedFor := nid n, leader := '''',
                    votes := {nid n}, electionsBegun := electionsBegun n + 1\<rparr>)
      in if card (votes n') \<ge> quorum n' then becomeLeader n'
         else (n', broadcast n' MsgRequestVote))"

definition becomeFollower :: "node \<Rightarrow> u64 \<Rightarrow> string \<Rightarrow> node" where
  "becomeFollower n trm ldr =
     (let n' = (if trm > nterm n then n\<lparr>nterm := trm, votedFor := ''''\<rparr> else n)
      in resetElectionTimer (n'\<lparr>role := Follower, leader := ldr, votes := {}\<rparr>))"

definition Tick :: "node \<Rightarrow> node \<times> Message list" where
  "Tick n0 =
     (let n = n0\<lparr>elapsed := elapsed n0 + 1\<rparr>
      in case role n of
           Leader \<Rightarrow>
             if elapsed n \<ge> HeartbeatTicks (cfg n)
             then (let n' = n\<lparr>elapsed := 0\<rparr> in (n', broadcast n' MsgHeartbeat))
             else (n, [])
         | _ \<Rightarrow>
             if elapsed n \<ge> electionTimeout n then startElection n else (n, []))"

definition reply :: "node \<Rightarrow> Message \<Rightarrow> MessageType \<Rightarrow> bool \<Rightarrow> Message" where
  "reply n m t g = \<lparr>Type = t, From = nid n, To = From m, Term = nterm n, Granted = g\<rparr>"

text \<open>The second half of \<^verbatim>\<open>Step\<close>: the switch on a message of the node's own term.\<close>

definition Step_current :: "node \<Rightarrow> Message \<Rightarrow> node \<times> Message list" where
  "Step_current n m =
     (case Type m of
        MsgRequestVote \<Rightarrow>
          (let g = (votedFor n = '''' \<or> votedFor n = From m);
               n' = (if g then resetElectionTimer (n\<lparr>votedFor := From m\<rparr>) else n)
           in (n', [reply n' m MsgVote g]))
      | MsgVote \<Rightarrow>
          if role n \<noteq> Candidate \<or> \<not> Granted m then (n, [])
          else (let n' = n\<lparr>votes := insert (From m) (votes n)\<rparr>
                in if card (votes n') \<ge> quorum n' then becomeLeader n' else (n', []))
      | MsgHeartbeat \<Rightarrow>
          (let n' = (if role n \<noteq> Leader
                     then resetElectionTimer (n\<lparr>role := Follower, leader := From m, votes := {}\<rparr>)
                     else n)
           in (n', [reply n' m MsgHeartbeatAck False]))
      | MsgHeartbeatAck \<Rightarrow> (n, []))"

text \<open>The rule for all servers: a message of a higher term demotes the receiver.\<close>

definition demote :: "node \<Rightarrow> Message \<Rightarrow> node" where
  "demote n m =
     (if Term m > nterm n
      then becomeFollower n (Term m) (if Type m = MsgHeartbeat then From m else [])
      else n)"

definition Step :: "node \<Rightarrow> Message \<Rightarrow> node \<times> Message list" where
  "Step n0 m =
     (if To m \<noteq> nid n0 then (n0, [])
      else
        (let n = demote n0 m
         in if Term m < nterm n
            then (case Type m of
                    MsgRequestVote \<Rightarrow> (n, [reply n m MsgVote False])
                  | MsgHeartbeat \<Rightarrow> (n, [reply n m MsgHeartbeatAck False])
                  | _ \<Rightarrow> (n, []))
            else Step_current n m))"

text \<open>
  \<^verbatim>\<open>New\<close> panics on an invalid configuration (\<open>None\<close>). \<open>src\<close> stands for
  \<^verbatim>\<open>rand.NewSource\<close>: the generator that a seed gives.
\<close>

definition valid_config :: "Config \<Rightarrow> bool" where
  "valid_config c \<longleftrightarrow> \<not> (ElectionTimeoutMin c \<le> 0 \<or> ElectionTimeoutMax c < ElectionTimeoutMin c
                        \<or> HeartbeatTicks c \<le> 0)"

definition node_seed :: "Config \<Rightarrow> string \<Rightarrow> u64" where
  "node_seed c i = (if Seed c = 0 then foldl (\<lambda>s r. s * 31 + of_nat r) 0 (runes i) else Seed c)"

definition New :: "(u64 \<Rightarrow> rand) \<Rightarrow> string \<Rightarrow> string list \<Rightarrow> Config \<Rightarrow> node option" where
  "New src i members c =
     (if \<not> valid_config c then None
      else Some (resetElectionTimer
        \<lparr>nid = i, peers = sort (filter (\<lambda>m. m \<noteq> i) members), cfg = c, rng = src (node_seed c i),
         role = Follower, nterm = 0, votedFor = '''', leader = '''', votes = {},
         elapsed = 0, electionTimeout = 0, electionsWon = 0, electionsBegun = 0\<rparr>))"

record Status =
  st_ID :: string
  st_Role :: string
  st_Term :: u64
  st_Leader :: string
  st_VotedFor :: string
  st_Votes :: nat
  st_ClusterSize :: nat
  st_ElectionsBegun :: u64
  st_ElectionsWon :: u64

definition node_Status :: "node \<Rightarrow> Status" where
  "node_Status n =
     \<lparr>st_ID = nid n, st_Role = Role_String (role n), st_Term = nterm n, st_Leader = leader n,
      st_VotedFor = votedFor n, st_Votes = card (votes n), st_ClusterSize = length (peers n) + 1,
      st_ElectionsBegun = electionsBegun n, st_ElectionsWon = electionsWon n\<rparr>"

lemmas [node_defs] =
  resetElectionTimer_def broadcast_def becomeLeader_def startElection_def becomeFollower_def
  Tick_def reply_def Step_current_def demote_def Step_def

section \<open>Basic facts\<close>

lemma resetElectionTimer_frame [simp]:
  "nid (resetElectionTimer n) = nid n" "peers (resetElectionTimer n) = peers n"
  "cfg (resetElectionTimer n) = cfg n" "role (resetElectionTimer n) = role n"
  "nterm (resetElectionTimer n) = nterm n" "votedFor (resetElectionTimer n) = votedFor n"
  "leader (resetElectionTimer n) = leader n" "votes (resetElectionTimer n) = votes n"
  "elapsed (resetElectionTimer n) = 0" "quorum (resetElectionTimer n) = quorum n"
  "electionsBegun (resetElectionTimer n) = electionsBegun n"
  "electionsWon (resetElectionTimer n) = electionsWon n"
  by (simp_all add: resetElectionTimer_def quorum_def Let_def split: prod.splits)

lemma quorum_update [simp]:
  "quorum (n\<lparr>votes := v\<rparr>) = quorum n" "quorum (n\<lparr>role := r\<rparr>) = quorum n"
  "quorum (n\<lparr>votedFor := f\<rparr>) = quorum n" "quorum (n\<lparr>nterm := t\<rparr>) = quorum n"
  "quorum (n\<lparr>leader := l\<rparr>) = quorum n" "quorum (n\<lparr>elapsed := e\<rparr>) = quorum n"
  "quorum (n\<lparr>electionsWon := w\<rparr>) = quorum n" "quorum (n\<lparr>electionsBegun := w\<rparr>) = quorum n"
  by (simp_all add: quorum_def)

text \<open>The state after each transition, field by field.\<close>

lemma becomeLeader_state [simp]:
  "fst (becomeLeader n) = n\<lparr>role := Leader, leader := nid n, elapsed := 0, electionsWon := electionsWon n + 1\<rparr>"
  by (simp add: becomeLeader_def Let_def)

lemma becomeFollower_higher:
  "nterm n < t \<Longrightarrow> becomeFollower n t l =
     resetElectionTimer (n\<lparr>nterm := t, votedFor := '''', role := Follower, leader := l, votes := {}\<rparr>)"
  by (simp add: becomeFollower_def)

text \<open>Identity, membership and configuration never change.\<close>

lemma startElection_frame [simp]:
  "nid (fst (startElection n)) = nid n" "peers (fst (startElection n)) = peers n"
  "cfg (fst (startElection n)) = cfg n" "quorum (fst (startElection n)) = quorum n"
  "nterm (fst (startElection n)) = nterm n + 1" "votedFor (fst (startElection n)) = nid n"
  "votes (fst (startElection n)) = {nid n}"
  "role (fst (startElection n)) = (if 1 \<ge> quorum n then Leader else Candidate)"
  by (simp_all add: startElection_def Let_def)

lemma Tick_frame [simp]:
  "nid (fst (Tick n)) = nid n" "peers (fst (Tick n)) = peers n" "cfg (fst (Tick n)) = cfg n"
  by (simp_all add: Tick_def Let_def split: Role.split)

lemma Step_current_frame [simp]:
  "nid (fst (Step_current n m)) = nid n" "peers (fst (Step_current n m)) = peers n"
  "cfg (fst (Step_current n m)) = cfg n" "nterm (fst (Step_current n m)) = nterm n"
  by (simp_all add: Step_current_def Let_def split: MessageType.split)

lemma demote_frame [simp]:
  "nid (demote n m) = nid n" "peers (demote n m) = peers n" "cfg (demote n m) = cfg n"
  "quorum (demote n m) = quorum n" "nterm (demote n m) = max (nterm n) (Term m)"
  by (auto simp: demote_def becomeFollower_higher max_def quorum_def)

lemma demote_same: "\<not> nterm n < Term m \<Longrightarrow> demote n m = n"
  by (simp add: demote_def)

lemma demote_higher:
  "nterm n < Term m \<Longrightarrow> role (demote n m) = Follower \<and> votes (demote n m) = {} \<and> votedFor (demote n m) = []"
  by (simp add: demote_def becomeFollower_higher)

lemma Step_frame [simp]:
  "nid (fst (Step n m)) = nid n" "peers (fst (Step n m)) = peers n" "cfg (fst (Step n m)) = cfg n"
  by (simp_all add: Step_def Let_def split: MessageType.split)

lemma quorum_frame [simp]:
  "quorum (fst (Tick n)) = quorum n" "quorum (fst (Step n m)) = quorum n"
  by (simp_all add: quorum_def)

section \<open>Terms\<close>

lemma Step_nterm: "To m = nid n \<Longrightarrow> nterm (fst (Step n m)) = max (nterm n) (Term m)"
  by (simp add: Step_def Let_def split: MessageType.split)

lemma Step_nterm_mono: "nterm n \<le> nterm (fst (Step n m))"
  by (cases "To m = nid n") (simp_all add: Step_nterm, simp add: Step_def)

lemma Tick_nterm: "nterm (fst (Tick n)) = nterm n \<or> nterm (fst (Tick n)) = nterm n + 1"
  by (auto simp: Tick_def Let_def split: Role.split)

text \<open>Every message a node sends carries its own id and its term after the transition.\<close>

lemma Tick_out: "m \<in> set (snd (Tick n)) \<Longrightarrow>
    From m = nid n \<and> Term m = nterm (fst (Tick n)) \<and> To m \<in> set (peers n) \<and> \<not> Granted m"
  by (auto simp: Tick_def startElection_def becomeLeader_def broadcast_def Let_def
      split: Role.splits if_splits)

lemma Step_current_out: "m' \<in> set (snd (Step_current n m)) \<Longrightarrow>
    From m' = nid n \<and> Term m' = nterm n \<and> (To m' = From m \<or> To m' \<in> set (peers n))"
  by (auto simp: Step_current_def becomeLeader_def broadcast_def reply_def Let_def
      split: MessageType.splits if_splits)

lemma Step_out: "m' \<in> set (snd (Step n m)) \<Longrightarrow>
    From m' = nid n \<and> Term m' = nterm (fst (Step n m)) \<and> (To m' = From m \<or> To m' \<in> set (peers n))"
  by (auto simp: Step_def reply_def Let_def dest!: Step_current_out
      split: MessageType.splits if_splits)

text \<open>A granted vote names the candidate the voter has recorded.\<close>

lemma Step_current_granted: "m' \<in> set (snd (Step_current n m)) \<Longrightarrow> Granted m' \<Longrightarrow>
    To m' = From m \<and> votedFor (fst (Step_current n m)) = From m \<and> Type m' = MsgVote"
  by (auto simp: Step_current_def becomeLeader_def broadcast_def reply_def Let_def
      split: MessageType.splits if_splits)

lemma Step_granted: "m' \<in> set (snd (Step n m)) \<Longrightarrow> Granted m' \<Longrightarrow>
    To m' = votedFor (fst (Step n m)) \<and> Type m' = MsgVote"
  by (auto simp: Step_def reply_def Let_def dest!: Step_current_granted
      split: MessageType.splits if_splits)

section \<open>One vote per term\<close>

lemma Step_current_votedFor: "votedFor n \<noteq> '''' \<Longrightarrow> votedFor (fst (Step_current n m)) = votedFor n"
  by (auto simp: Step_current_def Let_def split: MessageType.splits)

lemma Step_votedFor_stable:
  assumes "votedFor n \<noteq> []" "nterm (fst (Step n m)) = nterm n"
  shows "votedFor (fst (Step n m)) = votedFor n"
proof (cases "To m = nid n")
  case True
  with assms have "demote n m = n"
    by (simp add: Step_nterm demote_same max_def not_less split: if_splits)
  with True assms(1) show ?thesis
    by (simp add: Step_def Let_def Step_current_votedFor split: MessageType.split)
qed (simp add: Step_def)

lemma Tick_votedFor_stable:
  "nterm (fst (Tick n)) = nterm n \<Longrightarrow> votedFor (fst (Tick n)) = votedFor n"
  by (auto simp: Tick_def Let_def split: Role.splits if_splits)

section \<open>Votes and leadership\<close>

lemma Step_current_votes:
  "votes (fst (Step_current n m)) \<subseteq> votes n \<union> (if Type m = MsgVote \<and> Granted m then {From m} else {})"
  by (auto simp: Step_current_def Let_def split: MessageType.splits)

lemma Step_votes:
  "votes (fst (Step n m)) \<subseteq>
     (if nterm (fst (Step n m)) = nterm n then votes n else {}) \<union>
     (if To m = nid n \<and> Type m = MsgVote \<and> Granted m \<and> Term m = nterm (fst (Step n m)) then {From m} else {})"
proof (cases "To m = nid n")
  case to: True
  show ?thesis
  proof (cases "nterm n < Term m")
    case True
    with to show ?thesis
      using Step_current_votes [of "demote n m" m] demote_higher [OF True]
      by (auto simp: Step_def Let_def split: if_splits)
  next
    case False
    with to show ?thesis
      using Step_current_votes [of n m]
      by (auto simp: Step_def Let_def demote_same split: MessageType.splits if_splits)
  qed
qed (simp add: Step_def)

lemma Step_current_leader:
  "role (fst (Step_current n m)) = Leader \<Longrightarrow> (role n = Leader \<Longrightarrow> quorum n \<le> card (votes n)) \<Longrightarrow>
     quorum n \<le> card (votes (fst (Step_current n m)))"
  by (auto simp: Step_current_def Let_def split: MessageType.splits if_splits)

lemma Step_leader:
  assumes "role (fst (Step n m)) = Leader" "role n = Leader \<Longrightarrow> quorum n \<le> card (votes n)"
  shows "quorum n \<le> card (votes (fst (Step n m)))"
proof (cases "To m = nid n")
  case True
  have d: "role (demote n m) = Leader \<Longrightarrow> quorum (demote n m) \<le> card (votes (demote n m))"
    using assms(2) demote_higher [of n m] by (cases "nterm n < Term m") (auto simp: demote_same)
  show ?thesis
  proof (cases "Term m < nterm n")
    case False
    with True assms(1) show ?thesis
      using Step_current_leader [of "demote n m" m] d by (simp add: Step_def Let_def)
  next
    case stale: True
    then have "demote n m = n" by (simp add: demote_same)
    with True stale assms show ?thesis by (auto simp: Step_def Let_def split: MessageType.splits)
  qed
qed (use assms in \<open>simp add: Step_def\<close>)

lemma Tick_leader:
  "role (fst (Tick n)) = Leader \<Longrightarrow> (role n = Leader \<Longrightarrow> quorum n \<le> card (votes n)) \<Longrightarrow>
     quorum n \<le> card (votes (fst (Tick n)))"
  by (auto simp: Tick_def Let_def split: Role.splits if_splits)

lemma Tick_votes:
  "nterm (fst (Tick n)) = nterm n \<Longrightarrow> votes (fst (Tick n)) = votes n"
  "nterm (fst (Tick n)) \<noteq> nterm n \<Longrightarrow>
     votes (fst (Tick n)) = {nid n} \<and> votedFor (fst (Tick n)) = nid n \<and> nterm (fst (Tick n)) = nterm n + 1"
  by (auto simp: Tick_def Let_def split: Role.splits if_splits)

section \<open>Timers\<close>

definition timer_inv :: "node \<Rightarrow> bool" where
  "timer_inv n \<longleftrightarrow> valid_config (cfg n)
     \<and> ElectionTimeoutMin (cfg n) \<le> electionTimeout n \<and> electionTimeout n \<le> ElectionTimeoutMax (cfg n)
     \<and> 0 \<le> elapsed n
     \<and> elapsed n < (if role n = Leader then HeartbeatTicks (cfg n) else electionTimeout n)"

lemma resetElectionTimer_range:
  assumes "valid_config (cfg n)"
  shows "ElectionTimeoutMin (cfg n) \<le> electionTimeout (resetElectionTimer n)"
    and "electionTimeout (resetElectionTimer n) \<le> ElectionTimeoutMax (cfg n)"
    and "0 < electionTimeout (resetElectionTimer n)"
proof -
  obtain x r where x: "Intn (ElectionTimeoutMax (cfg n) - ElectionTimeoutMin (cfg n) + 1) (rng n) = (x, r)"
    by (cases "Intn (ElectionTimeoutMax (cfg n) - ElectionTimeoutMin (cfg n) + 1) (rng n)")
  with assms have "0 \<le> x \<and> x < ElectionTimeoutMax (cfg n) - ElectionTimeoutMin (cfg n) + 1"
    by (intro Intn_range [OF _ x]) (simp add: valid_config_def)
  with x assms show
    "ElectionTimeoutMin (cfg n) \<le> electionTimeout (resetElectionTimer n)"
    "electionTimeout (resetElectionTimer n) \<le> ElectionTimeoutMax (cfg n)"
    "0 < electionTimeout (resetElectionTimer n)"
    by (auto simp: resetElectionTimer_def valid_config_def)
qed

lemma timer_inv_reset: "valid_config (cfg n) \<Longrightarrow> timer_inv (resetElectionTimer n)"
  by (simp add: timer_inv_def resetElectionTimer_range) (simp add: valid_config_def)

lemma timer_inv_valid: "timer_inv n \<Longrightarrow> valid_config (cfg n)"
  by (simp add: timer_inv_def)

lemma timer_inv_congs [simp]:
  "timer_inv (n\<lparr>votes := v\<rparr>) = timer_inv n" "timer_inv (n\<lparr>votedFor := f\<rparr>) = timer_inv n"
  by (simp_all add: timer_inv_def)

lemma timer_inv_becomeLeader: "timer_inv n \<Longrightarrow> timer_inv (fst (becomeLeader n))"
  by (auto simp: timer_inv_def valid_config_def)

lemma timer_inv_startElection: "valid_config (cfg n) \<Longrightarrow> timer_inv (fst (startElection n))"
  unfolding startElection_def Let_def
  by (auto intro!: timer_inv_reset timer_inv_becomeLeader simp del: becomeLeader_state)

lemma timer_inv_Tick: "timer_inv n \<Longrightarrow> timer_inv (fst (Tick n))"
proof (cases "role n = Leader")
  case True
  then show "timer_inv n \<Longrightarrow> ?thesis"
    by (auto simp: Tick_def Let_def timer_inv_def valid_config_def)
next
  case False
  moreover assume n: "timer_inv n"
  then have "timer_inv (fst (startElection (n\<lparr>elapsed := elapsed n + 1\<rparr>)))"
    by (intro timer_inv_startElection) (simp add: timer_inv_def)
  moreover have "\<not> electionTimeout n \<le> elapsed n + 1 \<Longrightarrow> timer_inv (n\<lparr>elapsed := elapsed n + 1\<rparr>)"
    using n False by (simp add: timer_inv_def)
  ultimately show ?thesis
    by (cases "role n") (simp_all add: Tick_def Let_def)
qed

lemma timer_inv_Step_current: "timer_inv n \<Longrightarrow> timer_inv (fst (Step_current n m))"
  by (auto simp: Step_current_def Let_def timer_inv_valid simp del: becomeLeader_state
      intro!: timer_inv_reset timer_inv_becomeLeader split: MessageType.splits)

lemma timer_inv_demote: "timer_inv n \<Longrightarrow> timer_inv (demote n m)"
  by (auto simp: demote_def becomeFollower_higher timer_inv_valid intro!: timer_inv_reset)

lemma timer_inv_Step: "timer_inv n \<Longrightarrow> timer_inv (fst (Step n m))"
  by (auto simp: Step_def Let_def timer_inv_demote timer_inv_Step_current split: MessageType.splits)

end
