(* ===== verification/Raft_Cluster.thy ===== *)
theory Raft_Cluster
  imports Raft_Node
begin

text \<open>
  The simulated network of Raft participants (\<^verbatim>\<open>internal/raft/sim.go\<close>): the
  cluster record, the partition operations, \<open>Cluster_Tick\<close> with its two phases
  (deliver the pending messages, then tick every node), the runs built from it, and the
  reachability relation under arbitrary partitions. A nil dereference of a missing node is
  \<open>None\<close>. The second half proves election safety by an invariant over a history of
  votes.
\<close>

section \<open>State and operations\<close>

record cluster =
  Nodes :: "string \<rightharpoonup> node"
  order :: "string list"
  inbox :: "Message list"
  blocked :: "(string \<times> string) set"
  Trace :: "Message list"
  Record :: bool

fun new_nodes :: "(u64 \<Rightarrow> rand) \<Rightarrow> string list \<Rightarrow> Config \<Rightarrow> string list \<Rightarrow> (string \<rightharpoonup> node) \<Rightarrow> (string \<rightharpoonup> node) option" where
  "new_nodes src ids c [] ns = Some ns"
| "new_nodes src ids c (i # is) ns =
     (case New src i ids c of None \<Rightarrow> None | Some n \<Rightarrow> new_nodes src ids c is (ns(i \<mapsto> n)))"

definition NewCluster :: "(u64 \<Rightarrow> rand) \<Rightarrow> string list \<Rightarrow> Config \<Rightarrow> cluster option" where
  "NewCluster src ids c =
     map_option (\<lambda>ns. \<lparr>Nodes = ns, order = sort ids, inbox = [], blocked = {}, Trace = [], Record = False\<rparr>)
       (new_nodes src ids c (sort ids) Map.empty)"

definition Partition :: "cluster \<Rightarrow> string list \<Rightarrow> string list \<Rightarrow> cluster" where
  "Partition c groupA groupB =
     c\<lparr>blocked := blocked c \<union> set [(a, b). a \<leftarrow> groupA, b \<leftarrow> groupB]
                          \<union> set [(b, a). a \<leftarrow> groupA, b \<leftarrow> groupB]\<rparr>"

definition Isolate :: "cluster \<Rightarrow> string \<Rightarrow> cluster" where
  "Isolate c i =
     c\<lparr>blocked := blocked c \<union> set [(i, x). x \<leftarrow> order c, x \<noteq> i] \<union> set [(x, i). x \<leftarrow> order c, x \<noteq> i]\<rparr>"

definition BlockOneWay :: "cluster \<Rightarrow> string \<Rightarrow> string \<Rightarrow> cluster" where
  "BlockOneWay c f t = c\<lparr>blocked := insert (f, t) (blocked c)\<rparr>"

definition Heal :: "cluster \<Rightarrow> cluster" where
  "Heal c = c\<lparr>blocked := {}\<rparr>"

definition send :: "cluster \<Rightarrow> Message list \<Rightarrow> cluster" where
  "send c msgs = c\<lparr>inbox := inbox c @ msgs\<rparr>"

definition record_msg :: "cluster \<Rightarrow> Message \<Rightarrow> cluster" where
  "record_msg c m = (if Record c then c\<lparr>Trace := Trace c @ [m]\<rparr> else c)"

fun deliver_all :: "cluster \<Rightarrow> Message list \<Rightarrow> int \<Rightarrow> (cluster \<times> int) option" where
  "deliver_all c [] d = Some (c, d)"
| "deliver_all c (m # ms) d =
     (if (From m, To m) \<in> blocked c then deliver_all c ms d
      else case Nodes c (To m) of
             None \<Rightarrow> None
           | Some n \<Rightarrow>
               (let (n', out) = Step n m
                in deliver_all (send ((record_msg c m)\<lparr>Nodes := (Nodes c)(To m \<mapsto> n')\<rparr>) out) ms (d + 1)))"

fun tick_all :: "cluster \<Rightarrow> string list \<Rightarrow> cluster option" where
  "tick_all c [] = Some c"
| "tick_all c (i # is) =
     (case Nodes c i of
        None \<Rightarrow> None
      | Some n \<Rightarrow> (let (n', out) = Tick n in tick_all (send (c\<lparr>Nodes := (Nodes c)(i \<mapsto> n')\<rparr>) out) is))"

definition Cluster_Tick :: "cluster \<Rightarrow> (cluster \<times> int) option" where
  "Cluster_Tick c =
     (case deliver_all (c\<lparr>inbox := []\<rparr>) (inbox c) 0 of
        None \<Rightarrow> None
      | Some (c1, d) \<Rightarrow> map_option (\<lambda>c2. (c2, d)) (tick_all c1 (order c1)))"

fun Run :: "cluster \<Rightarrow> nat \<Rightarrow> cluster option" where
  "Run c 0 = Some c"
| "Run c (Suc n) = (case Cluster_Tick c of None \<Rightarrow> None | Some (c', _) \<Rightarrow> Run c' n)"

definition is_leader :: "cluster \<Rightarrow> string \<Rightarrow> bool" where
  "is_leader c i \<longleftrightarrow> (case Nodes c i of Some n \<Rightarrow> role n = Leader | None \<Rightarrow> False)"

definition Leaders :: "cluster \<Rightarrow> string list" where
  "Leaders c = filter (is_leader c) (order c)"

definition Cluster_Leader :: "cluster \<Rightarrow> string" where
  "Cluster_Leader c = (case Leaders c of [l] \<Rightarrow> l | _ \<Rightarrow> [])"

text \<open>
  \<^verbatim>\<open>RunUntilLeader\<close> with the loop counter \<open>i\<close>; the remaining iterations are the
  recursion argument. The result is the leader, the ticks it took and the cluster.
\<close>

fun run_until :: "cluster \<Rightarrow> nat \<Rightarrow> nat \<Rightarrow> (string \<times> nat \<times> cluster) option" where
  "run_until c i 0 = Some (Cluster_Leader c, i, c)"
| "run_until c i (Suc left) =
     (if Cluster_Leader c \<noteq> [] then Some (Cluster_Leader c, i, c)
      else case Cluster_Tick c of None \<Rightarrow> None | Some (c', _) \<Rightarrow> run_until c' (Suc i) left)"

definition RunUntilLeader :: "cluster \<Rightarrow> nat \<Rightarrow> (string \<times> nat \<times> cluster) option" where
  "RunUntilLeader c maxTicks = run_until c 0 maxTicks"

text \<open>\<^verbatim>\<open>MaxTerm\<close> ranges over the map; the keys of the map are the ids in \<open>order\<close>.\<close>

definition MaxTerm :: "cluster \<Rightarrow> u64" where
  "MaxTerm c = foldl (\<lambda>t i. case Nodes c i of None \<Rightarrow> t | Some n \<Rightarrow> if nterm n > t then nterm n else t) 0 (order c)"

text \<open>
  The states a cluster can reach in \<open>k\<close> ticks, with the links cut and healed at will
  between two ticks and the recording switched on or off.
\<close>

inductive reach :: "(u64 \<Rightarrow> rand) \<Rightarrow> string list \<Rightarrow> Config \<Rightarrow> nat \<Rightarrow> cluster \<Rightarrow> bool"
  for src ids cf where
  start: "NewCluster src ids cf = Some c \<Longrightarrow> reach src ids cf 0 c"
| ticked: "reach src ids cf k c \<Longrightarrow> Cluster_Tick c = Some (c', d) \<Longrightarrow> reach src ids cf (Suc k) c'"
| partitioned: "reach src ids cf k c \<Longrightarrow> reach src ids cf k (Partition c A B)"
| isolated: "reach src ids cf k c \<Longrightarrow> reach src ids cf k (Isolate c i)"
| one_way: "reach src ids cf k c \<Longrightarrow> reach src ids cf k (BlockOneWay c f t)"
| healed: "reach src ids cf k c \<Longrightarrow> reach src ids cf k (Heal c)"
| recording: "reach src ids cf k c \<Longrightarrow> reach src ids cf k (c\<lparr>Record := b\<rparr>)"

section \<open>Quorums\<close>

text \<open>
  What an election relies on: two quorums share a member. A voter backs one candidate, so
  two candidates backed by quorums are the same.
\<close>

locale quorum_system =
  fixes is_quorum :: "'a set \<Rightarrow> bool"
  assumes quorums_meet: "is_quorum A \<Longrightarrow> is_quorum B \<Longrightarrow> A \<inter> B \<noteq> {}"
begin

lemma quorum_nonempty: "is_quorum A \<Longrightarrow> A \<noteq> {}"
  using quorums_meet by fastforce

lemma unique_winner:
  assumes "is_quorum A" "is_quorum B"
    and "\<And>v. v \<in> A \<Longrightarrow> ballot v = Some a" "\<And>v. v \<in> B \<Longrightarrow> ballot v = Some b"
  shows "a = b"
  using assms(3,4) quorums_meet [OF assms(1,2)] by fastforce

end

definition majority :: "string list \<Rightarrow> string set \<Rightarrow> bool" where
  "majority ids Q \<longleftrightarrow> Q \<subseteq> set ids \<and> length ids div 2 + 1 \<le> card Q"

interpretation maj: quorum_system "majority ids" for ids
proof unfold_locales
  fix A B
  assume q: "majority ids A" "majority ids B"
  then have "card (set ids) < card A + card B"
    using card_length [of ids] by (auto simp: majority_def)
  with q show "A \<inter> B \<noteq> {}"
    by (intro card_majorities_meet [of "set ids"]) (auto simp: majority_def)
qed

section \<open>A history of votes\<close>

text \<open>
  \<open>history t v = Some c\<close>: voter \<open>v\<close> has voted for \<open>c\<close> in term \<open>t\<close>. The
  history is not part of the program; it is what every node's \<open>votedFor\<close>, every
  collected vote and every granted vote in flight agree with.
\<close>

type_synonym history = "u64 \<Rightarrow> string \<Rightarrow> string option"

definition ballot_of :: "node \<Rightarrow> string option" where
  "ballot_of n = (if votedFor n = [] then None else Some (votedFor n))"

definition node_ok :: "string list \<Rightarrow> history \<Rightarrow> node \<Rightarrow> bool" where
  "node_ok ids V n \<longleftrightarrow>
     nid n \<in> set ids \<and> set (peers n) \<subseteq> set ids \<and> length (peers n) + 1 = length ids
     \<and> (\<forall>t. nterm n < t \<longrightarrow> V t (nid n) = None) \<and> V (nterm n) (nid n) = ballot_of n
     \<and> (\<forall>v \<in> votes n. v \<in> set ids \<and> V (nterm n) v = Some (nid n))
     \<and> (role n = Leader \<longrightarrow> quorum n \<le> card (votes n))"

definition msg_ok :: "string list \<Rightarrow> history \<Rightarrow> Message \<Rightarrow> bool" where
  "msg_ok ids V m \<longleftrightarrow> From m \<in> set ids \<and> To m \<in> set ids
     \<and> (Granted m \<longrightarrow> V (Term m) (From m) = Some (To m))"

definition extends :: "string \<Rightarrow> history \<Rightarrow> history \<Rightarrow> bool" where
  "extends i V V' \<longleftrightarrow> (\<forall>t v c. V t v = Some c \<longrightarrow> V' t v = Some c) \<and> (\<forall>t v. v \<noteq> i \<longrightarrow> V' t v = V t v)"

definition record_vote :: "history \<Rightarrow> node \<Rightarrow> history" where
  "record_vote V n = V(nterm n := (V (nterm n))(nid n := ballot_of n))"

lemma extendsD: "extends i V V' \<Longrightarrow> V t v = Some c \<Longrightarrow> V' t v = Some c"
  by (simp add: extends_def)

lemma node_ok_other: "node_ok ids V n \<Longrightarrow> extends i V V' \<Longrightarrow> nid n \<noteq> i \<Longrightarrow> node_ok ids V' n"
  by (auto simp: node_ok_def extends_def)

lemma msg_ok_extends: "msg_ok ids V m \<Longrightarrow> extends i V V' \<Longrightarrow> msg_ok ids V' m"
  by (auto simp: msg_ok_def extends_def)

text \<open>A transition that keeps a vote within its term and collects only recorded votes.\<close>

lemma record_vote_extends:
  assumes "node_ok ids V n" "nid n' = nid n" "nterm n \<le> nterm n'"
    and "nterm n' = nterm n \<Longrightarrow> votedFor n \<noteq> [] \<Longrightarrow> votedFor n' = votedFor n"
  shows "extends (nid n) V (record_vote V n')"
  using assms
  by (cases "nterm n' = nterm n")
    (auto simp: extends_def record_vote_def node_ok_def ballot_of_def order.order_iff_strict)

lemma node_ok_record:
  assumes "node_ok ids V n" "nid n' = nid n" "peers n' = peers n" "nterm n \<le> nterm n'"
    and "\<And>v. v \<in> votes n' \<Longrightarrow> v \<in> set ids \<and> record_vote V n' (nterm n') v = Some (nid n)"
    and "role n' = Leader \<Longrightarrow> quorum n' \<le> card (votes n')"
  shows "node_ok ids (record_vote V n') n'"
  using assms by (auto simp: node_ok_def record_vote_def)

lemma Step_history:
  assumes n: "node_ok ids V n" and m: "msg_ok ids V m" and s: "Step n m = (n', out)"
  shows "extends (nid n) V (record_vote V n')" "node_ok ids (record_vote V n') n'"
    "\<And>m'. m' \<in> set out \<Longrightarrow> [] \<notin> set ids \<Longrightarrow> msg_ok ids (record_vote V n') m'"
proof -
  let ?V = "record_vote V n'"
  have f: "n' = fst (Step n m)" "out = snd (Step n m)" using s by simp_all
  show e: "extends (nid n) V ?V"
    using Step_votedFor_stable [of n m] Step_nterm_mono [of n m]
    by (intro record_vote_extends [OF n]) (simp_all add: f)
  have v: "v \<in> set ids \<and> ?V (nterm n') v = Some (nid n)" if "v \<in> votes n'" for v
  proof -
    from that Step_votes [of n m]
    have "v \<in> votes n \<and> nterm n' = nterm n
        \<or> v = From m \<and> To m = nid n \<and> Granted m \<and> Term m = nterm n'"
      by (auto simp: f split: if_splits)
    then show ?thesis
      using n m extendsD [OF e] by (auto simp: node_ok_def msg_ok_def)
  qed
  show "node_ok ids ?V n'"
    using v n Step_nterm_mono [of n m] Step_leader [of n m]
    by (intro node_ok_record [OF n]) (simp_all add: f node_ok_def)
  fix m' assume m': "m' \<in> set out" and ne: "[] \<notin> set ids"
  have o: "From m' = nid n" "Term m' = nterm n'" "To m' = From m \<or> To m' \<in> set (peers n)"
    using Step_out [of m' n m] m' by (simp_all add: f)
  then have ids: "From m' \<in> set ids" "To m' \<in> set ids"
    using n m by (auto simp: node_ok_def msg_ok_def)
  moreover have "?V (Term m') (From m') = Some (To m')" if "Granted m'"
    using Step_granted [of m' n m] m' that o(1,2) ids ne
    by (auto simp: f record_vote_def ballot_of_def)
  ultimately show "msg_ok ids ?V m'" by (simp add: msg_ok_def)
qed

lemma Tick_history:
  assumes n: "node_ok ids V n" and t: "Tick n = (n', out)"
    and small: "unat (nterm n) < 2 ^ 64 - 1" and ne: "[] \<notin> set ids"
  shows "extends (nid n) V (record_vote V n')" "node_ok ids (record_vote V n') n'"
    "\<And>m'. m' \<in> set out \<Longrightarrow> msg_ok ids (record_vote V n') m'"
proof -
  let ?V = "record_vote V n'"
  have f: "n' = fst (Tick n)" "out = snd (Tick n)" using t by simp_all
  have le: "nterm n \<le> nterm n'"
    using Tick_nterm [of n] u64_inc_greater [OF small] by (auto simp: f)
  show e: "extends (nid n) V ?V"
    using le Tick_votedFor_stable [of n] by (intro record_vote_extends [OF n]) (simp_all add: f)
  have v: "v \<in> set ids \<and> ?V (nterm n') v = Some (nid n)" if "v \<in> votes n'" for v
  proof (cases "nterm n' = nterm n")
    case True
    with that have "v \<in> votes n" using Tick_votes(1) [of n] by (simp add: f)
    with True show ?thesis using n extendsD [OF e] by (auto simp: node_ok_def)
  next
    case False
    with that have "v = nid n" "votedFor n' = nid n" "nid n' = nid n"
      using Tick_votes(2) [of n] by (auto simp: f)
    with n ne show ?thesis by (auto simp: record_vote_def ballot_of_def node_ok_def)
  qed
  show "node_ok ids ?V n'"
    using v n le Tick_leader [of n] by (intro node_ok_record [OF n]) (simp_all add: f node_ok_def)
  fix m' assume "m' \<in> set out"
  then show "msg_ok ids ?V m'"
    using Tick_out [of m' n] n by (auto simp: f msg_ok_def node_ok_def)
qed

section \<open>The cluster invariant\<close>

lemma send_frame [simp]:
  "Nodes (send c ms) = Nodes c" "order (send c ms) = order c" "blocked (send c ms) = blocked c"
  "inbox (send c ms) = inbox c @ ms"
  by (simp_all add: send_def)

lemma record_msg_frame [simp]:
  "Nodes (record_msg c m) = Nodes c" "order (record_msg c m) = order c"
  "blocked (record_msg c m) = blocked c" "inbox (record_msg c m) = inbox c"
  by (simp_all add: record_msg_def)

text \<open>\<open>nodes_ok\<close>: every member exists under its own id, agrees with the history and is within its term bound.\<close>

definition nodes_ok :: "string list \<Rightarrow> history \<Rightarrow> (string \<Rightarrow> nat) \<Rightarrow> (string \<rightharpoonup> node) \<Rightarrow> bool" where
  "nodes_ok ids V bnd ns \<longleftrightarrow>
     dom ns = set ids \<and> (\<forall>i n. ns i = Some n \<longrightarrow> nid n = i \<and> node_ok ids V n \<and> unat (nterm n) \<le> bnd i)"

definition msgs_ok :: "string list \<Rightarrow> history \<Rightarrow> nat \<Rightarrow> Message list \<Rightarrow> bool" where
  "msgs_ok ids V b ms \<longleftrightarrow> (\<forall>m \<in> set ms. msg_ok ids V m \<and> unat (Term m) \<le> b)"

lemma nodes_okD:
  "nodes_ok ids V bnd ns \<Longrightarrow> ns i = Some n \<Longrightarrow> nid n = i \<and> node_ok ids V n \<and> unat (nterm n) \<le> bnd i"
  by (simp add: nodes_ok_def)

lemma nodes_ok_update:
  assumes "nodes_ok ids V bnd ns" "extends i V V'" "node_ok ids V' n'" "nid n' = i"
    "unat (nterm n') \<le> b" "i \<in> set ids" "\<And>j. j \<noteq> i \<Longrightarrow> bnd j \<le> bnd' j" "b \<le> bnd' i"
  shows "nodes_ok ids V' bnd' (ns(i \<mapsto> n'))"
  unfolding nodes_ok_def
proof (intro conjI allI impI)
  show "dom (ns(i \<mapsto> n')) = set ids" using assms by (auto simp: nodes_ok_def)
  fix j n assume j: "(ns(i \<mapsto> n')) j = Some n"
  show "nid n = j" using assms(1,4) j by (auto simp: nodes_ok_def split: if_splits)
  show "node_ok ids V' n"
    using assms(1-4) j by (auto simp: nodes_ok_def intro: node_ok_other split: if_splits)
  show "unat (nterm n) \<le> bnd' j"
    using assms(1,5,8) assms(7) [of j] j by (cases "j = i") (fastforce simp: nodes_ok_def)+
qed

lemma msgs_ok_extends: "msgs_ok ids V b ms \<Longrightarrow> extends i V V' \<Longrightarrow> msgs_ok ids V' b ms"
  by (auto simp: msgs_ok_def intro: msg_ok_extends)

lemma msgs_ok_append: "msgs_ok ids V b (xs @ ys) \<longleftrightarrow> msgs_ok ids V b xs \<and> msgs_ok ids V b ys"
  by (auto simp: msgs_ok_def)

lemma msgs_ok_mono: "msgs_ok ids V b ms \<Longrightarrow> b \<le> b' \<Longrightarrow> msgs_ok ids V b' ms"
  by (auto simp: msgs_ok_def)

lemma deliver_all_ok:
  assumes "nodes_ok ids V (\<lambda>_. b) (Nodes c)" "msgs_ok ids V b ms" "msgs_ok ids V b (inbox c)" "[] \<notin> set ids"
  shows "\<exists>c' d' V'. deliver_all c ms d = Some (c', d') \<and> order c' = order c \<and> blocked c' = blocked c
     \<and> nodes_ok ids V' (\<lambda>_. b) (Nodes c') \<and> msgs_ok ids V' b (inbox c')"
  using assms
proof (induction ms arbitrary: c d V)
  case (Cons m ms)
  show ?case
  proof (cases "(From m, To m) \<in> blocked c")
    case True
    with Cons show ?thesis by (auto simp: msgs_ok_def)
  next
    case False
    from Cons.prems have m: "msg_ok ids V m" "unat (Term m) \<le> b"
      by (auto simp: msgs_ok_def)
    then have "To m \<in> dom (Nodes c)" using Cons.prems(1) by (simp add: nodes_ok_def msg_ok_def)
    then obtain n where n: "Nodes c (To m) = Some n" by auto
    with Cons.prems(1) have n_ok: "node_ok ids V n" "nid n = To m" "unat (nterm n) \<le> b"
      by (auto simp: nodes_ok_def)
    obtain n' out where s: "Step n m = (n', out)" by (cases "Step n m")
    let ?V = "record_vote V n'"
    note h = Step_history [OF n_ok(1) m(1) s]
    have n': "nid n' = To m" "unat (nterm n') \<le> b"
      using Step_frame(1) [of n m] Step_nterm [of m n] n_ok m s by (auto simp: max_def)
    have out: "msgs_ok ids ?V b out"
      using h(3) Step_out [of _ n m] s n'(2) Cons.prems(4) by (force simp: msgs_ok_def)
    define c2 where "c2 = send ((record_msg c m)\<lparr>Nodes := (Nodes c)(To m \<mapsto> n')\<rparr>) out"
    have "nodes_ok ids ?V (\<lambda>_. b) (Nodes c2)"
      using nodes_ok_update [OF Cons.prems(1) _ h(2) n' _ order.refl order.refl] h(1) m(1) n_ok(2)
      by (simp add: c2_def msg_ok_def)
    moreover have "msgs_ok ids ?V b ms" "msgs_ok ids ?V b (inbox c2)"
      using Cons.prems(2,3) out msgs_ok_extends [OF _ h(1)]
      by (auto simp: c2_def msgs_ok_append) (auto simp: msgs_ok_def)
    ultimately obtain c' d' V' where "deliver_all c2 ms (d + 1) = Some (c', d')"
      "order c' = order c2" "blocked c' = blocked c2"
      "nodes_ok ids V' (\<lambda>_. b) (Nodes c')" "msgs_ok ids V' b (inbox c')"
      using Cons.IH Cons.prems(4) by blast
    moreover have "order c2 = order c" "blocked c2 = blocked c"
      by (simp_all add: c2_def)
    moreover have "deliver_all c (m # ms) d = deliver_all c2 ms (d + 1)"
      using False n s by (simp add: c2_def)
    ultimately show ?thesis by (simp del: deliver_all.simps) blast
  qed
qed auto

lemma tick_all_ok:
  assumes "nodes_ok ids V (\<lambda>i. if i \<in> set is then b else Suc b) (Nodes c)"
    "msgs_ok ids V (Suc b) (inbox c)" "set is \<subseteq> set ids" "distinct is" "[] \<notin> set ids" "Suc b < 2 ^ 64"
  shows "\<exists>c' V'. tick_all c is = Some c' \<and> order c' = order c \<and> blocked c' = blocked c
     \<and> nodes_ok ids V' (\<lambda>_. Suc b) (Nodes c') \<and> msgs_ok ids V' (Suc b) (inbox c')"
  using assms
proof (induction "is" arbitrary: c V)
  case (Cons i "is")
  from Cons.prems have "i \<in> dom (Nodes c)" by (simp add: nodes_ok_def)
  then obtain n where n: "Nodes c i = Some n" by auto
  have n_ok: "node_ok ids V n" "nid n = i" "unat (nterm n) \<le> b"
    using nodes_okD [OF Cons.prems(1) n] by simp_all
  then have small: "unat (nterm n) < 2 ^ 64 - 1" using Cons.prems(6) by linarith
  obtain n' out where t: "Tick n = (n', out)" by (cases "Tick n")
  let ?V = "record_vote V n'"
  note h = Tick_history [OF n_ok(1) t small Cons.prems(5)]
  have n': "nid n' = i" "unat (nterm n') \<le> Suc b"
    using Tick_frame(1) [of n] Tick_nterm [of n] unat_Suc_u64 [OF small] n_ok t by auto
  have out: "msgs_ok ids ?V (Suc b) out"
    using h(3) Tick_out [of _ n] t n'(2) by (force simp: msgs_ok_def)
  define c1 where "c1 = send (c\<lparr>Nodes := (Nodes c)(i \<mapsto> n')\<rparr>) out"
  have "nodes_ok ids ?V (\<lambda>j. if j \<in> set is then b else Suc b) (Nodes c1)"
    using nodes_ok_update [OF Cons.prems(1) _ h(2) n', where bnd' = "\<lambda>j. if j \<in> set is then b else Suc b"]
      h(1) Cons.prems(3,4) n_ok(2) by (simp add: c1_def send_def)
  moreover have "msgs_ok ids ?V (Suc b) (inbox c1)"
    using Cons.prems(2) out msgs_ok_extends [OF _ h(1)] by (auto simp: c1_def send_def msgs_ok_append)
  ultimately obtain c' V' where "tick_all c1 is = Some c'" "order c' = order c1" "blocked c' = blocked c1"
    "nodes_ok ids V' (\<lambda>_. Suc b) (Nodes c')" "msgs_ok ids V' (Suc b) (inbox c')"
    using Cons.IH Cons.prems(3-6) by (metis distinct.simps(2) insert_subset list.simps(15))
  then show ?case using n t by (simp add: c1_def send_def) blast
qed auto

definition cluster_inv :: "string list \<Rightarrow> nat \<Rightarrow> cluster \<Rightarrow> bool" where
  "cluster_inv ids k c \<longleftrightarrow> set (order c) = set ids \<and> distinct (order c)
     \<and> (\<exists>V. nodes_ok ids V (\<lambda>_. k) (Nodes c) \<and> msgs_ok ids V k (inbox c))"

lemma cluster_inv_cong:
  "cluster_inv ids k c \<Longrightarrow> order c' = order c \<Longrightarrow> Nodes c' = Nodes c \<Longrightarrow> inbox c' = inbox c \<Longrightarrow> cluster_inv ids k c'"
  by (simp add: cluster_inv_def)

lemma Cluster_Tick_ok:
  assumes "cluster_inv ids k c" "[] \<notin> set ids" "Suc k < 2 ^ 64"
  shows "\<exists>c' d. Cluster_Tick c = Some (c', d) \<and> cluster_inv ids (Suc k) c'
     \<and> order c' = order c \<and> blocked c' = blocked c"
proof -
  from assms(1) obtain V where V: "nodes_ok ids V (\<lambda>_. k) (Nodes c)" "msgs_ok ids V k (inbox c)"
    and o: "set (order c) = set ids" "distinct (order c)"
    by (auto simp: cluster_inv_def)
  obtain c1 d V1 where 1: "deliver_all (c\<lparr>inbox := []\<rparr>) (inbox c) 0 = Some (c1, d)"
    "order c1 = order c" "blocked c1 = blocked c"
    "nodes_ok ids V1 (\<lambda>_. k) (Nodes c1)" "msgs_ok ids V1 k (inbox c1)"
    using deliver_all_ok [of ids V k "c\<lparr>inbox := []\<rparr>" "inbox c" 0] V assms(2) by (auto simp: msgs_ok_def)
  have "nodes_ok ids V1 (\<lambda>i. if i \<in> set (order c) then k else Suc k) (Nodes c1)"
    using 1(4) by (fastforce simp: nodes_ok_def)
  moreover have "msgs_ok ids V1 (Suc k) (inbox c1)" using 1(5) by (rule msgs_ok_mono) simp
  ultimately obtain c2 V2 where "tick_all c1 (order c) = Some c2" "order c2 = order c1" "blocked c2 = blocked c1"
    "nodes_ok ids V2 (\<lambda>_. Suc k) (Nodes c2)" "msgs_ok ids V2 (Suc k) (inbox c2)"
    using tick_all_ok [of ids V1 "order c" k c1] o assms(2,3) by auto
  with 1 o show ?thesis by (auto simp: Cluster_Tick_def cluster_inv_def)
qed

section \<open>The initial cluster\<close>

lemma New_ok:
  assumes "New src i ids cf = Some n" "i \<in> set ids" "distinct ids"
  shows "nid n = i \<and> node_ok ids (\<lambda>_ _. None) n \<and> nterm n = 0 \<and> votes n = {} \<and> role n = Follower \<and> timer_inv n"
  using assms length_filter_distinct_neq [of ids i]
  by (auto simp: New_def node_ok_def ballot_of_def quorum_def intro!: timer_inv_reset split: if_splits)

lemma new_nodes_lookup:
  "new_nodes src ids cf is ns = Some ns' \<Longrightarrow>
     ns' j = (if j \<in> set is then New src j ids cf else ns j)"
  "new_nodes src ids cf is ns = Some ns' \<Longrightarrow> j \<in> set is \<Longrightarrow> \<exists>n. New src j ids cf = Some n"
  by (induction "is" arbitrary: ns) (auto split: option.splits)

lemma NewCluster_fields:
  assumes "NewCluster src ids cf = Some c"
  shows "order c = sort ids" "inbox c = []" "blocked c = {}" "dom (Nodes c) = set ids"
    "\<And>i. Nodes c i = (if i \<in> set ids then New src i ids cf else None)"
proof -
  from assms obtain ns where ns: "new_nodes src ids cf (sort ids) Map.empty = Some ns"
    and c: "c = \<lparr>Nodes = ns, order = sort ids, inbox = [], blocked = {}, Trace = [], Record = False\<rparr>"
    by (auto simp: NewCluster_def)
  show n: "Nodes c i = (if i \<in> set ids then New src i ids cf else None)" for i
    using new_nodes_lookup(1) [OF ns, of i] c by simp
  show "dom (Nodes c) = set ids"
    using new_nodes_lookup(2) [OF ns] by (force simp: n split: if_splits)
qed (use assms in \<open>auto simp: NewCluster_def\<close>)

lemma NewCluster_inv: "NewCluster src ids cf = Some c \<Longrightarrow> distinct ids \<Longrightarrow> cluster_inv ids 0 c"
  unfolding cluster_inv_def
  by (auto simp: NewCluster_fields nodes_ok_def msgs_ok_def dest: New_ok intro!: exI [of _ "\<lambda>_ _. None"] split: if_splits)

theorem reach_inv:
  assumes "reach src ids cf k c" "distinct ids" "[] \<notin> set ids" "k < 2 ^ 64"
  shows "cluster_inv ids k c"
  using assms
proof (induction rule: reach.induct)
  case (start c)
  then show ?case by (simp add: NewCluster_inv)
next
  case (ticked k c c' d)
  then show ?case using Cluster_Tick_ok [of ids k c] by auto
qed (auto intro: cluster_inv_cong simp: Partition_def Isolate_def BlockOneWay_def Heal_def)

lemma leader_majority:
  assumes "nodes_ok ids V bnd ns" "ns i = Some n" "role n = Leader"
  shows "majority ids (votes n)" "\<And>v. v \<in> votes n \<Longrightarrow> V (nterm n) v = Some i"
  using assms by (fastforce simp: nodes_ok_def node_ok_def majority_def quorum_def)+

section \<open>A minority cannot elect\<close>

text \<open>
  \<open>sealed A c\<close>: no message from outside \<open>A\<close> is delivered to a member of \<open>A\<close>, and
  so far the members of \<open>A\<close> hold votes from \<open>A\<close> only.
\<close>

definition sealed :: "string set \<Rightarrow> cluster \<Rightarrow> bool" where
  "sealed A c \<longleftrightarrow>
     (\<forall>i n. Nodes c i = Some n \<longrightarrow>
        nid n = i \<and> (i \<in> A \<longrightarrow> votes n \<subseteq> A \<and> (role n = Leader \<longrightarrow> quorum n \<le> card (votes n))))"

definition cut_off :: "string set \<Rightarrow> cluster \<Rightarrow> Message list \<Rightarrow> bool" where
  "cut_off A c ms \<longleftrightarrow> (\<forall>m \<in> set ms. To m \<in> A \<longrightarrow> From m \<notin> A \<longrightarrow> (From m, To m) \<in> blocked c)"

lemma sealed_update:
  "sealed A c \<Longrightarrow> nid n' = i \<Longrightarrow>
     (i \<in> A \<Longrightarrow> votes n' \<subseteq> A \<and> (role n' = Leader \<longrightarrow> quorum n' \<le> card (votes n'))) \<Longrightarrow>
     Nodes c' = (Nodes c)(i \<mapsto> n') \<Longrightarrow> sealed A c'"
  by (auto simp: sealed_def)

lemma sealed_Step:
  assumes "sealed A c" "Nodes c (To m) = Some n" "Step n m = (n', out)" "To m \<in> A \<Longrightarrow> From m \<in> A"
    and c': "Nodes c' = (Nodes c)(To m \<mapsto> n')"
  shows "sealed A c'"
proof (rule sealed_update [OF assms(1) _ _ c'])
  have n: "nid n = To m" "To m \<in> A \<Longrightarrow> votes n \<subseteq> A"
    "To m \<in> A \<Longrightarrow> role n = Leader \<Longrightarrow> quorum n \<le> card (votes n)"
    using assms(1,2) by (auto simp: sealed_def)
  have n': "n' = fst (Step n m)" using assms(3) by simp
  then show "nid n' = To m" using n(1) by simp
  assume A: "To m \<in> A"
  then show "votes n' \<subseteq> A \<and> (role n' = Leader \<longrightarrow> quorum n' \<le> card (votes n'))"
    using Step_votes [of n m] Step_leader [of n m] n(2,3) assms(4) n' by (auto split: if_splits)
qed

lemma sealed_Tick:
  assumes "sealed A c" "Nodes c i = Some n" "Tick n = (n', out)"
    and c': "Nodes c' = (Nodes c)(i \<mapsto> n')"
  shows "sealed A c'"
proof (rule sealed_update [OF assms(1) _ _ c'])
  have n: "nid n = i" "i \<in> A \<Longrightarrow> votes n \<subseteq> A" "i \<in> A \<Longrightarrow> role n = Leader \<Longrightarrow> quorum n \<le> card (votes n)"
    using assms(1,2) by (auto simp: sealed_def)
  have n': "n' = fst (Tick n)" using assms(3) by simp
  then show "nid n' = i" using n(1) by simp
  assume A: "i \<in> A"
  then show "votes n' \<subseteq> A \<and> (role n' = Leader \<longrightarrow> quorum n' \<le> card (votes n'))"
    using Tick_votes [of n] Tick_leader [of n] n n' by (cases "nterm n' = nterm n") auto
qed

lemma deliver_all_sealed:
  "deliver_all c ms d = Some (c', d') \<Longrightarrow> sealed A c \<Longrightarrow> cut_off A c ms \<Longrightarrow> sealed A c' \<and> blocked c' = blocked c"
proof (induction ms arbitrary: c d)
  case (Cons m ms)
  show ?case
  proof (cases "(From m, To m) \<in> blocked c")
    case True
    with Cons show ?thesis by (simp add: cut_off_def)
  next
    case False
    with Cons.prems(1) obtain n n' out where n: "Nodes c (To m) = Some n" "Step n m = (n', out)"
      and d: "deliver_all (send ((record_msg c m)\<lparr>Nodes := (Nodes c)(To m \<mapsto> n')\<rparr>) out) ms (d + 1) = Some (c', d')"
      (is "deliver_all ?c ms _ = _")
      by (auto split: option.splits prod.splits)
    have "To m \<in> A \<Longrightarrow> From m \<in> A" using Cons.prems(3) False by (auto simp: cut_off_def)
    then have "sealed A ?c" by (rule sealed_Step [OF Cons.prems(2) n]) simp_all
    moreover have "cut_off A ?c ms" using Cons.prems(3) by (simp add: cut_off_def)
    ultimately show ?thesis using Cons.IH [OF d] by simp
  qed
qed simp

lemma tick_all_sealed:
  "tick_all c is = Some c' \<Longrightarrow> sealed A c \<Longrightarrow> sealed A c' \<and> blocked c' = blocked c"
proof (induction "is" arbitrary: c)
  case (Cons i "is")
  then obtain n n' out where n: "Nodes c i = Some n" "Tick n = (n', out)"
    and t: "tick_all (send (c\<lparr>Nodes := (Nodes c)(i \<mapsto> n')\<rparr>) out) is = Some c'"
    by (auto split: option.splits prod.splits)
  have "sealed A (send (c\<lparr>Nodes := (Nodes c)(i \<mapsto> n')\<rparr>) out)"
    by (rule sealed_Tick [OF Cons.prems(2) n]) simp
  from Cons.IH [OF t this] show ?case by simp
qed simp

lemma Cluster_Tick_sealed:
  assumes "Cluster_Tick c = Some (c', d)" "sealed A c" "cut_off A c (inbox c)"
  shows "sealed A c' \<and> blocked c' = blocked c"
proof -
  from assms(1) obtain c1 where 1: "deliver_all (c\<lparr>inbox := []\<rparr>) (inbox c) 0 = Some (c1, d)"
    and 2: "tick_all c1 (order c1) = Some c'"
    by (auto simp: Cluster_Tick_def split: option.splits)
  have "sealed A (c\<lparr>inbox := []\<rparr>)" "cut_off A (c\<lparr>inbox := []\<rparr>) (inbox c)"
    using assms(2,3) by (auto simp: sealed_def cut_off_def)
  from deliver_all_sealed [OF 1 this] tick_all_sealed [OF 2, of A] show ?thesis by simp
qed

text \<open>All links from the other members into \<open>A\<close> are cut.\<close>

lemma Run_sealed:
  assumes "Run c n = Some c'" "cluster_inv ids k c" "[] \<notin> set ids" "k + n < 2 ^ 64"
    and "sealed A c" "(set ids - A) \<times> A \<subseteq> blocked c"
  shows "sealed A c' \<and> cluster_inv ids (k + n) c'"
  using assms
proof (induction n arbitrary: c k)
  case (Suc n)
  from Suc.prems(1) obtain c1 d where t: "Cluster_Tick c = Some (c1, d)" and r: "Run c1 n = Some c'"
    by (auto split: option.splits prod.splits)
  have i1: "cluster_inv ids (Suc k) c1"
    using Cluster_Tick_ok [OF Suc.prems(2,3)] Suc.prems(4) t by auto
  have "cut_off A c (inbox c)"
    using Suc.prems(2,6) by (auto simp: cut_off_def cluster_inv_def msgs_ok_def msg_ok_def)
  from Cluster_Tick_sealed [OF t Suc.prems(5) this] have "sealed A c1" "blocked c1 = blocked c" by auto
  with Suc.IH [OF r i1 Suc.prems(3)] Suc.prems(4,6) show ?case by simp
qed simp

lemma Run_reach: "reach src ids cf k c \<Longrightarrow> Run c n = Some c' \<Longrightarrow> reach src ids cf (k + n) c'"
proof (induction n arbitrary: c k)
  case (Suc n)
  then show ?case by (fastforce split: option.splits prod.splits dest: reach.ticked)
qed simp

lemma sealed_minority_no_leader:
  assumes "sealed A c" "cluster_inv ids k c" "finite A" "card A < length ids div 2 + 1" "i \<in> A"
  shows "\<not> is_leader c i"
proof
  assume "is_leader c i"
  then obtain n where n: "Nodes c i = Some n" "role n = Leader"
    by (auto simp: is_leader_def split: option.splits)
  with assms(1,5) have "votes n \<subseteq> A" "quorum n \<le> card (votes n)"
    by (auto simp: sealed_def)
  then have "quorum n \<le> card A" using assms(3) card_mono order.trans by blast
  moreover have "quorum n = length ids div 2 + 1"
    using assms(2) n(1) by (auto simp: cluster_inv_def nodes_ok_def node_ok_def quorum_def)
  ultimately show False using assms(4) by simp
qed

section \<open>Invariants of every participant\<close>

text \<open>
  A predicate on one participant that \<open>New\<close> establishes and \<open>Tick\<close> and \<open>Step\<close>
  keep holds of every participant of every reachable cluster.
\<close>

locale node_invariant =
  fixes P :: "node \<Rightarrow> bool"
  assumes New_inv: "New src i ids cf = Some n \<Longrightarrow> P n"
    and Tick_inv: "P n \<Longrightarrow> P (fst (Tick n))"
    and Step_inv: "P n \<Longrightarrow> P (fst (Step n m))"
begin

lemma deliver_all_inv:
  "deliver_all c ms d = Some (c', d') \<Longrightarrow> (\<And>i n. Nodes c i = Some n \<Longrightarrow> P n) \<Longrightarrow> Nodes c' j = Some n' \<Longrightarrow> P n'"
proof (induction ms arbitrary: c d)
  case (Cons m ms)
  show ?case
  proof (cases "(From m, To m) \<in> blocked c")
    case True
    with Cons show ?thesis by simp
  next
    case False
    with Cons.prems(1) obtain n s out where n: "Nodes c (To m) = Some n" "Step n m = (s, out)"
      and d: "deliver_all (send ((record_msg c m)\<lparr>Nodes := (Nodes c)(To m \<mapsto> s)\<rparr>) out) ms (d + 1) = Some (c', d')"
      by (auto split: option.splits prod.splits)
    have "P s" using Step_inv [of n m] Cons.prems(2) n by simp
    then show ?thesis
      by (intro Cons.IH [OF d _ Cons.prems(3)]) (auto split: if_splits dest: Cons.prems(2))
  qed
qed simp

lemma tick_all_inv:
  "tick_all c is = Some c' \<Longrightarrow> (\<And>i n. Nodes c i = Some n \<Longrightarrow> P n) \<Longrightarrow> Nodes c' j = Some n' \<Longrightarrow> P n'"
proof (induction "is" arbitrary: c)
  case (Cons i "is")
  then obtain n s out where n: "Nodes c i = Some n" "Tick n = (s, out)"
    and t: "tick_all (send (c\<lparr>Nodes := (Nodes c)(i \<mapsto> s)\<rparr>) out) is = Some c'"
    by (auto split: option.splits prod.splits)
  have "P s" using Tick_inv [of n] Cons.prems(2) n by simp
  then show ?case
    by (intro Cons.IH [OF t _ Cons.prems(3)]) (auto split: if_splits dest: Cons.prems(2))
qed simp

lemma Cluster_Tick_inv:
  assumes "Cluster_Tick c = Some (c', d)" "\<And>i n. Nodes c i = Some n \<Longrightarrow> P n" "Nodes c' j = Some n'"
  shows "P n'"
proof -
  from assms(1) obtain c1 where 1: "deliver_all (c\<lparr>inbox := []\<rparr>) (inbox c) 0 = Some (c1, d)"
    and 2: "tick_all c1 (order c1) = Some c'"
    by (auto simp: Cluster_Tick_def split: option.splits)
  have "\<And>i n. Nodes c1 i = Some n \<Longrightarrow> P n"
    by (rule deliver_all_inv [OF 1]) (use assms(2) in auto)
  then show ?thesis by (rule tick_all_inv [OF 2 _ assms(3)])
qed

lemma reach_node_inv: "reach src ids cf k c \<Longrightarrow> Nodes c i = Some n \<Longrightarrow> P n"
proof (induction arbitrary: i n rule: reach.induct)
  case (start c)
  then show ?case by (auto simp: NewCluster_fields intro: New_inv split: if_splits)
next
  case (ticked k c c' d)
  then show ?case using Cluster_Tick_inv by blast
qed (simp_all add: Partition_def Isolate_def BlockOneWay_def Heal_def)

end

lemma New_timer_inv: "New src i ids cf = Some n \<Longrightarrow> timer_inv n"
  by (auto simp: New_def intro!: timer_inv_reset split: if_splits)

interpretation timers: node_invariant timer_inv
  by unfold_locales (auto intro: New_timer_inv timer_inv_Tick timer_inv_Step)

section \<open>What a tick delivers\<close>

lemma deliver_all_count:
  "deliver_all c ms d = Some (c', d') \<Longrightarrow>
     d' = d + int (length (filter (\<lambda>m. (From m, To m) \<notin> blocked c) ms)) \<and>
     Trace c' = Trace c @ (if Record c then filter (\<lambda>m. (From m, To m) \<notin> blocked c) ms else []) \<and>
     Record c' = Record c"
proof (induction ms arbitrary: c d)
  case (Cons m ms)
  show ?case
  proof (cases "(From m, To m) \<in> blocked c")
    case True
    with Cons show ?thesis by simp
  next
    case False
    with Cons.prems obtain n s out where n: "Nodes c (To m) = Some n" "Step n m = (s, out)"
      and d: "deliver_all (send ((record_msg c m)\<lparr>Nodes := (Nodes c)(To m \<mapsto> s)\<rparr>) out) ms (d + 1) = Some (c', d')"
      by (auto split: option.splits prod.splits)
    from Cons.IH [OF d] False show ?thesis by (simp add: record_msg_def send_def split: if_splits)
  qed
qed simp

lemma tick_all_frame: "tick_all c is = Some c' \<Longrightarrow> Trace c' = Trace c \<and> Record c' = Record c"
proof (induction "is" arbitrary: c)
  case (Cons i "is")
  then show ?case by (fastforce simp: send_def split: option.splits prod.splits)
qed simp

end
