(* ===== verification/Raft_Election.thy ===== *)
theory Raft_Election
  imports Raft_Cluster
begin

text \<open>
  The properties of the Raft package: election safety under arbitrary partitions, the
  voting discipline of one participant, timer bounds, the totality of a tick, what a tick
  delivers, that a cut-off minority elects nobody, and that the election loop of the
  simulation ends with the leader it reports. The example cluster of the witnesses is three
  nodes whose first timeout lets node \<open>a\<close> start its election first.
\<close>

definition ex_src :: "u64 \<Rightarrow> rand" where
  "ex_src s = (\<lambda>i. if s = 97 \<and> i = 0 then 0 else 3)"

definition ex_ids :: "string list" where
  "ex_ids = [''a'', ''b'', ''c'']"

definition ex_cfg :: Config where
  "ex_cfg = \<lparr>ElectionTimeoutMin = 1, ElectionTimeoutMax = 4, HeartbeatTicks = 2, Seed = 0\<rparr>"

definition ex_cluster :: cluster where
  "ex_cluster = the (NewCluster ex_src ex_ids ex_cfg)"

definition ex_after :: "nat \<Rightarrow> cluster" where
  "ex_after k = the (Run ex_cluster k)"

definition ex_node :: "nat \<Rightarrow> string \<Rightarrow> node" where
  "ex_node k i = the (Nodes (ex_after k) i)"

lemma ex_new: "NewCluster ex_src ex_ids ex_cfg = Some ex_cluster"
proof -
  have "NewCluster ex_src ex_ids ex_cfg \<noteq> None" by code_simp
  then show ?thesis by (auto simp: ex_cluster_def)
qed

lemma ex_ids_ok: "distinct ex_ids" "[] \<notin> set ex_ids"
  by (simp_all add: ex_ids_def)

lemma ex_run3: "Run ex_cluster 3 = Some (ex_after 3)"
proof -
  have "Run ex_cluster 3 \<noteq> None" by code_simp
  then show ?thesis by (auto simp: ex_after_def)
qed

lemma ex_reach0: "reach ex_src ex_ids ex_cfg 0 ex_cluster"
  by (rule reach.start [OF ex_new])

lemma ex_reach3: "reach ex_src ex_ids ex_cfg 3 (ex_after 3)"
  using Run_reach [OF ex_reach0 ex_run3] by simp

lemma ex_leader3: "Nodes (ex_after 3) ''a'' = Some (ex_node 3 ''a'')" "role (ex_node 3 ''a'') = Leader"
proof -
  have "is_leader (ex_after 3) ''a''" by code_simp
  then show "Nodes (ex_after 3) ''a'' = Some (ex_node 3 ''a'')" "role (ex_node 3 ''a'') = Leader"
    by (auto simp: is_leader_def ex_node_def split: option.splits)
qed

section \<open>Election safety\<close>

text \<open>
  C1: election safety. Whatever links are cut or healed between ticks, in fewer than
  \<open>2 ^ 64\<close> ticks (so that the 64-bit term cannot wrap) no two nodes of the cluster are
  leaders of the same term. Node ids are distinct and none is the empty string, which the
  code reserves for "no vote".
\<close>

theorem election_safety:
  assumes "reach src ids cf k c" "distinct ids" "[] \<notin> set ids" "k < 2 ^ 64"
    and "Nodes c i = Some a" "role a = Leader"
    and "Nodes c j = Some b" "role b = Leader" "nterm a = nterm b"
  shows "i = j"
proof -
  obtain V where V: "nodes_ok ids V (\<lambda>_. k) (Nodes c)"
    using reach_inv [OF assms(1-4)] by (auto simp: cluster_inv_def)
  show ?thesis
    by (rule maj.unique_winner [OF leader_majority(1) [OF V assms(5,6)] leader_majority(1) [OF V assms(7,8)],
          where ballot = "V (nterm a)"])
      (auto dest: leader_majority(2) [OF V assms(5,6)] leader_majority(2) [OF V assms(7,8)] simp: assms(9))
qed

theorem election_safety_witness:
  "reach ex_src ex_ids ex_cfg 3 (ex_after 3) \<and> role (ex_node 3 ''a'') = Leader \<and>
   \<not> (\<exists>b. Nodes (ex_after 3) ''b'' = Some b \<and> role b = Leader \<and> nterm (ex_node 3 ''a'') = nterm b)"
proof -
  have "(3::nat) < 2 ^ 64" by simp
  from election_safety [OF ex_reach3 ex_ids_ok this ex_leader3, where j = "''b''"]
  show ?thesis using ex_reach3 ex_leader3 by auto
qed

text \<open>
  C2: a leader is backed by a majority. In a reachable cluster the votes a leader holds
  come from members and number more than half of the cluster.
\<close>

theorem leader_has_majority:
  assumes "reach src ids cf k c" "distinct ids" "[] \<notin> set ids" "k < 2 ^ 64"
    and "Nodes c i = Some a" "role a = Leader"
  shows "votes a \<subseteq> set ids \<and> length ids < 2 * card (votes a)"
proof -
  obtain V where V: "nodes_ok ids V (\<lambda>_. k) (Nodes c)"
    using reach_inv [OF assms(1-4)] by (auto simp: cluster_inv_def)
  from leader_majority(1) [OF V assms(5,6)]
  show ?thesis
    by (auto simp: majority_def)
qed

theorem leader_has_majority_witness:
  "role (ex_node 3 ''a'') = Leader \<and> 3 < 2 * card (votes (ex_node 3 ''a''))"
proof -
  have "(3::nat) < 2 ^ 64" by simp
  from leader_has_majority [OF ex_reach3 ex_ids_ok this ex_leader3]
  show ?thesis using ex_leader3 by (simp add: ex_ids_def)
qed

text \<open>
  C3: a minority cannot elect. From a reachable cluster in which no member of \<open>A\<close> leads
  and the members of \<open>A\<close> hold votes from \<open>A\<close> only, cut every link into \<open>A\<close> and run:
  while \<open>A\<close> has no majority, no member of \<open>A\<close> becomes leader.
\<close>

theorem minority_never_elects:
  assumes "reach src ids cf k c" "distinct ids" "[] \<notin> set ids" "k + n < 2 ^ 64"
    and "\<And>i a. i \<in> A \<Longrightarrow> Nodes c i = Some a \<Longrightarrow> role a \<noteq> Leader \<and> votes a \<subseteq> A"
    and "(set ids - A) \<times> A \<subseteq> blocked c" "finite A" "card A < length ids div 2 + 1"
    and "Run c n = Some c'" "i \<in> A"
  shows "\<not> is_leader c' i"
proof -
  have inv: "cluster_inv ids k c" using reach_inv [OF assms(1-3)] assms(4) by simp
  then have "sealed A c" using assms(5) by (fastforce simp: sealed_def cluster_inv_def nodes_ok_def)
  from Run_sealed [OF assms(9) inv assms(3,4) this assms(6)]
  show ?thesis using sealed_minority_no_leader assms(7,8,10) by blast
qed

theorem minority_never_elects_witness:
  "\<not> is_leader (the (Run (Partition ex_cluster [''a''] [''b'', ''c'']) 7)) ''a''"
proof -
  let ?c = "Partition ex_cluster [''a''] [''b'', ''c'']"
  have r: "reach ex_src ex_ids ex_cfg 0 ?c" by (rule reach.partitioned [OF ex_reach0])
  have "Run ?c 7 \<noteq> None" by code_simp
  then have run: "Run ?c 7 = Some (the (Run ?c 7))" by auto
  have b: "(set ex_ids - {''a''}) \<times> {''a''} \<subseteq> blocked ?c"
    by (auto simp: ex_ids_def Partition_def)
  have new: "role n \<noteq> Leader \<and> votes n \<subseteq> {''a''}" if "Nodes ?c i = Some n" for i n
  proof -
    have "New ex_src i ex_ids ex_cfg = Some n" "i \<in> set ex_ids"
      using that by (auto simp: Partition_def NewCluster_fields [OF ex_new] split: if_splits)
    from New_ok [OF this ex_ids_ok(1)] show ?thesis by simp
  qed
  show ?thesis
    by (rule minority_never_elects [OF r ex_ids_ok _ new b _ _ run]) (simp_all add: ex_ids_def)
qed

section \<open>The simulation never fails and delivers what is not blocked\<close>

text \<open>
  A tick of a reachable cluster never dereferences a missing node, and the highest
  term in the cluster is at most the number of ticks.
\<close>

theorem cluster_tick_total:
  assumes "reach src ids cf k c" "distinct ids" "[] \<notin> set ids" "Suc k < 2 ^ 64"
  shows "\<exists>c' d. Cluster_Tick c = Some (c', d) \<and> (\<forall>i n. Nodes c' i = Some n \<longrightarrow> unat (nterm n) \<le> Suc k)"
  using Cluster_Tick_ok [OF reach_inv [OF assms(1-3)] assms(3,4)] assms(4)
  by (fastforce simp: cluster_inv_def nodes_ok_def)

theorem cluster_tick_total_witness: "\<exists>c' d. Cluster_Tick ex_cluster = Some (c', d)"
  using cluster_tick_total [OF ex_reach0 ex_ids_ok] by auto

text \<open>
  A tick delivers exactly the pending messages whose link is not blocked, in order: it
  returns their number and, when recording, appends them to the trace.
\<close>

theorem cluster_tick_delivers:
  assumes "Cluster_Tick c = Some (c', d)"
  shows "d = int (length (filter (\<lambda>m. (From m, To m) \<notin> blocked c) (inbox c)))
    \<and> Trace c' = Trace c @ (if Record c then filter (\<lambda>m. (From m, To m) \<notin> blocked c) (inbox c) else [])"
proof -
  from assms obtain c1 where 1: "deliver_all (c\<lparr>inbox := []\<rparr>) (inbox c) 0 = Some (c1, d)"
    and 2: "tick_all c1 (order c1) = Some c'"
    by (auto simp: Cluster_Tick_def split: option.splits)
  from deliver_all_count [OF 1] tick_all_frame [OF 2]
  show ?thesis by simp
qed

theorem cluster_tick_delivers_witness:
  "\<exists>c'. Cluster_Tick (BlockOneWay (ex_after 1) ''a'' ''b'') = Some (c', 1)"
proof -
  let ?c = "BlockOneWay (ex_after 1) ''a'' ''b''"
  have "Cluster_Tick ?c \<noteq> None" by code_simp
  then obtain c' d where t: "Cluster_Tick ?c = Some (c', d)" by auto
  have "length (filter (\<lambda>m. (From m, To m) \<notin> blocked ?c) (inbox ?c)) = 1" by code_simp
  with cluster_tick_delivers [OF t] t show ?thesis by simp
qed

section \<open>One participant\<close>

text \<open>
  One vote per term. A message never changes a vote already cast in the current term,
  and a granted vote in a reply names exactly the candidate recorded in \<open>votedFor\<close>.
\<close>

theorem step_votes_once:
  assumes "Step n m = (n', out)"
  shows "(votedFor n \<noteq> [] \<and> nterm n' = nterm n \<longrightarrow> votedFor n' = votedFor n)
    \<and> (\<forall>r \<in> set out. Granted r \<longrightarrow> From r = nid n \<and> To r = votedFor n' \<and> Term r = nterm n')"
  using assms Step_votedFor_stable [of n m] Step_granted [of _ n m] Step_out [of _ n m] by auto

theorem step_votes_once_witness:
  "votedFor (fst (Step (ex_node 3 ''b'') \<lparr>Type = MsgRequestVote, From = ''c'', To = ''b'', Term = 1, Granted = False\<rparr>))
     = ''a''"
proof -
  let ?n = "ex_node 3 ''b''"
  let ?m = "\<lparr>Type = MsgRequestVote, From = ''c'', To = ''b'', Term = 1, Granted = False\<rparr>"
  have "votedFor ?n = ''a''" "nterm (fst (Step ?n ?m)) = nterm ?n" by code_simp+
  with step_votes_once [of ?n ?m "fst (Step ?n ?m)" "snd (Step ?n ?m)"] show ?thesis by simp
qed

text \<open>
  A higher term always demotes. Whatever its role, a node that receives a message of a
  higher term is afterwards a follower of that term with no collected votes, and for a
  heartbeat it follows the sender.
\<close>

theorem higher_term_demotes:
  assumes "To m = nid n" "nterm n < Term m" "Step n m = (n', out)"
  shows "role n' = Follower \<and> nterm n' = Term m \<and> votes n' = {}
    \<and> leader n' = (if Type m = MsgHeartbeat then From m else [])"
  using assms
  by (auto simp: Step_def demote_def becomeFollower_higher Step_current_def Let_def
      split: MessageType.splits if_splits)

theorem higher_term_demotes_witness:
  "role (fst (Step (ex_node 3 ''a'') \<lparr>Type = MsgRequestVote, From = ''c'', To = ''a'', Term = 9, Granted = False\<rparr>))
     = Follower"
proof -
  let ?n = "ex_node 3 ''a''"
  let ?m = "\<lparr>Type = MsgRequestVote, From = ''c'', To = ''a'', Term = 9, Granted = False\<rparr>"
  have "To ?m = nid ?n" "nterm ?n < Term ?m" by code_simp+
  from higher_term_demotes [OF this, of _ "snd (Step ?n ?m)"] show ?thesis by simp
qed

text \<open>
  C10: timers stay in range. In every reachable cluster each node's election timeout lies
  between the configured bounds and its tick counter is below the timeout that applies to
  its role, so neither counter can overflow.
\<close>

theorem timers_in_range:
  assumes "reach src ids cf k c" "Nodes c i = Some n"
  shows "ElectionTimeoutMin (cfg n) \<le> electionTimeout n \<and> electionTimeout n \<le> ElectionTimeoutMax (cfg n)
    \<and> 0 \<le> elapsed n \<and> elapsed n < (if role n = Leader then HeartbeatTicks (cfg n) else electionTimeout n)"
  using timers.reach_node_inv [OF assms] by (simp add: timer_inv_def)

theorem timers_in_range_witness:
  "1 \<le> electionTimeout (ex_node 3 ''a'') \<and> elapsed (ex_node 3 ''a'') < 2"
proof -
  have "ElectionTimeoutMin (cfg (ex_node 3 ''a'')) = 1" "HeartbeatTicks (cfg (ex_node 3 ''a'')) = 2"
    by code_simp+
  with timers_in_range [OF ex_reach3 ex_leader3(1)] ex_leader3(2) show ?thesis by simp
qed

section \<open>The election loop\<close>

lemma Leaders_set: "cluster_inv ids k c \<Longrightarrow> set (Leaders c) = {i. is_leader c i} \<and> distinct (Leaders c)"
  by (auto simp: Leaders_def cluster_inv_def nodes_ok_def is_leader_def split: option.splits)

lemma Cluster_Leader_sole:
  "cluster_inv ids k c \<Longrightarrow> Cluster_Leader c \<noteq> [] \<Longrightarrow> {i. is_leader c i} = {Cluster_Leader c}"
  using Leaders_set [of ids k c] by (auto simp: Cluster_Leader_def split: list.splits)

lemma run_until_result:
  assumes "reach src ids cf k c" "distinct ids" "[] \<notin> set ids" "k + left < 2 ^ 64"
  shows "\<exists>l j c'. run_until c i left = Some (l, i + j, c') \<and> j \<le> left \<and> reach src ids cf (k + j) c'
    \<and> l = Cluster_Leader c' \<and> (l = [] \<longrightarrow> j = left)"
  using assms
proof (induction left arbitrary: c i k)
  case 0
  then show ?case by simp
next
  case (Suc left)
  show ?case
  proof (cases "Cluster_Leader c = []")
    case True
    obtain c1 d where t: "Cluster_Tick c = Some (c1, d)"
      using Cluster_Tick_ok [OF reach_inv [OF Suc.prems(1-3)] Suc.prems(3)] Suc.prems(4) by auto
    from Suc.IH [OF reach.ticked [OF Suc.prems(1) t] Suc.prems(2,3), of "Suc i"] Suc.prems(4)
    obtain l j c' where "run_until c1 (Suc i) left = Some (l, Suc i + j, c')" "j \<le> left"
      "reach src ids cf (Suc k + j) c'" "l = Cluster_Leader c'" "l = [] \<longrightarrow> j = left"
      by auto
    then show ?thesis using True t by (auto intro!: exI [of _ "Suc j"])
  next
    case False
    with Suc.prems(1) show ?thesis by (auto intro!: exI [of _ 0])
  qed
qed

text \<open>
  C11: the election loop always returns, after at most \<open>maxTicks\<close> ticks. If it names a
  node, that node is the one and only leader of the cluster it leaves behind; it returns
  the empty name only after exhausting the ticks.
\<close>

theorem run_until_leader_sound:
  assumes "reach src ids cf k c" "distinct ids" "[] \<notin> set ids" "k + maxTicks < 2 ^ 64"
  shows "\<exists>l j c'. RunUntilLeader c maxTicks = Some (l, j, c') \<and> j \<le> maxTicks
    \<and> (if l = [] then j = maxTicks else {i. is_leader c' i} = {l})"
proof -
  obtain l j c' where r: "run_until c 0 maxTicks = Some (l, j, c')" "j \<le> maxTicks"
    "reach src ids cf (k + j) c'" "l = Cluster_Leader c'" "l = [] \<longrightarrow> j = maxTicks"
    using run_until_result [OF assms, of 0] by auto
  moreover have "l \<noteq> [] \<Longrightarrow> {i. is_leader c' i} = {l}"
    using Cluster_Leader_sole reach_inv [OF r(3) assms(2,3)] r(2,4) assms(4) by simp
  ultimately show ?thesis by (auto simp: RunUntilLeader_def)
qed

theorem run_until_leader_sound_witness:
  "\<exists>c'. RunUntilLeader ex_cluster 5 = Some (''a'', 3, c') \<and> {i. is_leader c' i} = {''a''}"
proof -
  have "map_option (\<lambda>(l, j, _). (l, j)) (RunUntilLeader ex_cluster 5) = Some (''a'', 3)" by code_simp
  with run_until_leader_sound [OF ex_reach0 ex_ids_ok, of 5] show ?thesis by auto
qed

text \<open>A cluster of one: every tick only moves its timer until the timer fires.\<close>

definition solo :: "string \<Rightarrow> node \<Rightarrow> cluster \<Rightarrow> bool" where
  "solo i n c \<longleftrightarrow> Nodes c i = Some n \<and> order c = [i] \<and> inbox c = []
     \<and> nid n = i \<and> peers n = [] \<and> role n = Follower \<and> elapsed n < electionTimeout n"

lemma solo_Tick:
  assumes "solo i n c"
  shows "if electionTimeout n \<le> elapsed n + 1
    then \<exists>c' a. Cluster_Tick c = Some (c', 0) \<and> Nodes c' i = Some a \<and> role a = Leader \<and> order c' = [i]
    else \<exists>c'. Cluster_Tick c = Some (c', 0) \<and> solo i (n\<lparr>elapsed := elapsed n + 1\<rparr>) c'"
  using assms
  by (auto simp: solo_def Cluster_Tick_def Tick_def startElection_def becomeLeader_def broadcast_def
      quorum_def send_def Let_def)

lemma solo_not_leader: "solo i n c \<Longrightarrow> Cluster_Leader c = []"
  by (simp add: solo_def Cluster_Leader_def Leaders_def is_leader_def)

lemma run_until_solo:
  assumes "solo i n c" "i \<noteq> []" "electionTimeout n - elapsed n \<le> int left"
  shows "\<exists>c'. run_until c j left = Some (i, j + nat (electionTimeout n - elapsed n), c')"
  using assms
proof (induction left arbitrary: c n j)
  case 0
  then show ?case by (simp add: solo_def)
next
  case (Suc left)
  show ?case
  proof (cases "electionTimeout n \<le> elapsed n + 1")
    case True
    then obtain c1 a where "Cluster_Tick c = Some (c1, 0)" "Nodes c1 i = Some a" "role a = Leader" "order c1 = [i]"
      using solo_Tick [OF Suc.prems(1)] by auto
    moreover have "electionTimeout n - elapsed n = 1" using True Suc.prems(1) by (auto simp: solo_def)
    moreover from calculation have "Cluster_Leader c1 = i"
      by (simp add: Cluster_Leader_def Leaders_def is_leader_def)
    ultimately show ?thesis
      using solo_not_leader [OF Suc.prems(1)] Suc.prems(2) by (cases left) auto
  next
    case False
    then obtain c1 where c1: "Cluster_Tick c = Some (c1, 0)" "solo i (n\<lparr>elapsed := elapsed n + 1\<rparr>) c1"
      using solo_Tick [OF Suc.prems(1)] by auto
    from Suc.IH [OF c1(2) Suc.prems(2), of "Suc j"] Suc.prems(3) obtain c' where
      "run_until c1 (Suc j) left = Some (i, Suc j + nat (electionTimeout n - (elapsed n + 1)), c')" by auto
    moreover have "Suc (nat (electionTimeout n - (elapsed n + 1))) = nat (electionTimeout n - elapsed n)"
      using False by simp
    ultimately show ?thesis using c1(1) solo_not_leader [OF Suc.prems(1)] by auto
  qed
qed

text \<open>
  C12: a single-node cluster elects itself: given \<open>ElectionTimeoutMax\<close> ticks, the loop
  returns that node after a number of ticks between the two timeout bounds.
\<close>

theorem single_node_elects_itself:
  assumes "NewCluster src [i] cf = Some c" "i \<noteq> []" "ElectionTimeoutMax cf \<le> int maxTicks"
  shows "\<exists>j c'. RunUntilLeader c maxTicks = Some (i, j, c')
    \<and> ElectionTimeoutMin cf \<le> int j \<and> int j \<le> ElectionTimeoutMax cf"
proof -
  obtain n where n: "New src i [i] cf = Some n" "Nodes c i = Some n"
    using NewCluster_fields(4,5) [OF assms(1)] by (metis domD insertI1 list.simps(15))
  have f: "cfg n = cf" "elapsed n = 0" "peers n = []"
    using n(1) by (auto simp: New_def split: if_splits)
  have t: "timer_inv n" using New_timer_inv [OF n(1)] .
  have "solo i n c"
    using NewCluster_fields(1,2) [OF assms(1)] n(2) f New_ok [OF n(1)] t by (simp add: solo_def timer_inv_def)
  from run_until_solo [OF this assms(2), of maxTicks 0] assms(3) f t
  show ?thesis by (auto simp: RunUntilLeader_def timer_inv_def valid_config_def)
qed

theorem single_node_elects_itself_witness:
  "\<exists>j c'. RunUntilLeader (the (NewCluster ex_src [''x''] DefaultConfig)) 30 = Some (''x'', j, c') \<and> 15 \<le> int j"
proof -
  have "NewCluster ex_src [''x''] DefaultConfig \<noteq> None" by code_simp
  then have "NewCluster ex_src [''x''] DefaultConfig = Some (the (NewCluster ex_src [''x''] DefaultConfig))" by auto
  from single_node_elects_itself [OF this, of 30] show ?thesis by (auto simp: DefaultConfig_def)
qed

end
