(* ===== verification/Go_Time.thy ===== *)
theory Go_Time
  imports Prelude
begin

text \<open>
  What the program uses of Go's \<^verbatim>\<open>time\<close> package and of its 64-bit signed integers:
  durations are nanosecond counts with wrap-around products, a time is a nanosecond count
  since the zero time, and \<^verbatim>\<open>time.ParseDuration\<close> reads strings such as
  \<open>500ms\<close> or \<open>1.5h\<close>. The multiplication by a decimal fraction, which Go does in
  \<open>float64\<close>, is exact here.
\<close>

type_synonym duration = int
type_synonym instant = int

definition wrap64 :: "int \<Rightarrow> int" where
  "wrap64 x = (x + 2 ^ 63) mod 2 ^ 64 - 2 ^ 63"

definition Millisecond :: int where "Millisecond = 1000000"
definition Second :: int where "Second = 1000000000"

text \<open>\<^verbatim>\<open>time.Time.Sub\<close> saturates at the ends of the duration range.\<close>

definition time_Sub :: "instant \<Rightarrow> instant \<Rightarrow> duration" where
  "time_Sub t u = max (- (2 ^ 63)) (min (2 ^ 63 - 1) (t - u))"

definition is_digit :: "char \<Rightarrow> bool" where
  "is_digit c \<longleftrightarrow> CHR ''0'' \<le> c \<and> c \<le> CHR ''9''"

definition digit_val :: "char \<Rightarrow> nat" where
  "digit_val c = of_char c - 48"

fun leadingInt :: "nat \<Rightarrow> string \<Rightarrow> (nat \<times> string) option" where
  "leadingInt x [] = Some (x, [])"
| "leadingInt x (c # s) =
     (if \<not> is_digit c then Some (x, c # s)
      else if x > 2 ^ 63 div 10 then None
      else (let y = x * 10 + digit_val c in if y > 2 ^ 63 then None else leadingInt y s))"

fun leadingFraction :: "nat \<Rightarrow> nat \<Rightarrow> bool \<Rightarrow> string \<Rightarrow> nat \<times> nat \<times> string" where
  "leadingFraction x scale ovf [] = (x, scale, [])"
| "leadingFraction x scale ovf (c # s) =
     (if \<not> is_digit c then (x, scale, c # s)
      else if ovf \<or> x > (2 ^ 63 - 1) div 10 then leadingFraction x scale True s
      else (let y = x * 10 + digit_val c
            in if y > 2 ^ 63 then leadingFraction x scale True s
               else leadingFraction y (scale * 10) False s))"

definition unit_of :: "string \<Rightarrow> nat option" where
  "unit_of u = map_of
     [(''ns'', 1), (''us'', 1000),
      ([CHR 0xC2, CHR 0xB5, CHR ''s''], 1000), ([CHR 0xCE, CHR 0xBC, CHR ''s''], 1000),
      (''ms'', 1000000), (''s'', 1000000000), (''m'', 60000000000), (''h'', 3600000000000)] u"

definition unit_char :: "char \<Rightarrow> bool" where
  "unit_char c \<longleftrightarrow> c \<noteq> CHR ''.'' \<and> \<not> is_digit c"

text \<open>One \<open>[0-9]*(\.[0-9]*)?unit\<close> group: its value in nanoseconds and the rest of the string.\<close>

definition parse_group :: "string \<Rightarrow> (nat \<times> string) option" where
  "parse_group s =
     (if s = [] \<or> unit_char (hd s) then None
      else case leadingInt 0 s of
        None \<Rightarrow> None
      | Some (v, s1) \<Rightarrow>
          (let pre = (length s1 \<noteq> length s);
               dot = (s1 \<noteq> [] \<and> hd s1 = CHR ''.'');
               (f, scale, s2) = (if dot then leadingFraction 0 1 False (tl s1) else (0, 1, s1));
               post = (dot \<and> length s2 \<noteq> length (tl s1));
               u = takeWhile unit_char s2; s3 = dropWhile unit_char s2
           in if \<not> pre \<and> \<not> post then None
              else if u = [] then None
              else case unit_of u of
                None \<Rightarrow> None
              | Some un \<Rightarrow>
                  if v > 2 ^ 63 div un then None
                  else (let w = v * un + f * un div scale
                        in if f > 0 \<and> w > 2 ^ 63 then None else Some (w, s3))))"

lemma leadingInt_length: "leadingInt x s = Some (y, r) \<Longrightarrow> length r \<le> length s"
  by (induction x s rule: leadingInt.induct) (auto simp: Let_def split: if_splits)

lemma leadingFraction_length: "leadingFraction x sc b s = (y, sc', r) \<Longrightarrow> length r \<le> length s"
  by (induction x sc b s rule: leadingFraction.induct) (auto simp: Let_def split: if_splits)

lemma parse_group_length: "parse_group s = Some (w, r) \<Longrightarrow> length r < length s"
proof -
  assume p: "parse_group s = Some (w, r)"
  then obtain v s1 where 1: "leadingInt 0 s = Some (v, s1)"
    by (auto simp: parse_group_def split: if_splits option.splits)
  define t where "t = (if s1 \<noteq> [] \<and> hd s1 = CHR ''.'' then leadingFraction 0 1 False (tl s1) else (0, 1, s1))"
  have "length (snd (snd t)) \<le> length s1"
    using leadingFraction_length [of 0 1 False "tl s1"] by (cases t) (fastforce simp: t_def split: if_splits)
  moreover from p 1 have "takeWhile unit_char (snd (snd t)) \<noteq> []" "r = dropWhile unit_char (snd (snd t))"
    by (auto simp: parse_group_def t_def Let_def split: if_splits option.splits prod.splits)
  moreover have "length (takeWhile unit_char (snd (snd t))) + length r = length (snd (snd t))"
    using calculation(3) by (metis length_append takeWhile_dropWhile_id)
  moreover have "length s1 \<le> length s" using leadingInt_length [OF 1] .
  ultimately show ?thesis by (cases "takeWhile unit_char (snd (snd t))") auto
qed

function parse_groups :: "nat \<Rightarrow> string \<Rightarrow> nat option" where
  "parse_groups d s =
     (if s = [] then Some d
      else case parse_group s of
        None \<Rightarrow> None
      | Some (w, r) \<Rightarrow> if d + w > 2 ^ 63 then None else parse_groups (d + w) r)"
  by pat_completeness auto
termination
  by (relation "measure (\<lambda>(d, s). length s)") (auto dest: parse_group_length)

declare parse_groups.simps [simp del]

definition ParseDuration :: "string \<Rightarrow> duration option" where
  "ParseDuration s0 =
     (let neg = (s0 \<noteq> [] \<and> hd s0 = CHR ''-'');
          s = (if s0 \<noteq> [] \<and> (hd s0 = CHR ''-'' \<or> hd s0 = CHR ''+'') then tl s0 else s0)
      in if s = ''0'' then Some 0
         else if s = [] then None
         else case parse_groups 0 s of
           None \<Rightarrow> None
         | Some d \<Rightarrow> if neg then Some (- int d) else if d > 2 ^ 63 - 1 then None else Some (int d))"

section \<open>Decimal numerals are read back\<close>

lemma wrap64_id: "- (2 ^ 63) \<le> x \<Longrightarrow> x < 2 ^ 63 \<Longrightarrow> wrap64 x = x"
  by (simp add: wrap64_def)

lemma wrap64_range: "- (2 ^ 63) \<le> wrap64 x \<and> wrap64 x < 2 ^ 63"
  by (auto simp: wrap64_def pos_mod_bound [of "2 ^ 64" "x + 2 ^ 63", simplified])

lemma digit_char: "n < 10 \<Longrightarrow> is_digit (char_of (48 + n :: nat)) \<and> digit_val (char_of (48 + n :: nat)) = n"
  by (auto simp: is_digit_def digit_val_def less_eq_char_def)

lemma leadingInt_digit:
  "n < 10 \<Longrightarrow> x * 10 + n \<le> 2 ^ 63 \<Longrightarrow> leadingInt x (char_of (48 + n) # r) = leadingInt (x * 10 + n) r"
  using digit_char [of n] by (auto simp: Let_def)

lemma leadingInt_show:
  "x * 10 ^ length (show_nat n) + n \<le> 2 ^ 63 \<Longrightarrow>
     leadingInt x (show_nat n @ r) = leadingInt (x * 10 ^ length (show_nat n) + n) r"
proof (induction n arbitrary: x r rule: show_nat.induct)
  case (1 n)
  show ?case
  proof (cases "n < 10")
    case True
    then have s: "show_nat n = [char_of (48 + n)]" by (subst show_nat.simps) simp
    with True "1.prems" show ?thesis by (simp add: leadingInt_digit del: leadingInt.simps)
  next
    case False
    then have s: "show_nat n = show_nat (n div 10) @ [char_of (48 + n mod 10)]" by (subst show_nat.simps) simp
    define y where "y = x * 10 ^ length (show_nat (n div 10)) + n div 10"
    have eq: "y * 10 + n mod 10 = x * 10 ^ length (show_nat n) + n"
      by (simp add: s y_def algebra_simps)
    with "1.prems" have "y \<le> 2 ^ 63" by linarith
    then have "leadingInt x (show_nat n @ r) = leadingInt y (char_of (48 + n mod 10) # r)"
      using "1.IH" [OF False, of x] by (simp add: s y_def del: leadingInt.simps)
    also have "\<dots> = leadingInt (y * 10 + n mod 10) r"
      using eq "1.prems" by (intro leadingInt_digit) simp_all
    finally show ?thesis by (simp add: eq)
  qed
qed

lemma show_nat_hd: "show_nat n \<noteq> [] \<and> is_digit (hd (show_nat n))"
proof (induction n rule: show_nat.induct)
  case (1 n)
  then show ?case
    using digit_char [of n] by (subst (1 2) show_nat.simps) (auto simp: hd_append)
qed

lemma parse_groups_Nil [simp]: "parse_groups d [] = Some d"
  by (subst parse_groups.simps) simp

lemma leadingInt_ms: "leadingInt x ''ms'' = Some (x, ''ms'')"
  by (simp add: is_digit_def less_eq_char_def)

lemma parse_group_ms:
  assumes "n * 1000000 < 2 ^ 63"
  shows "parse_group (show_nat n @ ''ms'') = Some (n * 1000000, [])"
proof -
  have i: "leadingInt 0 (show_nat n @ ''ms'') = Some (n, ''ms'')"
    using leadingInt_show [of 0 n "''ms''"] assms by (simp add: leadingInt_ms del: leadingInt.simps)
  have h: "\<not> unit_char (hd (show_nat n @ ''ms''))" "show_nat n \<noteq> []"
    using show_nat_hd [of n] by (simp_all add: unit_char_def hd_append)
  have u: "unit_char CHR ''m''" "unit_char CHR ''s''"
    by (simp_all add: unit_char_def is_digit_def less_eq_char_def)
  have "unit_of ''ms'' = Some 1000000" by (simp add: unit_of_def)
  moreover have "\<not> n > 2 ^ 63 div 1000000" using assms by simp
  ultimately show ?thesis
    using i h u by (simp add: parse_group_def Let_def)
qed

lemma ParseDuration_ms:
  assumes "n * 1000000 < 2 ^ 63"
  shows "ParseDuration (show_nat n @ ''ms'') = Some (int n * 1000000)"
proof -
  let ?s = "show_nat n @ ''ms''"
  have "hd ?s = hd (show_nat n)" "is_digit (hd (show_nat n))"
    using show_nat_hd [of n] by (simp_all add: hd_append)
  then have h: "hd ?s \<noteq> CHR ''-''" "hd ?s \<noteq> CHR ''+''"
    by (auto simp: is_digit_def less_eq_char_def)
  have z: "?s \<noteq> ''0''" using show_nat_hd [of n] by (cases "show_nat n") auto
  have "parse_groups 0 ?s = Some (n * 1000000)"
    using parse_group_ms [OF assms] assms
    by (subst parse_groups.simps) simp
  with h z assms show ?thesis by (simp add: ParseDuration_def Let_def)
qed

end
