(* ===== verification/Net_Faults.thy ===== *)
theory Net_Faults
  imports Go_Time "HOL-Library.Multiset"
begin

text \<open>
  The connection-level faults (\<^verbatim>\<open>internal/faults/network.go\<close>): one record per
  fault struct, its methods, and the chain of wrappers a connection gets. Faults are
  pointers in Go and one fault may be registered on several nodes, so their mutable state
  lives in a heap of objects. The \<open>world\<close> a \<open>Write\<close> acts on holds that heap, the
  clock, the pending results of the global random generator, the buffers of the
  \<open>reorderConn\<close> wrappers and, per raw connection, the chunks that reached the wire.
  Probabilities and token counts (\<open>float64\<close>) are reals.
\<close>

section \<open>Fault objects\<close>

datatype Direction = DirectionClientToUpstream | DirectionUpstreamToClient

datatype StreamType = ClientQueryStream | ReplicationStream

record LatencyInjectionFault =
  BaseDelay :: duration
  Jitter :: duration
  RampTo :: duration
  RampOver :: duration
  current :: duration

record BandwidthThrottleFault =
  Rate :: int
  Burst :: int
  tokens :: real
  lastRefill :: instant

record ReorderFault =
  BufferSize :: int
  ro_Probability :: real

record DuplicationFault =
  dup_Probability :: real
  MaxExtraCopies :: int

record AsymmetricPartitionFault =
  BlockDirection :: Direction

record BurstyLossFault =
  BaselineLoss :: real
  BurstLoss :: real
  BurstEvery :: duration
  BurstFor :: duration
  inBurst :: bool
  burstEnds :: instant
  lastCheck :: instant

record DNSFailureFault =
  ServiceName :: string
  dns_active :: bool
  dns_until :: instant

type_synonym chunk = "byte list"
type_synonym ptr = nat
type_synonym conn_id = nat

text \<open>
  The faults with mutable state are objects in the heap. A \<open>Fault\<close> value is Go's interface
  value: its dynamic type with the pointer, or with the fields where nothing ever changes them.
\<close>

datatype conn_obj =
    OLatency LatencyInjectionFault
  | OThrottle BandwidthThrottleFault
  | OBursty BurstyLossFault

datatype Fault =
    LatencyF ptr
  | ThrottleF ptr
  | ReorderF ReorderFault
  | DuplicationF DuplicationFault
  | AsymmetricF AsymmetricPartitionFault
  | RSTF
  | DNSF DNSFailureFault
  | BurstyF ptr

primrec Fault_Name :: "Fault \<Rightarrow> string" where
  "Fault_Name (LatencyF a) = ''latency''"
| "Fault_Name (ThrottleF a) = ''bandwidth_throttle''"
| "Fault_Name (ReorderF f) = ''reorder''"
| "Fault_Name (DuplicationF f) = ''duplication''"
| "Fault_Name (AsymmetricF f) = ''asymmetric_partition''"
| "Fault_Name RSTF = ''tcp_rst''"
| "Fault_Name (DNSF f) = ''dns_failure''"
| "Fault_Name (BurstyF a) = ''bursty_loss''"

text \<open>The wrapper chain around a raw connection; a \<open>reorderConn\<close> carries the name of its buffer.\<close>

datatype conn =
    Raw conn_id
  | LatencyConn conn ptr
  | ThrottleConn conn ptr
  | ReorderConn conn nat int real
  | DupConn conn real int
  | BlackholeConn conn
  | BurstyLossConn conn ptr

record world =
  now :: instant
  floats :: "nat \<Rightarrow> real"
  ints :: rand
  heap :: "ptr \<Rightarrow> conn_obj option"
  next_ptr :: ptr
  bufs :: "nat \<Rightarrow> chunk list"
  next_buf :: nat
  linger0 :: "conn_id set"
  fails :: "nat \<Rightarrow> bool"
  wire :: "conn_id \<Rightarrow> chunk list"

section \<open>Random draws and time\<close>

definition Float64 :: "world \<Rightarrow> real \<times> world" where
  "Float64 w = (frac (floats w 0), w\<lparr>floats := (\<lambda>i. floats w (Suc i))\<rparr>)"

definition draw_int :: "int \<Rightarrow> world \<Rightarrow> int \<times> world" where
  "draw_int n w = (let (x, r) = Intn n (ints w) in (x, w\<lparr>ints := r\<rparr>))"

definition Sleep :: "duration \<Rightarrow> world \<Rightarrow> world" where
  "Sleep d w = w\<lparr>now := now w + max 0 d\<rparr>"

text \<open>\<^verbatim>\<open>rand.Shuffle\<close>: Fisher--Yates from the last index down.\<close>

definition swap :: "'a list \<Rightarrow> nat \<Rightarrow> nat \<Rightarrow> 'a list" where
  "swap xs i j = (if i < length xs \<and> j < length xs then xs[i := xs ! j, j := xs ! i] else xs)"

fun shuffle_down :: "nat \<Rightarrow> 'a list \<Rightarrow> rand \<Rightarrow> 'a list \<times> rand" where
  "shuffle_down 0 xs r = (xs, r)"
| "shuffle_down (Suc i) xs r =
     (let (j, r') = Intn (int (Suc (Suc i))) r in shuffle_down i (swap xs (Suc i) (nat j)) r')"

definition Shuffle :: "'a list \<Rightarrow> rand \<Rightarrow> 'a list \<times> rand" where
  "Shuffle xs r = shuffle_down (length xs - 1) xs r"

section \<open>Latency\<close>

definition NewLatencyInjectionFault :: "duration \<Rightarrow> duration \<Rightarrow> LatencyInjectionFault" where
  "NewLatencyInjectionFault base jitter =
     \<lparr>BaseDelay = base, Jitter = jitter, RampTo = 0, RampOver = 0, current = base\<rparr>"

definition CurrentDelay :: "LatencyInjectionFault \<Rightarrow> world \<Rightarrow> duration \<times> world" where
  "CurrentDelay f w =
     (if Jitter f > 0 then (let (x, w') = draw_int (Jitter f) w in (wrap64 (current f + x), w'))
      else (current f, w))"

definition trunc_real :: "real \<Rightarrow> int" where
  "trunc_real x = (if x < 0 then \<lceil>x\<rceil> else \<lfloor>x\<rfloor>)"

definition Latency_Tick :: "LatencyInjectionFault \<Rightarrow> duration \<Rightarrow> LatencyInjectionFault" where
  "Latency_Tick f elapsed =
     (if RampTo f = 0 \<or> RampOver f = 0 then f
      else if elapsed \<ge> RampOver f then f\<lparr>current := RampTo f\<rparr>
      else (let progress = of_int elapsed / of_int (RampOver f) :: real
            in f\<lparr>current := wrap64 (BaseDelay f + trunc_real (progress * of_int (wrap64 (RampTo f - BaseDelay f))))\<rparr>))"

section \<open>Bandwidth\<close>

definition NewBandwidthThrottleFault :: "int \<Rightarrow> int \<Rightarrow> instant \<Rightarrow> BandwidthThrottleFault" where
  "NewBandwidthThrottleFault rate burst t =
     \<lparr>Rate = rate, Burst = burst, tokens = of_int burst, lastRefill = t\<rparr>"

definition take_tokens :: "BandwidthThrottleFault \<Rightarrow> nat \<Rightarrow> instant \<Rightarrow> duration \<times> BandwidthThrottleFault" where
  "take_tokens f n t =
     (let el = of_int (time_Sub t (lastRefill f)) / of_int Second :: real;
          filled = tokens f + el * of_int (Rate f);
          tk = (if filled > of_int (Burst f) then of_int (Burst f) else filled);
          f' = f\<lparr>lastRefill := t, tokens := tk\<rparr>
      in if tk \<ge> of_nat n then (0, f'\<lparr>tokens := tk - of_nat n\<rparr>)
         else (trunc_real ((of_nat n - tk) / of_int (Rate f) * of_int Second), f'\<lparr>tokens := 0\<rparr>))"

section \<open>Bursty loss\<close>

definition currentLossRate :: "BurstyLossFault \<Rightarrow> instant \<Rightarrow> real \<times> BurstyLossFault" where
  "currentLossRate f t =
     (let f1 = (if inBurst f \<and> t > burstEnds f then f\<lparr>inBurst := False\<rparr> else f);
          f2 = (if \<not> inBurst f1 \<and> time_Sub t (lastCheck f1) > BurstEvery f1
                then f1\<lparr>inBurst := True, burstEnds := t + BurstFor f1, lastCheck := t\<rparr> else f1)
      in (if inBurst f2 then BurstLoss f2 else BaselineLoss f2, f2))"

section \<open>DNS failure\<close>

definition Trigger :: "DNSFailureFault \<Rightarrow> duration \<Rightarrow> instant \<Rightarrow> DNSFailureFault" where
  "Trigger f d t = f\<lparr>dns_active := True, dns_until := t + d\<rparr>"

text \<open>\<open>ResolveOrFail\<close> and \<open>BeforeDial\<close> report whether the resolution fails.\<close>

definition ResolveOrFail :: "DNSFailureFault \<Rightarrow> string \<Rightarrow> instant \<Rightarrow> bool" where
  "ResolveOrFail f serviceName t \<longleftrightarrow> dns_active f \<and> serviceName = ServiceName f \<and> t < dns_until f"

definition BeforeDial :: "DNSFailureFault \<Rightarrow> string \<Rightarrow> instant \<Rightarrow> bool" where
  "BeforeDial f targetHost t = ResolveOrFail f targetHost t"

section \<open>Wrapping and writing\<close>

text \<open>\<open>&T{...}\<close>: a new object.\<close>

definition alloc :: "conn_obj \<Rightarrow> world \<Rightarrow> ptr \<times> world" where
  "alloc ob w = (next_ptr w, w\<lparr>heap := (heap w)(next_ptr w \<mapsto> ob), next_ptr := Suc (next_ptr w)\<rparr>)"

text \<open>
  \<open>Apply\<close>: wrap a connection with one fault, a definition per fault. \<^verbatim>\<open>SetLinger(0)\<close>
  works on a raw TCP connection only; \<open>None\<close> is the panic of \<^verbatim>\<open>make\<close> on a negative
  buffer size.
\<close>

definition Latency_Apply :: "ptr \<Rightarrow> conn \<Rightarrow> conn" where
  [simp]: "Latency_Apply a c = LatencyConn c a"

definition Throttle_Apply :: "ptr \<Rightarrow> conn \<Rightarrow> conn" where
  [simp]: "Throttle_Apply a c = ThrottleConn c a"

definition Reorder_Apply :: "ReorderFault \<Rightarrow> conn \<Rightarrow> world \<Rightarrow> (conn \<times> world) option" where
  [simp]: "Reorder_Apply r c w =
     (if BufferSize r < 0 then None
      else Some (ReorderConn c (next_buf w) (BufferSize r) (ro_Probability r),
                 w\<lparr>bufs := (bufs w)(next_buf w := []), next_buf := Suc (next_buf w)\<rparr>))"

definition Duplication_Apply :: "DuplicationFault \<Rightarrow> conn \<Rightarrow> conn" where
  [simp]: "Duplication_Apply d c = DupConn c (dup_Probability d) (MaxExtraCopies d)"

definition Asymmetric_Apply :: "AsymmetricPartitionFault \<Rightarrow> Direction \<Rightarrow> conn \<Rightarrow> conn" where
  [simp]: "Asymmetric_Apply f dir c = (if dir = BlockDirection f then BlackholeConn c else c)"

definition RST_Apply :: "conn \<Rightarrow> world \<Rightarrow> conn \<times> world" where
  [simp]: "RST_Apply c w = (c, case c of Raw i \<Rightarrow> w\<lparr>linger0 := insert i (linger0 w)\<rparr> | _ \<Rightarrow> w)"

definition DNS_Apply :: "conn \<Rightarrow> conn" where
  [simp]: "DNS_Apply c = c"

definition Bursty_Apply :: "ptr \<Rightarrow> conn \<Rightarrow> conn" where
  [simp]: "Bursty_Apply a c = BurstyLossConn c a"

text \<open>The method call on the interface value.\<close>

definition Apply :: "Fault \<Rightarrow> Direction \<Rightarrow> conn \<Rightarrow> world \<Rightarrow> (conn \<times> world) option" where
  "Apply f dir c w =
     (case f of
        LatencyF a \<Rightarrow> Some (Latency_Apply a c, w)
      | ThrottleF a \<Rightarrow> Some (Throttle_Apply a c, w)
      | ReorderF r \<Rightarrow> Reorder_Apply r c w
      | DuplicationF d \<Rightarrow> Some (Duplication_Apply d c, w)
      | AsymmetricF a \<Rightarrow> Some (Asymmetric_Apply a dir c, w)
      | RSTF \<Rightarrow> Some (RST_Apply c w)
      | DNSF d \<Rightarrow> Some (DNS_Apply c, w)
      | BurstyF a \<Rightarrow> Some (Bursty_Apply a c, w))"

datatype write_result = Written nat | WriteError | Panicked

fun write_seq :: "(chunk \<Rightarrow> world \<Rightarrow> write_result \<times> world) \<Rightarrow> chunk list \<Rightarrow> world \<Rightarrow> write_result \<times> world" where
  "write_seq wr [] w = (Written 0, w)"
| "write_seq wr (p # ps) w =
     (case wr p w of
        (Written _, w') \<Rightarrow> write_seq wr ps w'
      | bad \<Rightarrow> bad)"

text \<open>The extra copies of \<open>dupConn\<close>: errors are ignored, a panic is not.\<close>

fun write_copies :: "nat \<Rightarrow> (world \<Rightarrow> write_result \<times> world) \<Rightarrow> write_result \<Rightarrow> world \<Rightarrow> write_result \<times> world" where
  "write_copies 0 wr res w = (res, w)"
| "write_copies (Suc k) wr res w =
     (case wr w of
        (Panicked, w') \<Rightarrow> (Panicked, w')
      | (_, w') \<Rightarrow> write_copies k wr res w')"

definition raw_write :: "conn_id \<Rightarrow> chunk \<Rightarrow> world \<Rightarrow> write_result \<times> world" where
  "raw_write i p w =
     (let w' = w\<lparr>fails := (\<lambda>k. fails w (Suc k))\<rparr>
      in if fails w 0 then (WriteError, w')
         else (Written (length p), w'\<lparr>wire := (wire w)(i := wire w i @ [p])\<rparr>))"

definition latency_pre :: "ptr \<Rightarrow> world \<Rightarrow> world" where
  "latency_pre a w =
     (case heap w a of
        Some (OLatency f) \<Rightarrow> (let (d, w1) = CurrentDelay f w in Sleep d w1)
      | _ \<Rightarrow> w)"

definition throttle_pre :: "ptr \<Rightarrow> nat \<Rightarrow> world \<Rightarrow> world" where
  "throttle_pre a n w =
     (case heap w a of
        Some (OThrottle f) \<Rightarrow>
          (let (wait, f') = take_tokens f n (now w); w1 = w\<lparr>heap := (heap w)(a \<mapsto> OThrottle f')\<rparr>
           in if wait > 0 then Sleep wait w1 else w1)
      | _ \<Rightarrow> w)"

definition bursty_drop :: "ptr \<Rightarrow> world \<Rightarrow> bool \<times> world" where
  "bursty_drop a w =
     (let (x, w1) = Float64 w
      in case heap w1 a of
           Some (OBursty f) \<Rightarrow>
             (let (rate, f') = currentLossRate f (now w1)
              in (x < rate, w1\<lparr>heap := (heap w1)(a \<mapsto> OBursty f')\<rparr>))
         | _ \<Rightarrow> (False, w1))"

text \<open>
  \<open>reorderConn.Write\<close> up to the flush: either the chunk goes straight on (\<open>None\<close>), or
  it is held back and the list is what has to be flushed now (empty while the buffer fills).
\<close>

definition reorder_hold :: "nat \<Rightarrow> int \<Rightarrow> real \<Rightarrow> chunk \<Rightarrow> world \<Rightarrow> chunk list option \<times> world" where
  "reorder_hold b bsize prob p w =
     (let (x, w1) = Float64 w; buf = bufs w1 b
      in if x < prob \<and> int (length buf) < bsize
         then (let buf' = buf @ [p]
               in if int (length buf') < bsize then (Some [], w1\<lparr>bufs := (bufs w1)(b := buf')\<rparr>)
                  else (let (sh, r) = Shuffle buf' (ints w1)
                        in (Some sh, w1\<lparr>ints := r, bufs := (bufs w1)(b := sh)\<rparr>)))
         else (None, w1))"

text \<open>The \<open>Write\<close> of each wrapper, over the \<open>Write\<close> of the connection it wraps.\<close>

type_synonym writer = "chunk \<Rightarrow> world \<Rightarrow> write_result \<times> world"

definition latencyConn_Write :: "writer \<Rightarrow> ptr \<Rightarrow> writer" where
  [simp]: "latencyConn_Write wr a p w = wr p (latency_pre a w)"

definition throttleConn_Write :: "writer \<Rightarrow> ptr \<Rightarrow> writer" where
  [simp]: "throttleConn_Write wr a p w = wr p (throttle_pre a (length p) w)"

definition reorderConn_Write :: "writer \<Rightarrow> nat \<Rightarrow> int \<Rightarrow> real \<Rightarrow> writer" where
  [simp]: "reorderConn_Write wr b bsize prob p w =
     (case reorder_hold b bsize prob p w of
        (None, w1) \<Rightarrow> wr p w1
      | (Some [], w1) \<Rightarrow> (Written (length p), w1)
      | (Some flush, w1) \<Rightarrow>
          (case write_seq wr flush w1 of
             (Written _, w2) \<Rightarrow> (Written (length p), w2\<lparr>bufs := (bufs w2)(b := [])\<rparr>)
           | bad \<Rightarrow> bad))"

definition dupConn_Write :: "writer \<Rightarrow> real \<Rightarrow> int \<Rightarrow> writer" where
  [simp]: "dupConn_Write wr prob maxCopy p w =
     (case wr p w of
        (Written n, w1) \<Rightarrow>
          (let (x, w2) = Float64 w1
           in if x < prob
              then (if maxCopy \<le> 0 then (Panicked, w2)
                    else (let (k, w3) = draw_int maxCopy w2
                          in write_copies (nat (1 + k)) (wr p) (Written n) w3))
              else (Written n, w2))
      | bad \<Rightarrow> bad)"

definition blackholeConn_Write :: writer where
  [simp]: "blackholeConn_Write p w = (Written (length p), w)"

definition burstyLossConn_Write :: "writer \<Rightarrow> ptr \<Rightarrow> writer" where
  [simp]: "burstyLossConn_Write wr a p w =
     (let (dropped, w1) = bursty_drop a w
      in if dropped then (Written (length p), w1) else wr p w1)"

primrec Write :: "conn \<Rightarrow> writer" where
  "Write (Raw i) = raw_write i"
| "Write (LatencyConn c a) = latencyConn_Write (Write c) a"
| "Write (ThrottleConn c a) = throttleConn_Write (Write c) a"
| "Write (ReorderConn c b bsize prob) = reorderConn_Write (Write c) b bsize prob"
| "Write (DupConn c prob maxCopy) = dupConn_Write (Write c) prob maxCopy"
| "Write (BlackholeConn c) = blackholeConn_Write"
| "Write (BurstyLossConn c a) = burstyLossConn_Write (Write c) a"

section \<open>Shuffling\<close>

lemma mset_swap_at: "mset (swap xs i j) = mset xs"
  by (simp add: swap_def mset_swap)

lemma mset_shuffle_down: "shuffle_down i xs r = (ys, r') \<Longrightarrow> mset ys = mset xs"
proof (induction i xs r arbitrary: ys r' rule: shuffle_down.induct)
  case (2 i xs r)
  then show ?case by (auto simp: mset_swap_at split: prod.splits)
qed simp

lemma mset_Shuffle: "Shuffle xs r = (ys, r') \<Longrightarrow> mset ys = mset xs"
  by (auto simp: Shuffle_def dest: mset_shuffle_down)

lemma set_Shuffle: "Shuffle xs r = (ys, r') \<Longrightarrow> set ys = set xs"
  by (metis mset_Shuffle mset_eq_setD)

section \<open>What a write may put on the wire\<close>

primrec raw_of :: "conn \<Rightarrow> conn_id" where
  "raw_of (Raw i) = i"
| "raw_of (LatencyConn c a) = raw_of c"
| "raw_of (ThrottleConn c a) = raw_of c"
| "raw_of (ReorderConn c b s q) = raw_of c"
| "raw_of (DupConn c q m) = raw_of c"
| "raw_of (BlackholeConn c) = raw_of c"
| "raw_of (BurstyLossConn c a) = raw_of c"

primrec bufs_of :: "conn \<Rightarrow> nat set" where
  "bufs_of (Raw i) = {}"
| "bufs_of (LatencyConn c a) = bufs_of c"
| "bufs_of (ThrottleConn c a) = bufs_of c"
| "bufs_of (ReorderConn c b s q) = insert b (bufs_of c)"
| "bufs_of (DupConn c q m) = bufs_of c"
| "bufs_of (BlackholeConn c) = bufs_of c"
| "bufs_of (BurstyLossConn c a) = bufs_of c"

text \<open>
  \<open>grows P i B w w'\<close>: from \<open>w\<close> to \<open>w'\<close> the wire of connection \<open>i\<close> grew by chunks of
  \<open>P\<close>, no other wire changed, and the buffers in \<open>B\<close> still hold chunks of \<open>P\<close>.
\<close>

definition holds_only :: "chunk set \<Rightarrow> nat set \<Rightarrow> world \<Rightarrow> bool" where
  "holds_only P B w \<longleftrightarrow> (\<forall>b \<in> B. set (bufs w b) \<subseteq> P)"

definition grows :: "chunk set \<Rightarrow> conn_id \<Rightarrow> world \<Rightarrow> world \<Rightarrow> bool" where
  "grows P i w w' \<longleftrightarrow> (\<exists>ext. wire w' i = wire w i @ ext \<and> set ext \<subseteq> P) \<and> (\<forall>j. j \<noteq> i \<longrightarrow> wire w' j = wire w j)"

lemma grows_refl: "wire w' = wire w \<Longrightarrow> grows P i w w'"
  by (simp add: grows_def)

lemma grows_trans: "grows P i w w1 \<Longrightarrow> grows P i w1 w2 \<Longrightarrow> grows P i w w2"
  by (fastforce simp: grows_def)

lemma draws_frame [simp]:
  "wire (snd (Float64 w)) = wire w" "bufs (snd (Float64 w)) = bufs w"
  "wire (snd (draw_int n w)) = wire w" "bufs (snd (draw_int n w)) = bufs w"
  by (simp_all add: Float64_def draw_int_def split: prod.splits)

lemma pre_frame [simp]:
  "wire (latency_pre a w) = wire w" "bufs (latency_pre a w) = bufs w"
  "wire (throttle_pre a n w) = wire w" "bufs (throttle_pre a n w) = bufs w"
  "wire (snd (bursty_drop a w)) = wire w" "bufs (snd (bursty_drop a w)) = bufs w"
  by (auto simp: latency_pre_def throttle_pre_def bursty_drop_def CurrentDelay_def Sleep_def Float64_def
      draw_int_def Let_def split: option.splits conn_obj.splits prod.splits)

lemma reorder_hold_cases:
  assumes "reorder_hold b s q p w = (h, w')"
  shows "wire w' = wire w \<and> fails w' = fails w \<and>
    (h = None \<and> bufs w' = bufs w
     \<or> h = Some [] \<and> bufs w' = (bufs w)(b := bufs w b @ [p]) \<and> int (length (bufs w b)) + 1 < s
     \<or> (\<exists>fl. h = Some fl \<and> mset fl = add_mset p (mset (bufs w b)) \<and> bufs w' = (bufs w)(b := fl)
           \<and> int (length fl) = s))"
proof -
  obtain x w1 where x: "Float64 w = (x, w1)" by (cases "Float64 w")
  then have w1: "wire w1 = wire w" "bufs w1 = bufs w" "fails w1 = fails w" by (auto simp: Float64_def)
  obtain sh r where sh: "Shuffle (bufs w b @ [p]) (ints w1) = (sh, r)" by (cases "Shuffle (bufs w b @ [p]) (ints w1)")
  then have m: "mset sh = add_mset p (mset (bufs w b))" using mset_Shuffle [OF sh] by simp
  then have "length sh = length (bufs w b) + 1" by (metis size_add_mset size_mset Suc_eq_plus1)
  with assms x w1 sh m show ?thesis
    by (auto simp: reorder_hold_def Let_def split: if_splits)
qed

lemma reorder_hold_frame:
  assumes "reorder_hold b s q p w = (h, w')" "p \<in> P" "holds_only P B w" "b \<in> B"
  shows "wire w' = wire w" "holds_only P B w'" "h = Some fl \<Longrightarrow> set fl \<subseteq> P"
proof -
  have v: "set (bufs w b) \<subseteq> P" using assms(3,4) by (simp add: holds_only_def)
  have m: "mset fl = add_mset p (mset (bufs w b)) \<Longrightarrow> set fl \<subseteq> P" for fl
    using v assms(2) by (metis insert_subset set_mset_add_mset_insert set_mset_mset)
  note c = reorder_hold_cases [OF assms(1)]
  show "wire w' = wire w" using c by simp
  have "set (bufs w' b) \<subseteq> P" using c v assms(2) by (auto dest: m [THEN subsetD])
  moreover have "bufs w' a = bufs w a" if "a \<noteq> b" for a using c that by auto
  ultimately show "holds_only P B w'" using assms(3) unfolding holds_only_def by metis
  show "h = Some fl \<Longrightarrow> set fl \<subseteq> P" using c by (auto dest: m [THEN subsetD])
qed

text \<open>A writer that keeps to \<open>P\<close>; the loops built from it do so too.\<close>

definition safe_writer :: "chunk set \<Rightarrow> conn_id \<Rightarrow> nat set \<Rightarrow> (chunk \<Rightarrow> world \<Rightarrow> write_result \<times> world) \<Rightarrow> bool" where
  "safe_writer P i B wr \<longleftrightarrow>
     (\<forall>p w r w'. p \<in> P \<longrightarrow> holds_only P B w \<longrightarrow> wr p w = (r, w') \<longrightarrow> grows P i w w' \<and> holds_only P B w')"

lemma safe_writerD:
  "safe_writer P i B wr \<Longrightarrow> p \<in> P \<Longrightarrow> holds_only P B w \<Longrightarrow> wr p w = (r, w') \<Longrightarrow> grows P i w w' \<and> holds_only P B w'"
  by (simp add: safe_writer_def)

lemma write_seq_safe:
  "safe_writer P i B wr \<Longrightarrow> set ps \<subseteq> P \<Longrightarrow> holds_only P B w \<Longrightarrow> write_seq wr ps w = (r, w') \<Longrightarrow>
     grows P i w w' \<and> holds_only P B w'"
proof (induction ps arbitrary: w)
  case (Cons p ps)
  obtain r1 w1 where 1: "wr p w = (r1, w1)" by (cases "wr p w")
  have g: "grows P i w w1" "holds_only P B w1" using safe_writerD [OF Cons.prems(1) _ Cons.prems(3) 1] Cons.prems(2) by auto
  show ?case
    using Cons.IH [OF Cons.prems(1) _ g(2)] Cons.prems(2,4) 1 g
    by (cases r1) (auto intro: grows_trans)
qed (simp add: grows_refl)

lemma write_copies_safe:
  "safe_writer P i B wr \<Longrightarrow> p \<in> P \<Longrightarrow> holds_only P B w \<Longrightarrow> write_copies k (wr p) res w = (r, w') \<Longrightarrow>
     grows P i w w' \<and> holds_only P B w'"
proof (induction k arbitrary: w)
  case (Suc k)
  obtain r1 w1 where 1: "wr p w = (r1, w1)" by (cases "wr p w")
  have g: "grows P i w w1" "holds_only P B w1" using safe_writerD [OF Suc.prems(1-3) 1] by auto
  show ?case
    using Suc.IH [OF Suc.prems(1,2) g(2)] Suc.prems(4) 1 g
    by (cases r1) (auto intro: grows_trans)
qed (simp add: grows_refl)

lemma holds_only_bufs: "bufs w' = bufs w \<Longrightarrow> holds_only P B w' = holds_only P B w"
  by (simp add: holds_only_def)

lemma safe_writer_reorder:
  assumes "safe_writer P (raw_of c) B (Write c)" "b \<in> B"
  shows "safe_writer P (raw_of c) B (Write (ReorderConn c b s q))"
  unfolding safe_writer_def
proof (intro allI impI)
  fix p w r w'
  assume p: "p \<in> P" "holds_only P B w" and w: "Write (ReorderConn c b s q) p w = (r, w')"
  obtain h w1 where h: "reorder_hold b s q p w = (h, w1)" by (cases "reorder_hold b s q p w")
  note f = reorder_hold_frame [OF h p assms(2)]
  have g1: "grows P (raw_of c) w w1" by (rule grows_refl [OF f(1)])
  consider "h = None" | "h = Some []" | x fl where "h = Some (x # fl)" by (metis list.exhaust option.exhaust)
  then show "grows P (raw_of c) w w' \<and> holds_only P B w'"
  proof cases
    case 1
    then show ?thesis using w h safe_writerD [OF assms(1) p(1) f(2)] g1 by (auto intro: grows_trans)
  next
    case 2
    then show ?thesis using w h f(2) g1 by auto
  next
    case (3 x fl)
    obtain r2 w2 where s: "write_seq (Write c) (x # fl) w1 = (r2, w2)" by (cases "write_seq (Write c) (x # fl) w1")
    have g: "grows P (raw_of c) w1 w2" "holds_only P B w2"
      using write_seq_safe [OF assms(1) f(3) [OF 3] f(2) s] by auto
    moreover have "wire w' = wire w2" "\<And>c. c \<in> B \<Longrightarrow> set (bufs w' c) \<subseteq> set (bufs w2 c)"
      using w h 3 s by (auto simp del: write_seq.simps split: write_result.splits if_splits)
    moreover have "grows P (raw_of c) w2 w'" by (rule grows_refl) fact
    ultimately show ?thesis
      using grows_trans [OF grows_trans [OF g1 g(1)]] by (simp add: holds_only_def) blast
  qed
qed

lemma safe_writer_dup:
  assumes "safe_writer P (raw_of c) B (Write c)"
  shows "safe_writer P (raw_of c) B (Write (DupConn c q m))"
  unfolding safe_writer_def
proof (intro allI impI)
  fix p w r w'
  assume p: "p \<in> P" "holds_only P B w" and w: "Write (DupConn c q m) p w = (r, w')"
  obtain r1 w1 where 1: "Write c p w = (r1, w1)" by (cases "Write c p w")
  have g1: "grows P (raw_of c) w w1" "holds_only P B w1" using safe_writerD [OF assms p 1] by auto
  define w2 where "w2 = snd (Float64 w1)"
  define w3 where "w3 = snd (draw_int m w2)"
  have g: "grows P (raw_of c) w w2" "holds_only P B w2" "grows P (raw_of c) w w3" "holds_only P B w3"
    using g1 by (auto simp: w2_def w3_def grows_def holds_only_def)
  have "w' \<in> {w1, w2} \<or> (\<exists>k n. write_copies k (Write c p) (Written n) w3 = (r, w'))"
    using w 1 by (auto simp: w2_def w3_def Let_def split: write_result.splits prod.splits if_splits)
  then show "grows P (raw_of c) w w' \<and> holds_only P B w'"
    using g1 g write_copies_safe [OF assms p(1) g(4)] by (auto intro: grows_trans)
qed

lemma safe_writer_pre:
  assumes "safe_writer P i B wr" "\<And>p w. wire (f p w) = wire w" "\<And>p w. bufs (f p w) = bufs w"
  shows "safe_writer P i B (\<lambda>p w. wr p (f p w))"
  unfolding safe_writer_def
proof (intro allI impI)
  fix p w r w'
  assume p: "p \<in> P" "holds_only P B w" and w: "wr p (f p w) = (r, w')"
  then have "holds_only P B (f p w)" by (simp add: holds_only_def assms(3))
  from safe_writerD [OF assms(1) p(1) this w] show "grows P i w w' \<and> holds_only P B w'"
    by (simp add: grows_def assms(2))
qed

lemma Write_safe: "bufs_of c \<subseteq> B \<Longrightarrow> safe_writer P (raw_of c) B (Write c)"
proof (induction c)
  case (Raw i)
  then show ?case
    by (auto simp: safe_writer_def raw_write_def grows_def holds_only_def Let_def split: if_splits)
next
  case (LatencyConn c a)
  then show ?case using safe_writer_pre [of P "raw_of c" B "Write c" "\<lambda>p. latency_pre a"] by simp
next
  case (ThrottleConn c a)
  then show ?case
    using safe_writer_pre [of P "raw_of c" B "Write c" "\<lambda>p. throttle_pre a (length p)"] by simp
next
  case (ReorderConn c b s q)
  then show ?case using safe_writer_reorder [of P c B b s q] by (simp del: reorderConn_Write_def)
next
  case (DupConn c q m)
  then show ?case using safe_writer_dup [of P c B q m] by (simp del: dupConn_Write_def)
next
  case (BlackholeConn c)
  then show ?case by (auto simp: safe_writer_def grows_refl)
next
  case (BurstyLossConn c a)
  then have "safe_writer P (raw_of c) B (\<lambda>p w. Write c p (snd (bursty_drop a w)))"
    using safe_writer_pre [of P "raw_of c" B "Write c" "\<lambda>p w. snd (bursty_drop a w)"] by simp
  note safe = safe_writerD [OF this]
  show ?case
    unfolding safe_writer_def
  proof (intro allI impI)
    fix p w r w'
    assume p: "p \<in> P" "holds_only P B w" and w: "Write (BurstyLossConn c a) p w = (r, w')"
    show "grows P (raw_of (BurstyLossConn c a)) w w' \<and> holds_only P B w'"
    proof (cases "fst (bursty_drop a w)")
      case True
      with w have "w' = snd (bursty_drop a w)" by (simp add: Let_def split: prod.splits)
      with p show ?thesis by (simp add: grows_refl holds_only_def)
    next
      case False
      with w have "Write c p (snd (bursty_drop a w)) = (r, w')" by (simp add: Let_def split: prod.splits)
      from safe [OF p this] show ?thesis by simp
    qed
  qed
qed

section \<open>Properties\<close>

definition ex_world :: "(ptr \<Rightarrow> conn_obj option) \<Rightarrow> world" where
  "ex_world h = \<lparr>now = 0, floats = (\<lambda>_. 0), ints = (\<lambda>_. 0), heap = h, next_ptr = 0, bufs = (\<lambda>_. []), next_buf = 0,
     linger0 = {}, fails = (\<lambda>_. False), wire = (\<lambda>_. [])\<rparr>"

text \<open>
  C14: connection faults delay, drop, hold back or repeat chunks but never change bytes.
  Whatever the wrapper chain, a write extends the wire of its own raw connection only, and
  only by the chunk written or by chunks that a reorder buffer of the chain was holding.
\<close>

theorem write_never_alters:
  assumes "Write c p w = (res, w')"
  shows "(\<exists>ext. wire w' (raw_of c) = wire w (raw_of c) @ ext
            \<and> set ext \<subseteq> insert p (\<Union>b \<in> bufs_of c. set (bufs w b)))
         \<and> (\<forall>j. j \<noteq> raw_of c \<longrightarrow> wire w' j = wire w j)"
proof -
  let ?P = "insert p (\<Union>b \<in> bufs_of c. set (bufs w b))"
  have "holds_only ?P (bufs_of c) w" by (auto simp: holds_only_def)
  from safe_writerD [OF Write_safe [OF order.refl] _ this assms] show ?thesis by (simp add: grows_def)
qed

theorem write_never_alters_witness:
  "\<exists>res w'. Write (DupConn (Raw 7) 1 1) [1, 2] (ex_world Map.empty) = (res, w') \<and> set (wire w' 7) \<subseteq> {[1, 2]}"
proof -
  obtain res w' where w: "Write (DupConn (Raw 7) 1 1) [1, 2] (ex_world Map.empty) = (res, w')"
    by (cases "Write (DupConn (Raw 7) 1 1) [1, 2] (ex_world Map.empty)")
  from write_never_alters [OF w] w show ?thesis by (auto simp: ex_world_def)
qed

text \<open>
  One write through a reorder wrapper, if no raw write fails: the chunks on the wire together
  with the chunks still held grow by exactly the chunk written, as multisets.
\<close>

lemma write_seq_raw:
  "write_seq (raw_write i) ps w = (Written k, w') \<Longrightarrow> wire w' i = wire w i @ ps \<and> bufs w' = bufs w"
  by (induction ps arbitrary: w) (auto simp: raw_write_def Let_def split: if_splits)

lemma reorder_write_mset:
  assumes "Write (ReorderConn (Raw i) b s q) p w = (Written k, w')"
  shows "mset (wire w' i) + mset (bufs w' b) = add_mset p (mset (wire w i) + mset (bufs w b))"
proof -
  obtain h w1 where h: "reorder_hold b s q p w = (h, w1)" by (cases "reorder_hold b s q p w")
  note c = reorder_hold_cases [OF h]
  consider "h = None" | "h = Some []" | x fl where "h = Some (x # fl)" by (metis list.exhaust option.exhaust)
  then show ?thesis
  proof cases
    case 1
    then show ?thesis using assms h c by (auto simp: raw_write_def Let_def split: if_splits)
  next
    case 2
    then show ?thesis using assms h c by auto
  next
    case (3 x fl)
    from assms h 3 obtain k2 w2 where s: "write_seq (raw_write i) (x # fl) w1 = (Written k2, w2)"
      and w': "w' = w2\<lparr>bufs := (bufs w2)(b := [])\<rparr>"
      by (auto simp del: write_seq.simps split: prod.splits write_result.splits)
    from write_seq_raw [OF s] c 3 w' show ?thesis by auto
  qed
qed

text \<open>The wrapper never holds a full buffer between two writes.\<close>

lemma reorder_write_bound:
  assumes "Write (ReorderConn (Raw i) b s q) p w = (Written k, w')" "int (length (bufs w b)) < max 1 s"
  shows "int (length (bufs w' b)) < max 1 s"
proof -
  obtain h w1 where h: "reorder_hold b s q p w = (h, w1)" by (cases "reorder_hold b s q p w")
  note c = reorder_hold_cases [OF h]
  consider "h = None" | "h = Some []" | x fl where "h = Some (x # fl)" by (metis list.exhaust option.exhaust)
  then show ?thesis
  proof cases
    case 1
    then show ?thesis using assms h c by (auto simp: raw_write_def Let_def split: if_splits)
  next
    case 2
    then show ?thesis using assms h c by auto
  next
    case (3 x fl)
    from assms h 3 obtain w2 where "w' = w2\<lparr>bufs := (bufs w2)(b := [])\<rparr>"
      by (auto simp del: write_seq.simps split: prod.splits write_result.splits)
    then show ?thesis by simp
  qed
qed

lemma raw_next_buf: "raw_write i p w = (res, w') \<Longrightarrow> next_buf w' = next_buf w"
  by (auto simp: raw_write_def Let_def split: if_splits)

lemma write_seq_next_buf: "write_seq (raw_write i) ps w = (res, w') \<Longrightarrow> next_buf w' = next_buf w"
  by (induction ps arbitrary: w) (auto split: prod.splits write_result.splits dest: raw_next_buf)

lemma reorder_write_next_buf:
  assumes "Write (ReorderConn (Raw i) b s q) p w = (res, w')"
  shows "next_buf w' = next_buf w"
proof -
  obtain h w1 where h: "reorder_hold b s q p w = (h, w1)" by (cases "reorder_hold b s q p w")
  have "next_buf w1 = next_buf w"
    using h by (auto simp: reorder_hold_def Float64_def Let_def split: prod.splits if_splits)
  with assms h show ?thesis
    by (auto simp del: write_seq.simps split: prod.splits write_result.splits option.splits list.splits
        dest: raw_next_buf write_seq_next_buf)
qed

text \<open>
  The latency ramp. For a fault built with delay \<open>base\<close> and a ramp to a larger value,
  a tick at \<open>elapsed\<close> sets a delay between the two, which is \<open>RampTo\<close> from
  \<open>RampOver\<close> on; without a ramp a tick changes nothing.
\<close>

theorem latency_ramp_bounds:
  assumes "0 \<le> BaseDelay f" "BaseDelay f \<le> RampTo f" "0 < RampTo f" "RampTo f < 2 ^ 63" "0 < RampOver f" "0 \<le> elapsed"
  shows "BaseDelay f \<le> current (Latency_Tick f elapsed) \<and> current (Latency_Tick f elapsed) \<le> RampTo f
     \<and> (RampOver f \<le> elapsed \<longrightarrow> current (Latency_Tick f elapsed) = RampTo f)"
proof (cases "RampOver f \<le> elapsed")
  case True
  with assms show ?thesis by (simp add: Latency_Tick_def)
next
  case False
  let ?d = "of_int (RampTo f - BaseDelay f) :: real"
  let ?p = "of_int elapsed / of_int (RampOver f) :: real"
  have p: "0 \<le> ?p" "?p \<le> 1" using assms False by simp_all
  have d: "0 \<le> ?d" using assms by simp
  have pd: "0 \<le> ?p * ?d" using p(1) d by (rule mult_nonneg_nonneg)
  have "?p * ?d \<le> ?d" using d p by (rule mult_left_le_one_le)
  then have "\<lfloor>?p * ?d\<rfloor> \<le> RampTo f - BaseDelay f" by (metis floor_mono floor_of_int)
  moreover have "0 \<le> \<lfloor>?p * ?d\<rfloor>" using pd by simp
  ultimately have "wrap64 (BaseDelay f + \<lfloor>?p * ?d\<rfloor>) = BaseDelay f + \<lfloor>?p * ?d\<rfloor>"
    and bounds: "BaseDelay f \<le> BaseDelay f + \<lfloor>?p * ?d\<rfloor>" "BaseDelay f + \<lfloor>?p * ?d\<rfloor> \<le> RampTo f"
    using assms(1,4) by (linarith | intro wrap64_id)+
  moreover have "trunc_real (?p * ?d) = \<lfloor>?p * ?d\<rfloor>"
    using pd by (simp only: trunc_real_def not_less [symmetric] if_False if_True simp_thms)
  ultimately have "current (Latency_Tick f elapsed) = BaseDelay f + \<lfloor>?p * ?d\<rfloor>"
    using assms False by (simp add: Latency_Tick_def Let_def wrap64_id [of "RampTo f - BaseDelay f"])
  with bounds False show ?thesis by simp
qed

theorem latency_ramp_bounds_witness:
  "current (Latency_Tick \<lparr>BaseDelay = 100, Jitter = 0, RampTo = 500, RampOver = 1000, current = 100\<rparr> 250) \<le> 500"
  using latency_ramp_bounds [of "\<lparr>BaseDelay = 100, Jitter = 0, RampTo = 500, RampOver = 1000, current = 100\<rparr>" 250]
  by simp

text \<open>
  The token bucket never overfills or overdraws: with a non-negative rate and a clock
  that does not run backwards, a request leaves between zero and \<open>Burst\<close> tokens and never
  asks for a negative wait.
\<close>

theorem throttle_bucket_bounds:
  assumes "0 < Rate f" "0 \<le> tokens f" "tokens f \<le> of_int (Burst f)" "lastRefill f \<le> t"
    and "take_tokens f n t = (wait, f')"
  shows "0 \<le> tokens f' \<and> tokens f' \<le> of_int (Burst f') \<and> 0 \<le> wait \<and> lastRefill f' = t"
proof -
  let ?el = "of_int (time_Sub t (lastRefill f)) / of_int Second :: real"
  have el: "0 \<le> ?el * of_int (Rate f)"
    using assms(1,4) by (simp add: time_Sub_def Second_def)
  have B: "0 \<le> (of_int (Burst f) :: real)" using assms(2,3) by linarith
  have t: "0 \<le> x \<Longrightarrow> 0 \<le> trunc_real x" for x by (simp add: trunc_real_def)
  from assms(5) el assms(1-3) B show ?thesis
    by (auto simp: take_tokens_def Let_def Second_def intro!: t split: if_splits)
qed

theorem throttle_bucket_bounds_witness:
  "0 \<le> fst (take_tokens (NewBandwidthThrottleFault 1000 500 0) 800 Second)"
  using throttle_bucket_bounds [of "NewBandwidthThrottleFault 1000 500 0" Second 800
      "fst (take_tokens (NewBandwidthThrottleFault 1000 500 0) 800 Second)"
      "snd (take_tokens (NewBandwidthThrottleFault 1000 500 0) 800 Second)"]
  by (simp add: NewBandwidthThrottleFault_def Second_def)

text \<open>
  The throttle lets through twice its rate. A writer that finds the bucket empty waits
  for its \<open>n\<close> bytes; the time of that wait is credited to the bucket again, so the next
  \<open>n\<close> bytes pass with no wait at all: \<open>2 n\<close> bytes in the time \<open>n / Rate\<close>.
\<close>

theorem throttle_passes_double_rate:
  assumes "0 < Rate f" "tokens f = 0" "lastRefill f = t" "int n \<le> Burst f"
    and "int n * Second = d * Rate f" "d < 2 ^ 63"
  shows "\<exists>f1 f2. take_tokens f n t = (d, f1) \<and> take_tokens f1 n (t + d) = (0, f2)"
proof (cases "n = 0")
  case True
  with assms have "d = 0" by (simp add: Second_def)
  with True assms show ?thesis by (auto simp: take_tokens_def Let_def time_Sub_def)
next
  case False
  have R: "(of_int (Rate f) :: real) \<noteq> 0" using assms(1) by simp
  have "real n * 1000000000 = of_int d * of_int (Rate f)"
    using arg_cong [OF assms(5), of "of_int :: int \<Rightarrow> real"] by (simp add: Second_def)
  then have dn: "real n / of_int (Rate f) * 1000000000 = of_int d" "of_int d * of_int (Rate f) / 1000000000 = real n"
    using R by (simp_all add: field_simps)
  have "0 < int n * Second" using False by (simp add: Second_def)
  with assms(1,5) have d0: "0 < d" by (simp add: zero_less_mult_iff)
  have "take_tokens f n t = (d, f\<lparr>lastRefill := t, tokens := 0\<rparr>)"
    using assms(2-4) False dn(1) d0 by (simp add: take_tokens_def Let_def time_Sub_def trunc_real_def Second_def)
  moreover have "take_tokens (f\<lparr>lastRefill := t, tokens := 0\<rparr>) n (t + d) = (0, f\<lparr>lastRefill := t + d, tokens := 0\<rparr>)"
    using assms(4,6) d0 dn(2) by (simp add: take_tokens_def Let_def time_Sub_def Second_def)
  ultimately show ?thesis by blast
qed

theorem throttle_passes_double_rate_witness:
  "\<exists>f1 f2. take_tokens \<lparr>Rate = 65536, Burst = 65536, tokens = 0, lastRefill = 0\<rparr> 32768 0 = (500000000, f1)
     \<and> take_tokens f1 32768 (0 + 500000000) = (0, f2)"
  by (rule throttle_passes_double_rate) (simp_all add: Second_def)

text \<open>
  The burst schedule. After a burst began at \<open>t0\<close>, the loss rate is the burst rate for
  \<open>BurstFor\<close>, the baseline rate until \<open>BurstEvery\<close> has passed, and then a new burst begins.
\<close>

theorem bursty_schedule:
  assumes "inBurst f" "lastCheck f = t0" "burstEnds f = t0 + BurstFor f"
    and "0 \<le> BurstFor f" "BurstFor f \<le> BurstEvery f" "t0 \<le> t" "t - t0 < 2 ^ 63"
  shows "fst (currentLossRate f t) =
    (if t \<le> t0 + BurstFor f then BurstLoss f else if t \<le> t0 + BurstEvery f then BaselineLoss f else BurstLoss f)"
  using assms by (auto simp: currentLossRate_def Let_def time_Sub_def)

theorem bursty_schedule_witness:
  "fst (currentLossRate \<lparr>BaselineLoss = 1/100, BurstLoss = 4/10, BurstEvery = 30 * Second, BurstFor = 5 * Second,
      inBurst = True, burstEnds = 5 * Second, lastCheck = 0\<rparr> (10 * Second)) = 1/100"
  using bursty_schedule [of "\<lparr>BaselineLoss = 1/100, BurstLoss = 4/10, BurstEvery = 30 * Second, BurstFor = 5 * Second,
      inBurst = True, burstEnds = 5 * Second, lastCheck = 0\<rparr>" 0 "10 * Second"]
  by (simp add: Second_def)

end
