(* ===== verification/Sha256.thy ===== *)
theory Sha256
  imports Prelude
begin

text \<open>
  SHA-256 (\<^verbatim>\<open>crypto/sha256\<close>) and hexadecimal encoding, which
  \<^verbatim>\<open>internal/faults/db.go\<close> uses to name a cached query.
\<close>

unbundle bit_operations_syntax

type_synonym u32 = "32 word"

text \<open>
  The constants are the first 32 fractional bits of the cube roots of the first 64 primes,
  and of the square roots of the first 8.
\<close>

fun root_bits :: "nat \<Rightarrow> nat \<Rightarrow> nat \<Rightarrow> nat \<Rightarrow> nat" where
  "root_bits k n 0 acc = acc"
| "root_bits k n (Suc b) acc = (let c = acc + 2 ^ b in root_bits k n b (if c ^ k \<le> n then c else acc))"

definition root_fraction :: "nat \<Rightarrow> nat \<Rightarrow> u32" where
  "root_fraction k p = word_of_nat (root_bits k (p * 2 ^ (32 * k)) 40 0)"

definition small_primes :: "nat list" where
  "small_primes = filter (\<lambda>n. list_all (\<lambda>d. n mod d \<noteq> 0) [2..<n]) [2..<312]"

definition K256 :: "u32 list" where
  "K256 = map (root_fraction 3) small_primes"

definition H256 :: "u32 list" where
  "H256 = map (root_fraction 2) (take 8 small_primes)"

definition big_endian :: "nat \<Rightarrow> nat \<Rightarrow> byte list" where
  "big_endian k n = map (\<lambda>i. word_of_nat (n div 256 ^ (k - 1 - i))) [0..<k]"

definition sha_pad :: "byte list \<Rightarrow> byte list" where
  "sha_pad m =
     m @ [0x80] @ replicate ((119 - length m mod 64) mod 64) 0 @ big_endian 8 (8 * length m)"

definition word_at :: "byte list \<Rightarrow> u32" where
  "word_at b = word_of_nat (foldl (\<lambda>n x. 256 * n + unat x) 0 b)"

fun groups :: "nat \<Rightarrow> 'a list \<Rightarrow> 'a list list" where
  "groups k [] = []"
| "groups k (x # xs) = (if k = 0 then [x # xs] else take k (x # xs) # groups k (drop (k - 1) xs))"

definition rotr :: "nat \<Rightarrow> u32 \<Rightarrow> u32" where
  "rotr n x = (drop_bit n x) OR (push_bit (32 - n) x)"

text \<open>The message schedule, newest word first.\<close>

fun schedule :: "nat \<Rightarrow> u32 list \<Rightarrow> u32 list" where
  "schedule 0 w = w"
| "schedule (Suc n) w =
     (let a = w ! 1; b = w ! 14;
          s1 = rotr 17 a XOR rotr 19 a XOR drop_bit 10 a;
          s0 = rotr 7 b XOR rotr 18 b XOR drop_bit 3 b
      in schedule n ((s1 + w ! 6 + s0 + w ! 15) # w))"

fun sha_round :: "u32 list \<Rightarrow> u32 \<times> u32 \<Rightarrow> u32 list" where
  "sha_round [a, b, c, d, e, f, g, h] (k, w) =
     (let t1 = h + (rotr 6 e XOR rotr 11 e XOR rotr 25 e) + ((e AND f) XOR (NOT e AND g)) + k + w;
          t2 = (rotr 2 a XOR rotr 13 a XOR rotr 22 a) + ((a AND b) XOR (a AND c) XOR (b AND c))
      in [t1 + t2, a, b, c, d + t1, e, f, g])"
| "sha_round s kw = s"

definition sha_block :: "u32 list \<Rightarrow> byte list \<Rightarrow> u32 list" where
  "sha_block h blk =
     (let ws = rev (schedule 48 (rev (map word_at (groups 4 blk))))
      in map2 (+) h (foldl sha_round h (zip K256 ws)))"

definition Sum256 :: "byte list \<Rightarrow> byte list" where
  "Sum256 m = concat (map (\<lambda>x. big_endian 4 (unat x)) (foldl sha_block H256 (groups 64 (sha_pad m))))"

definition hex_digit :: "nat \<Rightarrow> char" where
  "hex_digit n = ''0123456789abcdef'' ! n"

definition EncodeToString :: "byte list \<Rightarrow> string" where
  "EncodeToString bs = concat (map (\<lambda>b. [hex_digit (unat b div 16), hex_digit (unat b mod 16)]) bs)"

lemma sha_pad_length: "length (sha_pad m) mod 64 = 0"
proof -
  define k where "k = length m mod 64"
  have k: "k < 64" "length m = 64 * (length m div 64) + k" by (simp_all add: k_def)
  have "length (sha_pad m) = length m + 9 + (119 - k) mod 64" by (simp add: sha_pad_def big_endian_def k_def)
  also have "\<dots> = 64 * (length m div 64) + (k + 9 + (119 - k) mod 64)" using k(2) by linarith
  finally have "length (sha_pad m) mod 64 = (k + 9 + (119 - k) mod 64) mod 64" by simp
  also have "\<dots> = 0"
  proof (cases "k \<le> 55")
    case True
    then have "(119 - k) mod 64 = 55 - k" by (simp add: mod_if)
    with True show ?thesis by simp
  next
    case False
    with k(1) have "(119 - k) mod 64 = 119 - k" by simp
    with k(1) False show ?thesis by simp
  qed
  finally show ?thesis .
qed

end
