(* ===== verification/Db_Faults.thy ===== *)
theory Db_Faults
  imports Net_Faults Sha256
begin

text \<open>
  The packet-level faults and the stale-read hook (\<^verbatim>\<open>internal/faults/db.go\<close>). A
  context is the instant at which it is cancelled, if any; \<open>None\<close> as a result is a panic.
\<close>

section \<open>Sleeping under a context\<close>

definition sleep_ctx :: "duration \<Rightarrow> instant option \<Rightarrow> world \<Rightarrow> world" where
  "sleep_ctx d ctx w =
     (let wake = now w + max 0 d
      in w\<lparr>now := (case ctx of None \<Rightarrow> wake | Some t \<Rightarrow> min wake (max (now w) t))\<rparr>)"

definition ctx_done :: "instant option \<Rightarrow> world \<Rightarrow> bool" where
  "ctx_done ctx w \<longleftrightarrow> (case ctx of None \<Rightarrow> False | Some t \<Rightarrow> t \<le> now w)"

section \<open>Packet faults\<close>

record ReplicaLagFault =
  rl_Delay :: duration
  rl_Jitter :: duration

record WALDelayFault =
  FlushDelay :: duration

record WALCorruptionFault =
  wc_Probability :: real
  wc_BytesToFlip :: int

record QueryCorruptionFault =
  qc_Probability :: real
  qc_BytesToFlip :: int

definition ReplicaLag_Apply ::
  "ReplicaLagFault \<Rightarrow> instant option \<Rightarrow> chunk \<Rightarrow> StreamType \<Rightarrow> world \<Rightarrow> (chunk \<times> world) option" where
  "ReplicaLag_Apply f ctx pkt stream w =
     (if stream \<noteq> ReplicationStream then Some (pkt, w)
      else (let (j, w1) = (if rl_Jitter f > 0 then draw_int (rl_Jitter f) w else (0, w))
            in Some (pkt, sleep_ctx (if rl_Jitter f > 0 then wrap64 (rl_Delay f + j) else rl_Delay f) ctx w1)))"

definition WALDelay_Apply ::
  "WALDelayFault \<Rightarrow> instant option \<Rightarrow> chunk \<Rightarrow> StreamType \<Rightarrow> world \<Rightarrow> (chunk \<times> world) option" where
  "WALDelay_Apply f ctx pkt stream w =
     (if stream = ReplicationStream then Some (pkt, sleep_ctx (FlushDelay f) ctx w) else Some (pkt, w))"

text \<open>\<open>flipBytes\<close> draws an index per byte; on an empty packet \<^verbatim>\<open>rand.Intn(0)\<close> panics.\<close>

fun flip_loop :: "nat \<Rightarrow> chunk \<Rightarrow> world \<Rightarrow> (chunk \<times> world) option" where
  "flip_loop 0 pkt w = Some (pkt, w)"
| "flip_loop (Suc k) pkt w =
     (if pkt = [] then None
      else (let (idx, w1) = draw_int (int (length pkt)) w
            in flip_loop k (pkt[nat idx := (pkt ! nat idx) XOR 0xFF]) w1))"

definition flipBytes :: "chunk \<Rightarrow> int \<Rightarrow> world \<Rightarrow> (chunk \<times> world) option" where
  "flipBytes pkt n w = flip_loop (nat n) pkt w"

definition corrupt_some :: "real \<Rightarrow> int \<Rightarrow> chunk \<Rightarrow> world \<Rightarrow> (chunk \<times> world) option" where
  "corrupt_some probability n pkt w =
     (let (x, w1) = Float64 w
      in if x \<ge> probability \<or> length pkt = 0 then Some (pkt, w1) else flipBytes pkt n w1)"

definition WALCorruption_Apply ::
  "WALCorruptionFault \<Rightarrow> instant option \<Rightarrow> chunk \<Rightarrow> StreamType \<Rightarrow> world \<Rightarrow> (chunk \<times> world) option" where
  "WALCorruption_Apply f ctx pkt stream w =
     (if stream \<noteq> ReplicationStream then Some (pkt, w)
      else corrupt_some (wc_Probability f) (wc_BytesToFlip f) pkt w)"

definition QueryCorruption_Apply ::
  "QueryCorruptionFault \<Rightarrow> instant option \<Rightarrow> chunk \<Rightarrow> StreamType \<Rightarrow> world \<Rightarrow> (chunk \<times> world) option" where
  "QueryCorruption_Apply f ctx pkt stream w =
     (if stream \<noteq> ClientQueryStream then Some (pkt, w)
      else corrupt_some (qc_Probability f) (qc_BytesToFlip f) pkt w)"

datatype PacketFault =
    ReplicaLagP ReplicaLagFault
  | WALDelayP WALDelayFault
  | WALCorruptionP WALCorruptionFault
  | QueryCorruptionP QueryCorruptionFault

primrec Packet_Name :: "PacketFault \<Rightarrow> string" where
  "Packet_Name (ReplicaLagP f) = ''replica_lag''"
| "Packet_Name (WALDelayP f) = ''wal_delay''"
| "Packet_Name (WALCorruptionP f) = ''wal_corruption''"
| "Packet_Name (QueryCorruptionP f) = ''query_corruption''"

primrec Packet_Apply ::
  "PacketFault \<Rightarrow> instant option \<Rightarrow> chunk \<Rightarrow> StreamType \<Rightarrow> world \<Rightarrow> (chunk \<times> world) option" where
  "Packet_Apply (ReplicaLagP f) = ReplicaLag_Apply f"
| "Packet_Apply (WALDelayP f) = WALDelay_Apply f"
| "Packet_Apply (WALCorruptionP f) = WALCorruption_Apply f"
| "Packet_Apply (QueryCorruptionP f) = QueryCorruption_Apply f"

lemmas packet_defs = ReplicaLag_Apply_def WALDelay_Apply_def WALCorruption_Apply_def QueryCorruption_Apply_def

section \<open>Stale reads\<close>

record cachedResult =
  cr_data :: chunk
  cachedAt :: instant

record StaleReadFault =
  sr_Probability :: real
  MaxAge :: duration
  cache :: "string \<Rightarrow> cachedResult option"

definition NewStaleReadFault :: "real \<Rightarrow> duration \<Rightarrow> StaleReadFault" where
  "NewStaleReadFault probability maxAge = \<lparr>sr_Probability = probability, MaxAge = maxAge, cache = Map.empty\<rparr>"

definition queryHash :: "byte list \<Rightarrow> string" where
  "queryHash query = EncodeToString (take 8 (Sum256 query))"

text \<open>The random draw happens only when a fresh enough copy is cached.\<close>

definition MaybeServeStale :: "StaleReadFault \<Rightarrow> chunk \<Rightarrow> chunk \<Rightarrow> world \<Rightarrow> chunk \<times> StaleReadFault \<times> world" where
  "MaybeServeStale f query live w =
     (let key = queryHash query;
          f' = f\<lparr>cache := (cache f)(key \<mapsto> \<lparr>cr_data = live, cachedAt = now w\<rparr>)\<rparr>
      in case cache f key of
           None \<Rightarrow> (live, f', w)
         | Some cached \<Rightarrow>
             if time_Sub (now w) (cachedAt cached) < MaxAge f
             then (let (x, w1) = Float64 w
                   in (if x < sr_Probability f then cr_data cached else live, f', w1))
             else (live, f', w))"

section \<open>What a packet fault may do\<close>

definition target_stream :: "PacketFault \<Rightarrow> StreamType" where
  "target_stream f = (case f of QueryCorruptionP _ \<Rightarrow> ClientQueryStream | _ \<Rightarrow> ReplicationStream)"

definition flipped_from :: "chunk \<Rightarrow> chunk \<Rightarrow> bool" where
  "flipped_from p q \<longleftrightarrow> list_all2 (\<lambda>a b. b = a \<or> b = NOT a) p q"

lemma xor_FF: "(x :: byte) XOR 0xFF = NOT x"
proof -
  have "(0xFF :: byte) = - 1" by simp
  then show ?thesis by (simp only: bit.xor_one_right)
qed

lemma flipped_refl [simp]: "flipped_from p p"
  by (simp add: flipped_from_def list.rel_refl)

lemma flipped_length: "flipped_from p q \<Longrightarrow> length q = length p"
  by (simp add: flipped_from_def list_all2_lengthD)

lemma flipped_update:
  assumes "flipped_from p q"
  shows "flipped_from p (q[k := NOT (q ! k)])"
proof (cases "k < length q")
  case True
  have e: "i < length p \<Longrightarrow> q ! i = p ! i \<or> q ! i = NOT (p ! i)" for i
    using assms by (simp add: flipped_from_def list_all2_conv_all_nth)
  have "q[k := NOT (q ! k)] ! i = p ! i \<or> q[k := NOT (q ! k)] ! i = NOT (p ! i)" if "i < length p" for i
    using e [OF that] True by (cases "i = k") auto
  with flipped_length [OF assms] show ?thesis by (simp add: flipped_from_def list_all2_conv_all_nth)
qed (simp add: assms list_update_beyond)

lemma flip_loop_total:
  assumes "pkt \<noteq> []"
  shows "\<exists>q w'. flip_loop k pkt w = Some (q, w') \<and> (\<forall>p. flipped_from p pkt \<longrightarrow> flipped_from p q)
           \<and> now w' = now w \<and> wire w' = wire w"
  using assms
proof (induction k arbitrary: pkt w)
  case (Suc k)
  obtain idx w1 where d: "draw_int (int (length pkt)) w = (idx, w1)" by (cases "draw_int (int (length pkt)) w")
  let ?p = "pkt[nat idx := (pkt ! nat idx) XOR 0xFF]"
  have w1: "now w1 = now w" "wire w1 = wire w" using d by (auto simp: draw_int_def split: prod.splits)
  have step: "flipped_from p ?p" if "flipped_from p pkt" for p
    using flipped_update [OF that] by (simp add: xor_FF)
  have "?p \<noteq> []" using Suc.prems by simp
  from Suc.IH [OF this, of w1] show ?case using Suc.prems d w1 step by auto
qed simp

lemma corrupt_some_total:
  "\<exists>q w'. corrupt_some pr n pkt w = Some (q, w') \<and> flipped_from pkt q \<and> now w' = now w \<and> wire w' = wire w"
proof -
  obtain x w1 where f: "Float64 w = (x, w1)" by (cases "Float64 w")
  then have w1: "now w1 = now w" "wire w1 = wire w" by (auto simp: Float64_def)
  show ?thesis
    using f w1 flip_loop_total [of pkt "nat n" w1] by (cases "pkt = []") (auto simp: corrupt_some_def flipBytes_def)
qed

lemma packet_apply_total:
  "\<exists>q w'. Packet_Apply f ctx pkt stream w = Some (q, w') \<and> flipped_from pkt q \<and> wire w' = wire w"
  using corrupt_some_total
  by (cases f) (fastforce simp: packet_defs sleep_ctx_def Let_def draw_int_def split: prod.splits)+

section \<open>Properties\<close>

text \<open>
  C16: packet faults. Applying one never panics; it keeps the packet's length, each byte
  stays or is complemented; on the other stream it changes nothing and takes no time, and
  the two delay faults never change a packet.
\<close>

theorem packet_fault_sound:
  "\<exists>q w'. Packet_Apply f ctx pkt stream w = Some (q, w')
     \<and> list_all2 (\<lambda>a b. b = a \<or> b = NOT a) pkt q
     \<and> (stream \<noteq> target_stream f \<longrightarrow> q = pkt \<and> w' = w)
     \<and> ((\<exists>g. f = ReplicaLagP g) \<or> (\<exists>g. f = WALDelayP g) \<longrightarrow> q = pkt)"
proof -
  obtain q w' where q: "Packet_Apply f ctx pkt stream w = Some (q, w')" "flipped_from pkt q"
    using packet_apply_total by blast
  moreover have "q = pkt \<and> w' = w" if "stream \<noteq> target_stream f"
    using q that by (cases f) (auto simp: packet_defs target_stream_def)
  moreover have "q = pkt" if "(\<exists>g. f = ReplicaLagP g) \<or> (\<exists>g. f = WALDelayP g)"
    using q that by (auto simp: packet_defs Let_def split: if_splits prod.splits)
  ultimately show ?thesis by (auto simp: flipped_from_def)
qed

definition ex_lag :: PacketFault where
  "ex_lag = ReplicaLagP \<lparr>rl_Delay = 5, rl_Jitter = 0\<rparr>"

theorem packet_fault_sound_witness:
  "\<exists>q w'. Packet_Apply ex_lag None [7] ClientQueryStream (ex_world Map.empty) = Some (q, w') \<and> q = [7]"
  using packet_fault_sound [of ex_lag None "[7]" ClientQueryStream "ex_world Map.empty"]
  by (auto simp: ex_lag_def target_stream_def)

text \<open>
  A sequence of replies through the stale-read hook: each call has its instant, query and
  live response.
\<close>

type_synonym read_call = "instant \<times> chunk \<times> chunk"

fun stale_run :: "StaleReadFault \<Rightarrow> read_call list \<Rightarrow> world \<Rightarrow> chunk list \<times> StaleReadFault \<times> world" where
  "stale_run f [] w = ([], f, w)"
| "stale_run f ((t, q, live) # cs) w =
     (let (a, f1, w1) = MaybeServeStale f q live (w\<lparr>now := t\<rparr>); (as, f2, w2) = stale_run f1 cs w1
      in (a # as, f2, w2))"

definition last_live :: "read_call list \<Rightarrow> string \<Rightarrow> cachedResult option" where
  "last_live past key =
     (case filter (\<lambda>(t, q, live). queryHash q = key) (rev past) of
        [] \<Rightarrow> None
      | (t, q, live) # _ \<Rightarrow> Some \<lparr>cr_data = live, cachedAt = t\<rparr>)"

definition served_ok :: "duration \<Rightarrow> read_call list \<Rightarrow> read_call \<Rightarrow> chunk \<Rightarrow> bool" where
  "served_ok age past c a =
     (case c of (t, q, live) \<Rightarrow>
        a = live \<or> (case last_live past (queryHash q) of
                      None \<Rightarrow> False
                    | Some r \<Rightarrow> a = cr_data r \<and> time_Sub t (cachedAt r) < age))"

lemma last_live_snoc:
  "last_live (past @ [(t, q, live)]) = (last_live past)(queryHash q \<mapsto> \<lparr>cr_data = live, cachedAt = t\<rparr>)"
  by (auto simp: last_live_def fun_eq_iff)

lemma MaybeServeStale_step:
  assumes "cache f = last_live past" "MaybeServeStale f q live (w\<lparr>now := t\<rparr>) = (a, f', w')"
  shows "cache f' = last_live (past @ [(t, q, live)]) \<and> MaxAge f' = MaxAge f \<and> served_ok (MaxAge f) past (t, q, live) a"
  using assms
  by (auto simp: MaybeServeStale_def served_ok_def last_live_snoc Let_def split: option.splits if_splits prod.splits)

lemma stale_run_sound:
  assumes "cache f = last_live past" "stale_run f cs w = (as, f', w')" "i < length cs"
  shows "length as = length cs \<and> served_ok (MaxAge f) (past @ take i cs) (cs ! i) (as ! i)"
  using assms
proof (induction cs arbitrary: f past w as i)
  case (Cons c cs)
  obtain t q live where c: "c = (t, q, live)" by (cases c)
  obtain a f1 w1 where 1: "MaybeServeStale f q live (w\<lparr>now := t\<rparr>) = (a, f1, w1)"
    by (cases "MaybeServeStale f q live (w\<lparr>now := t\<rparr>)")
  obtain as' where 2: "stale_run f1 cs w1 = (as', f', w')" and as: "as = a # as'"
    using Cons.prems(2) c 1 by (auto split: prod.splits)
  note s = MaybeServeStale_step [OF Cons.prems(1) 1]
  then have f1: "cache f1 = last_live (past @ [c])" "MaxAge f1 = MaxAge f" by (simp_all add: c)
  have len: "length as' = length cs"
    using Cons.IH [OF f1(1) 2] 2 by (cases cs) auto
  show ?case
  proof (cases i)
    case 0
    then show ?thesis using s as len c by simp
  next
    case (Suc j)
    then show ?thesis using Cons.IH [OF f1(1) 2, of j] Cons.prems(3) as f1(2) by simp
  qed
qed simp

text \<open>
  C17: stale reads. In any sequence of replies, each answer is the live response or the
  response that came last before it for a query of the same hash, and then one younger than
  \<open>MaxAge\<close>; there is one answer per reply.
\<close>

theorem stale_reads_sound:
  assumes "stale_run (NewStaleReadFault pr age) cs w = (as, f', w')" "i < length cs"
  shows "length as = length cs \<and> served_ok age (take i cs) (cs ! i) (as ! i)"
  using stale_run_sound [of "NewStaleReadFault pr age" "[]" cs w as f' w' i] assms
  by (simp add: NewStaleReadFault_def last_live_def fun_eq_iff)

theorem stale_reads_sound_witness:
  "served_ok 100 [(0, [1], [10])] (50, [1], [20])
     (fst (stale_run (NewStaleReadFault 1 100) [(0, [1], [10]), (50, [1], [20])] (ex_world Map.empty)) ! 1)"
proof -
  let ?cs = "[(0, [1], [10]), (50, [1], [20])] :: read_call list"
  obtain as f' w' where r: "stale_run (NewStaleReadFault 1 100) ?cs (ex_world Map.empty) = (as, f', w')"
    by (cases "stale_run (NewStaleReadFault 1 100) ?cs (ex_world Map.empty)")
  show ?thesis using stale_reads_sound [OF r, of 1] by (simp only: r) simp
qed

end
