(* ===== verification/Data_Store.thy ===== *)
theory Data_Store
  imports Db_Faults
begin

text \<open>
  Stored data and the faults on it (\<^verbatim>\<open>internal/faults/data.go\<close>): the in-memory store with
  a log and rows per node, log divergence and row corruption. The log and row maps of Go are
  total lookups here with the zero value where a key is missing; a missing row is an error.
\<close>

section \<open>The store\<close>

record LogEntry =
  Index :: u64
  Term :: u64
  Data :: chunk

record InMemoryDataStore =
  logs :: "string \<Rightarrow> LogEntry list"
  rows :: "string \<rightharpoonup> (string \<rightharpoonup> chunk)"

datatype store_error = NoRowsForNode string | NoRow string string string

definition NewInMemoryDataStore :: InMemoryDataStore where
  "NewInMemoryDataStore = \<lparr>logs = (\<lambda>_. []), rows = Map.empty\<rparr>"

definition rowKey :: "string \<Rightarrow> string \<Rightarrow> string" where
  "rowKey tab key = tab @ '':'' @ key"

definition ReadLogEntries :: "InMemoryDataStore \<Rightarrow> string \<Rightarrow> u64 \<Rightarrow> LogEntry list" where
  "ReadLogEntries s nodeID fromIndex = filter (\<lambda>e. Index e \<ge> fromIndex) (logs s nodeID)"

definition WriteLogEntry :: "string \<Rightarrow> LogEntry \<Rightarrow> InMemoryDataStore \<Rightarrow> InMemoryDataStore" where
  "WriteLogEntry nodeID en s = s\<lparr>logs := (logs s)(nodeID := logs s nodeID @ [en])\<rparr>"

definition ReadRow :: "InMemoryDataStore \<Rightarrow> string \<Rightarrow> string \<Rightarrow> string \<Rightarrow> store_error + chunk" where
  "ReadRow s nodeID tab key =
     (case rows s nodeID of
        None \<Rightarrow> Inl (NoRowsForNode nodeID)
      | Some node \<Rightarrow> (case node (rowKey tab key) of None \<Rightarrow> Inl (NoRow tab key nodeID) | Some v \<Rightarrow> Inr v))"

definition WriteRow :: "string \<Rightarrow> string \<Rightarrow> string \<Rightarrow> chunk \<Rightarrow> InMemoryDataStore \<Rightarrow> InMemoryDataStore" where
  "WriteRow nodeID tab key val s =
     (let node = (case rows s nodeID of None \<Rightarrow> Map.empty | Some m \<Rightarrow> m)
      in s\<lparr>rows := (rows s)(nodeID \<mapsto> node(rowKey tab key \<mapsto> val))\<rparr>)"

section \<open>Log divergence\<close>

record LogDivergenceFault =
  SourceNode :: string
  TargetNode :: string
  FromIndex :: u64
  FakeTerm :: u64
  appliedFrom :: u64
  appliedTo :: u64

datatype data_error =
    NoEntries string u64
  | ReadingRow store_error
  | FlipPanic

definition diverge :: "u64 \<Rightarrow> LogEntry \<Rightarrow> LogEntry" where
  "diverge fakeTerm e = \<lparr>Index = Index e, Term = fakeTerm, Data = Data e\<rparr>"

definition LogDivergence_Inject ::
  "LogDivergenceFault \<Rightarrow> InMemoryDataStore \<Rightarrow> data_error option \<times> LogDivergenceFault \<times> InMemoryDataStore" where
  "LogDivergence_Inject f s =
     (let entries = ReadLogEntries s (SourceNode f) (FromIndex f)
      in if entries = [] then (Some (NoEntries (SourceNode f) (FromIndex f)), f, s)
         else (None, f\<lparr>appliedFrom := Index (hd entries), appliedTo := Index (last entries)\<rparr>,
               foldl (\<lambda>s e. WriteLogEntry (TargetNode f) (diverge (FakeTerm f) e) s) s entries))"

definition LogDivergence_Revert :: "LogDivergenceFault \<Rightarrow> InMemoryDataStore \<Rightarrow> InMemoryDataStore" where
  "LogDivergence_Revert f s = s"

section \<open>Row corruption\<close>

record RowCorruptionFault =
  Table :: string
  Key :: string
  BytesToFlip :: int
  previousValue :: chunk
  hadPrevious :: bool

definition RowCorruption_Inject ::
  "RowCorruptionFault \<Rightarrow> string \<Rightarrow> InMemoryDataStore \<Rightarrow> world
     \<Rightarrow> data_error option \<times> RowCorruptionFault \<times> InMemoryDataStore \<times> world" where
  "RowCorruption_Inject f nodeID s w =
     (case ReadRow s nodeID (Table f) (Key f) of
        Inl err \<Rightarrow> (Some (ReadingRow err), f, s, w)
      | Inr live \<Rightarrow>
          (let f1 = f\<lparr>previousValue := live, hadPrevious := True\<rparr>
           in case flipBytes live (BytesToFlip f) w of
                None \<Rightarrow> (Some FlipPanic, f1, s, w)
              | Some (corrupted, w1) \<Rightarrow> (None, f1, WriteRow nodeID (Table f) (Key f) corrupted s, w1)))"

definition RowCorruption_Revert :: "RowCorruptionFault \<Rightarrow> string \<Rightarrow> InMemoryDataStore \<Rightarrow> InMemoryDataStore" where
  "RowCorruption_Revert f nodeID s =
     (if \<not> hadPrevious f then s else WriteRow nodeID (Table f) (Key f) (previousValue f) s)"

section \<open>What a data store promises\<close>

text \<open>
  The contract of \<open>DataStore\<close> that the faults rely on: what is read after a write. Rows are
  named by \<open>name\<close>, which need not tell all pairs of table and key apart.
\<close>

locale data_store =
  fixes read_row :: "'s \<Rightarrow> string \<Rightarrow> string \<Rightarrow> string \<Rightarrow> store_error + chunk"
    and write_row :: "string \<Rightarrow> string \<Rightarrow> string \<Rightarrow> chunk \<Rightarrow> 's \<Rightarrow> 's"
    and read_log :: "'s \<Rightarrow> string \<Rightarrow> u64 \<Rightarrow> LogEntry list"
    and write_log :: "string \<Rightarrow> LogEntry \<Rightarrow> 's \<Rightarrow> 's"
    and name :: "string \<Rightarrow> string \<Rightarrow> string"
  assumes read_write: "read_row (write_row n t k v s) n t k = Inr v"
    and read_write_other: "m \<noteq> n \<or> name u l \<noteq> name t k \<Longrightarrow> read_row s m u l = Inr x \<Longrightarrow> read_row (write_row n t k v s) m u l = Inr x"
    and write_write: "write_row n t k v' (write_row n t k v s) = write_row n t k v' s"
    and write_same: "read_row s n t k = Inr v \<Longrightarrow> write_row n t k v s = s"
    and read_log_write: "read_log (write_log n e s) m i = (if m = n \<and> i \<le> Index e then read_log s m i @ [e] else read_log s m i)"
begin

lemma write_restores: "read_row s n t k = Inr v \<Longrightarrow> write_row n t k v (write_row n t k v' s) = s"
  by (simp add: write_write write_same)

lemma read_log_writes:
  "read_log (foldl (\<lambda>s e. write_log n (g e) s) s es) m i
     = (if m = n then read_log s m i @ filter (\<lambda>e. i \<le> Index e) (map g es) else read_log s m i)"
  by (induction es arbitrary: s) (auto simp: read_log_write)

end

interpretation mem: data_store ReadRow WriteRow ReadLogEntries WriteLogEntry rowKey
proof
  fix n t k v s
  show "ReadRow (WriteRow n t k v s) n t k = Inr v" by (simp add: ReadRow_def WriteRow_def Let_def)
next
  fix m n u l t k s x v
  assume "m \<noteq> n \<or> rowKey u l \<noteq> rowKey t k" "ReadRow s m u l = Inr x"
  then show "ReadRow (WriteRow n t k v s) m u l = Inr x"
    by (auto simp: ReadRow_def WriteRow_def Let_def split: option.splits)
next
  fix n t k v v' s
  show "WriteRow n t k v' (WriteRow n t k v s) = WriteRow n t k v' s" by (simp add: WriteRow_def Let_def)
next
  fix s n t k v
  assume "ReadRow s n t k = Inr v"
  then have "rows s n = Some m \<Longrightarrow> m(rowKey t k \<mapsto> v) = m" for m
    by (auto simp: ReadRow_def fun_eq_iff split: option.splits)
  with \<open>ReadRow s n t k = Inr v\<close> show "WriteRow n t k v s = s"
    by (auto simp: WriteRow_def ReadRow_def Let_def map_upd_triv split: option.splits)
next
  fix n e s m i
  show "ReadLogEntries (WriteLogEntry n e s) m i = (if m = n \<and> i \<le> Index e then ReadLogEntries s m i @ [e] else ReadLogEntries s m i)"
    by (simp add: ReadLogEntries_def WriteLogEntry_def)
qed

section \<open>Properties\<close>

text \<open>
  Row corruption is silent and reversible. On a row that exists and is not empty,
  injection succeeds; the row keeps its length with each byte kept or complemented, every
  row of another name or node reads as before, and reverting gives the very store of before.
\<close>

theorem row_corruption_roundtrip:
  assumes "ReadRow s n (Table f) (Key f) = Inr v" "v \<noteq> []"
  shows "\<exists>f' s' w' v'. RowCorruption_Inject f n s w = (None, f', s', w')
    \<and> ReadRow s' n (Table f) (Key f) = Inr v' \<and> list_all2 (\<lambda>a b. b = a \<or> b = NOT a) v v'
    \<and> (\<forall>m u l x. (m \<noteq> n \<or> rowKey u l \<noteq> rowKey (Table f) (Key f)) \<and> ReadRow s m u l = Inr x \<longrightarrow> ReadRow s' m u l = Inr x)
    \<and> RowCorruption_Revert f' n s' = s"
proof -
  obtain v' w' where fl: "flipBytes v (BytesToFlip f) w = Some (v', w')" "flipped_from v v'"
    using flip_loop_total [OF assms(2), of "nat (BytesToFlip f)" w] by (auto simp: flipBytes_def)
  let ?s = "WriteRow n (Table f) (Key f) v' s"
  let ?f = "f\<lparr>previousValue := v, hadPrevious := True\<rparr>"
  have "RowCorruption_Inject f n s w = (None, ?f, ?s, w')" by (simp add: RowCorruption_Inject_def assms(1) fl(1))
  moreover have "RowCorruption_Revert ?f n ?s = s"
    using mem.write_restores [OF assms(1)] by (simp add: RowCorruption_Revert_def)
  ultimately show ?thesis
    using fl(2) mem.read_write mem.read_write_other by (intro exI [of _ ?f] exI [of _ ?s] exI [of _ w'] exI [of _ v'])
      (auto simp: flipped_from_def)
qed

definition ex_store :: InMemoryDataStore where
  "ex_store = WriteRow ''a'' ''t'' ''k'' [1, 2] NewInMemoryDataStore"

definition ex_corruption :: RowCorruptionFault where
  "ex_corruption = \<lparr>Table = ''t'', Key = ''k'', BytesToFlip = 1, previousValue = [], hadPrevious = False\<rparr>"

theorem row_corruption_roundtrip_witness:
  "\<exists>f' s' w'. RowCorruption_Inject ex_corruption ''a'' ex_store (ex_world Map.empty) = (None, f', s', w')
     \<and> RowCorruption_Revert f' ''a'' s' = ex_store"
  using row_corruption_roundtrip [of ex_store "''a''" ex_corruption "[1, 2]" "ex_world Map.empty"]
  by (auto simp: ex_store_def ex_corruption_def ReadRow_def WriteRow_def NewInMemoryDataStore_def)

text \<open>An empty row cannot be corrupted: the injection panics.\<close>

lemma row_corruption_empty_panics:
  assumes "ReadRow s n (Table f) (Key f) = Inr []" "BytesToFlip f > 0"
  shows "fst (RowCorruption_Inject f n s w) = Some FlipPanic"
proof -
  from assms(2) obtain k where "nat (BytesToFlip f) = Suc k" by (cases "nat (BytesToFlip f)") auto
  with assms(1) show ?thesis by (simp add: RowCorruption_Inject_def flipBytes_def)
qed

text \<open>Two rows of different tables can be the same row of the store.\<close>

lemma rowKey_collision: "rowKey ''a'' ''b:c'' = rowKey ''a:b'' ''c''"
  by (simp add: rowKey_def)

text \<open>
  Log divergence adds to the target's log. When the source has entries from the index
  on, the target's log gets each of them once more under the fake term, after all it held
  before, which stays; no other node's log changes, and reverting does nothing.
\<close>

theorem log_divergence_appends:
  assumes "ReadLogEntries s (SourceNode f) (FromIndex f) \<noteq> []"
  shows "\<exists>f' s'. LogDivergence_Inject f s = (None, f', s')
    \<and> ReadLogEntries s' (TargetNode f) 0
        = ReadLogEntries s (TargetNode f) 0 @ map (diverge (FakeTerm f)) (ReadLogEntries s (SourceNode f) (FromIndex f))
    \<and> (\<forall>m i. m \<noteq> TargetNode f \<longrightarrow> ReadLogEntries s' m i = ReadLogEntries s m i)
    \<and> LogDivergence_Revert f' s' = s'"
  using assms by (auto simp: LogDivergence_Inject_def LogDivergence_Revert_def mem.read_log_writes Let_def)

definition ex_log :: InMemoryDataStore where
  "ex_log = WriteLogEntry ''a'' \<lparr>Index = 1, Term = 1, Data = [7]\<rparr> (WriteLogEntry ''b'' \<lparr>Index = 1, Term = 1, Data = [7]\<rparr> NewInMemoryDataStore)"

definition ex_diverge :: LogDivergenceFault where
  "ex_diverge = \<lparr>SourceNode = ''a'', TargetNode = ''b'', FromIndex = 1, FakeTerm = 9, appliedFrom = 0, appliedTo = 0\<rparr>"

theorem log_divergence_appends_witness:
  "\<exists>f' s'. LogDivergence_Inject ex_diverge ex_log = (None, f', s')
     \<and> map Term (ReadLogEntries s' ''b'' 0) = [1, 9]"
  using log_divergence_appends [of ex_log ex_diverge]
  by (auto simp: ex_log_def ex_diverge_def ReadLogEntries_def WriteLogEntry_def NewInMemoryDataStore_def diverge_def)

end
