(* ===== verification/Consistency.thy ===== *)
theory Consistency
  imports Db_Faults
begin

text \<open>
  Client-visible consistency (\<^verbatim>\<open>internal/faults/consistency.go\<close>): the checker that
  records reads and writes and reports violations, and the faults that provoke them. The text
  of a violation is kept as a term with its arguments. The database session and the router
  that the faults call are arguments: \<open>exec\<close> runs a statement and may fail, \<open>route\<close>
  sends a client's next reads to a node.
\<close>

section \<open>The checker\<close>

record recordedWrite =
  w_value :: chunk
  w_at :: instant

record recordedRead =
  r_value :: chunk
  r_at :: instant

datatype details =
    StaleValue string instant \<comment> \<open>key, instant of the write whose value was expected\<close>
  | WentBackwards string int int \<comment> \<open>key, index of the write read before, index of the one read now\<close>

record Violation =
  v_Type :: string
  v_ClientID :: string
  v_Details :: details
  v_At :: instant

record InMemoryConsistencyChecker =
  writes :: "string \<Rightarrow> recordedWrite list"
  clientReads :: "string \<Rightarrow> recordedRead list"
  violations :: "Violation list"

definition NewInMemoryConsistencyChecker :: InMemoryConsistencyChecker where
  "NewInMemoryConsistencyChecker = \<lparr>writes = (\<lambda>_. []), clientReads = (\<lambda>_. []), violations = []\<rparr>"

definition RecordWrite ::
  "string \<Rightarrow> string \<Rightarrow> chunk \<Rightarrow> instant \<Rightarrow> InMemoryConsistencyChecker \<Rightarrow> InMemoryConsistencyChecker" where
  "RecordWrite clientID key v t c =
     c\<lparr>writes := (writes c)(key := writes c key @ [\<lparr>w_value = v, w_at = t\<rparr>])\<rparr>"

fun last_loop :: "instant \<Rightarrow> recordedWrite option \<Rightarrow> recordedWrite list \<Rightarrow> recordedWrite option" where
  "last_loop t lst [] = lst"
| "last_loop t lst (w # ws) =
     last_loop t
       (if w_at w < t \<or> w_at w = t
        then (case lst of None \<Rightarrow> Some w | Some l \<Rightarrow> if w_at w > w_at l then Some w else lst)
        else lst) ws"

definition lastWriteBefore :: "InMemoryConsistencyChecker \<Rightarrow> string \<Rightarrow> instant \<Rightarrow> recordedWrite option" where
  "lastWriteBefore c key t = last_loop t None (writes c key)"

fun index_loop :: "int \<Rightarrow> chunk \<Rightarrow> recordedWrite list \<Rightarrow> int" where
  "index_loop i v [] = -1"
| "index_loop i v (w # ws) = (if w_value w = v then i else index_loop (i + 1) v ws)"

definition writeIndexOf :: "InMemoryConsistencyChecker \<Rightarrow> string \<Rightarrow> chunk \<Rightarrow> int" where
  "writeIndexOf c key v = index_loop 0 v (writes c key)"

definition check_read_your_writes ::
  "string \<Rightarrow> string \<Rightarrow> chunk \<Rightarrow> instant \<Rightarrow> InMemoryConsistencyChecker \<Rightarrow> Violation list" where
  "check_read_your_writes clientID key v t c =
     (case lastWriteBefore c key t of
        None \<Rightarrow> []
      | Some lastWrite \<Rightarrow>
          if v \<noteq> w_value lastWrite
          then [\<lparr>v_Type = ''read_your_writes'', v_ClientID = clientID, v_Details = StaleValue key (w_at lastWrite), v_At = t\<rparr>]
          else [])"

definition client_key :: "string \<Rightarrow> string \<Rightarrow> string" where
  "client_key clientID key = clientID @ '':'' @ key"

definition check_monotonic ::
  "string \<Rightarrow> string \<Rightarrow> chunk \<Rightarrow> instant \<Rightarrow> InMemoryConsistencyChecker \<Rightarrow> Violation list" where
  "check_monotonic clientID key v t c =
     (let prevReads = clientReads c (client_key clientID key)
      in if prevReads \<noteq> [] then
           (let prevIdx = writeIndexOf c key (r_value (last prevReads)); curIdx = writeIndexOf c key v
            in if prevIdx \<ge> 0 \<and> curIdx \<ge> 0 \<and> curIdx < prevIdx
               then [\<lparr>v_Type = ''monotonic_read'', v_ClientID = clientID, v_Details = WentBackwards key prevIdx curIdx, v_At = t\<rparr>]
               else [])
         else [])"

definition RecordRead ::
  "string \<Rightarrow> string \<Rightarrow> chunk \<Rightarrow> instant \<Rightarrow> InMemoryConsistencyChecker \<Rightarrow> InMemoryConsistencyChecker" where
  "RecordRead clientID key v t c =
     (let ck = client_key clientID key
      in c\<lparr>violations := violations c @ check_read_your_writes clientID key v t c @ check_monotonic clientID key v t c,
           clientReads := (clientReads c)(ck := clientReads c ck @ [\<lparr>r_value = v, r_at = t\<rparr>])\<rparr>)"

definition Violations :: "InMemoryConsistencyChecker \<Rightarrow> Violation list" where
  "Violations c = violations c"

section \<open>The faults\<close>

record ReadYourWritesFault =
  LaggingReplica :: string
  ryw_Table :: string
  Col :: string
  ryw_ClientID :: string
  ryw_Key :: string
  Value :: chunk

definition update_query :: "string \<Rightarrow> string \<Rightarrow> string" where
  "update_query tab col = ''UPDATE '' @ tab @ '' SET '' @ col @ '' = $1 WHERE id = $2''"

definition ReadYourWrites_Provoke ::
  "(string \<Rightarrow> chunk \<Rightarrow> string \<Rightarrow> 's \<Rightarrow> 'e option \<times> 's) \<Rightarrow> (string \<Rightarrow> string \<Rightarrow> 'r \<Rightarrow> 'r) \<Rightarrow> ('s \<Rightarrow> instant)
     \<Rightarrow> ReadYourWritesFault \<Rightarrow> 's \<Rightarrow> 'r \<Rightarrow> InMemoryConsistencyChecker \<Rightarrow> 'e option \<times> 's \<times> 'r \<times> InMemoryConsistencyChecker" where
  "ReadYourWrites_Provoke exec route now_of f s r c =
     (case exec (update_query (ryw_Table f) (Col f)) (Value f) (ryw_Key f) s of
        (Some err, s1) \<Rightarrow> (Some err, s1, r, c)
      | (None, s1) \<Rightarrow>
          (None, s1, route (ryw_ClientID f) (LaggingReplica f) r, RecordWrite (ryw_ClientID f) (ryw_Key f) (Value f) (now_of s1) c))"

record MonotonicReadFault =
  mr_ClientID :: string
  ReplicaA :: string
  ReplicaB :: string
  SwitchAfter :: duration

text \<open>The wait ends at the earlier of its own end and the end of the context; where both fall
  together, Go chooses at random and the context is chosen here.\<close>

definition MonotonicRead_Provoke ::
  "(string \<Rightarrow> string \<Rightarrow> 'r \<Rightarrow> 'r) \<Rightarrow> instant option \<Rightarrow> MonotonicReadFault \<Rightarrow> 'r \<Rightarrow> world \<Rightarrow> bool \<times> 'r \<times> world" where
  "MonotonicRead_Provoke route ctx f r w =
     (let r1 = route (mr_ClientID f) (ReplicaA f) r;
          w1 = sleep_ctx (SwitchAfter f) ctx w
      in if ctx_done ctx w1 then (False, r1, w1) else (True, route (mr_ClientID f) (ReplicaB f) r1, w1))"

definition StaleCache_Provoke :: "InMemoryConsistencyChecker \<Rightarrow> InMemoryConsistencyChecker" where
  "StaleCache_Provoke c = c"

section \<open>Histories\<close>

text \<open>
  A history is the sequence of calls that clients' read and write paths make. The reference
  of read-your-writes keeps only the latest write of each key.
\<close>

datatype event =
    EvWrite (ev_client: string) (ev_key: string) (ev_val: chunk) (ev_at: instant)
  | EvRead (ev_client: string) (ev_key: string) (ev_val: chunk) (ev_at: instant)

primrec record_event :: "event \<Rightarrow> InMemoryConsistencyChecker \<Rightarrow> InMemoryConsistencyChecker" where
  "record_event (EvWrite cl k v t) = RecordWrite cl k v t"
| "record_event (EvRead cl k v t) = RecordRead cl k v t"

definition record_all :: "event list \<Rightarrow> InMemoryConsistencyChecker \<Rightarrow> InMemoryConsistencyChecker" where
  "record_all es c = foldl (\<lambda>c e. record_event e c) c es"

definition precedes :: "event \<Rightarrow> event \<Rightarrow> bool" where
  "precedes a b \<longleftrightarrow> ev_at a \<le> ev_at b \<and> (is_EvWrite a \<and> is_EvWrite b \<and> ev_key a = ev_key b \<longrightarrow> ev_at a < ev_at b)"

fun stale_reads :: "(string \<rightharpoonup> recordedWrite) \<Rightarrow> event list \<Rightarrow> Violation list" where
  "stale_reads m [] = []"
| "stale_reads m (EvWrite cl k v t # es) = stale_reads (m(k \<mapsto> \<lparr>w_value = v, w_at = t\<rparr>)) es"
| "stale_reads m (EvRead cl k v t # es) =
     (case m k of
        None \<Rightarrow> []
      | Some w \<Rightarrow> if v = w_value w then []
                  else [\<lparr>v_Type = ''read_your_writes'', v_ClientID = cl, v_Details = StaleValue k (w_at w), v_At = t\<rparr>])
     @ stale_reads m es"

fun fresh_reads :: "(string \<rightharpoonup> chunk) \<Rightarrow> event list \<Rightarrow> bool" where
  "fresh_reads m [] = True"
| "fresh_reads m (EvWrite cl k v t # es) = fresh_reads (m(k \<mapsto> v)) es"
| "fresh_reads m (EvRead cl k v t # es) = ((m k = None \<or> m k = Some v) \<and> fresh_reads m es)"

definition is_ryw :: "Violation \<Rightarrow> bool" where
  "is_ryw v \<longleftrightarrow> v_Type v = ''read_your_writes''"

lemmas record_defs = RecordWrite_def RecordRead_def check_read_your_writes_def check_monotonic_def

lemma last_loop_sorted:
  assumes "sorted_wrt (<) (map w_at ws)" "\<forall>w \<in> set ws. w_at w \<le> t"
    and "\<forall>l. lst = Some l \<longrightarrow> (\<forall>w \<in> set ws. w_at l < w_at w)"
  shows "last_loop t lst ws = (if ws = [] then lst else Some (last ws))"
  using assms
proof (induction ws arbitrary: lst)
  case (Cons w ws)
  have "last_loop t (Some w) ws = (if ws = [] then Some w else Some (last ws))"
    using Cons.prems by (intro Cons.IH) auto
  with Cons.prems show ?case by (auto split: option.splits)
qed simp

definition tracks_writes :: "InMemoryConsistencyChecker \<Rightarrow> (string \<rightharpoonup> recordedWrite) \<Rightarrow> event list \<Rightarrow> bool" where
  "tracks_writes c m es \<longleftrightarrow>
     (\<forall>k. m k = (if writes c k = [] then None else Some (last (writes c k))))
     \<and> (\<forall>k. sorted_wrt (<) (map w_at (writes c k)))
     \<and> (\<forall>k. \<forall>w \<in> set (writes c k). \<forall>e \<in> set es. w_at w \<le> ev_at e \<and> (is_EvWrite e \<and> ev_key e = k \<longrightarrow> w_at w < ev_at e))"

lemma tracks_lastWrite:
  assumes "tracks_writes c m (e # es)"
  shows "lastWriteBefore c k (ev_at e) = m k"
  using assms last_loop_sorted [of "writes c k" "ev_at e" None]
  by (auto simp: tracks_writes_def lastWriteBefore_def)

lemma tracks_read:
  assumes "tracks_writes c m (EvRead cl k v t # es)"
  shows "tracks_writes (RecordRead cl k v t c) m es"
  using assms by (simp add: tracks_writes_def RecordRead_def Let_def)

lemma tracks_write:
  assumes "tracks_writes c m (EvWrite cl k v t # es)" "\<forall>e \<in> set es. precedes (EvWrite cl k v t) e"
  shows "tracks_writes (RecordWrite cl k v t c) (m(k \<mapsto> \<lparr>w_value = v, w_at = t\<rparr>)) es"
  using assms by (auto simp: tracks_writes_def RecordWrite_def precedes_def sorted_wrt_append)

lemma ryw_of_read:
  "filter is_ryw (violations (RecordRead cl k v t c)) = filter is_ryw (violations c) @ check_read_your_writes cl k v t c"
  by (simp add: record_defs Let_def is_ryw_def split: option.splits)

lemma ryw_exact_gen:
  assumes "sorted_wrt precedes es" "tracks_writes c m es"
  shows "filter is_ryw (violations (record_all es c)) = filter is_ryw (violations c) @ stale_reads m es"
  using assms
proof (induction es arbitrary: c m)
  case (Cons e es)
  show ?case
  proof (cases e)
    case (EvWrite cl k v t)
    with Cons.prems have "tracks_writes (RecordWrite cl k v t c) (m(k \<mapsto> \<lparr>w_value = v, w_at = t\<rparr>)) es"
      by (intro tracks_write) auto
    with Cons EvWrite show ?thesis by (simp add: record_all_def) (simp add: RecordWrite_def)
  next
    case (EvRead cl k v t)
    with Cons.prems have "tracks_writes (RecordRead cl k v t c) m es" "lastWriteBefore c k t = m k"
      using tracks_lastWrite [of c m e es k] by (auto intro: tracks_read)
    with Cons EvRead show ?thesis
      by (auto simp: record_all_def ryw_of_read check_read_your_writes_def split: option.splits)
  qed
qed (simp add: record_all_def)

section \<open>Properties\<close>

text \<open>
  What read-your-writes asks of a client, as the comment in \<open>RecordRead\<close> has it: a read returns the
  client's own latest write of the key.
\<close>

fun own_stale_reads :: "(string \<times> string \<rightharpoonup> recordedWrite) \<Rightarrow> event list \<Rightarrow> Violation list" where
  "own_stale_reads m [] = []"
| "own_stale_reads m (EvWrite cl k v t # es) = own_stale_reads (m((cl, k) \<mapsto> \<lparr>w_value = v, w_at = t\<rparr>)) es"
| "own_stale_reads m (EvRead cl k v t # es) =
     (case m (cl, k) of
        None \<Rightarrow> []
      | Some w \<Rightarrow> if v = w_value w then []
                  else [\<lparr>v_Type = ''read_your_writes'', v_ClientID = cl, v_Details = StaleValue k (w_at w), v_At = t\<rparr>])
     @ own_stale_reads m es"

text \<open>A key that is written is written and read by one client only.\<close>

definition private_keys :: "event list \<Rightarrow> bool" where
  "private_keys es \<longleftrightarrow> (\<forall>e \<in> set es. \<forall>e' \<in> set es. is_EvWrite e \<and> ev_key e' = ev_key e \<longrightarrow> ev_client e' = ev_client e)"

lemma private_keysD:
  "private_keys es \<Longrightarrow> e \<in> set es \<Longrightarrow> e' \<in> set es \<Longrightarrow> is_EvWrite e \<Longrightarrow> ev_key e' = ev_key e \<Longrightarrow> ev_client e' = ev_client e"
  unfolding private_keys_def by blast

text \<open>The latest writes of all clients and those of each, for the clients that are still to come.\<close>

definition same_latest :: "(string \<rightharpoonup> recordedWrite) \<Rightarrow> (string \<times> string \<rightharpoonup> recordedWrite) \<Rightarrow> event list \<Rightarrow> bool" where
  "same_latest m M es \<longleftrightarrow> (\<forall>e \<in> set es. M (ev_client e, ev_key e) = m (ev_key e))"

lemma own_stale_private:
  assumes "private_keys es" "same_latest m M es"
  shows "stale_reads m es = own_stale_reads M es"
  using assms
proof (induction es arbitrary: m M)
  case (Cons e es)
  have p: "private_keys es" using Cons.prems(1) unfolding private_keys_def by (meson list.set_intros(2))
  show ?case
  proof (cases e)
    case (EvWrite cl k v t)
    have "ev_client e' = cl" if "e' \<in> set es" "ev_key e' = k" for e'
      using private_keysD [OF Cons.prems(1), of e e'] that EvWrite by simp
    then have "same_latest (m(k \<mapsto> \<lparr>w_value = v, w_at = t\<rparr>)) (M((cl, k) \<mapsto> \<lparr>w_value = v, w_at = t\<rparr>)) es"
      using Cons.prems(2) by (auto simp: same_latest_def)
    from Cons.IH [OF p this] show ?thesis by (simp add: EvWrite del: fun_upd_apply)
  next
    case (EvRead cl k v t)
    have "same_latest m M es" "M (cl, k) = m k" using Cons.prems(2) EvRead by (simp_all add: same_latest_def)
    with Cons.IH [OF p] show ?thesis by (simp add: EvRead)
  qed
qed simp

text \<open>
  C37: the read-your-writes check is exact where clients keep to keys of their own. For a history
  whose times do not go back, with the writes of one key at different instants, and in which a
  key that is written is used by one client only, the reported read-your-writes violations are
  exactly the reads that do not return the reader's own latest write of the key, in order,
  each naming the client, the key and the instant of that write.
\<close>

theorem ryw_exact:
  assumes "sorted_wrt precedes es" "private_keys es"
  shows "filter is_ryw (Violations (record_all es NewInMemoryConsistencyChecker)) = own_stale_reads Map.empty es"
  using ryw_exact_gen [OF assms(1), of NewInMemoryConsistencyChecker Map.empty] own_stale_private [OF assms(2), of Map.empty Map.empty]
  by (simp add: Violations_def tracks_writes_def NewInMemoryConsistencyChecker_def same_latest_def)

definition ex_history :: "event list" where
  "ex_history = [EvWrite ''a'' ''x'' [1] 10, EvWrite ''b'' ''y'' [5] 15, EvWrite ''a'' ''x'' [2] 20, EvRead ''b'' ''y'' [5] 25,
     EvRead ''a'' ''x'' [1] 30]"

theorem ryw_exact_witness:
  "filter is_ryw (Violations (record_all ex_history NewInMemoryConsistencyChecker))
    = [\<lparr>v_Type = ''read_your_writes'', v_ClientID = ''a'', v_Details = StaleValue ''x'' 20, v_At = 30\<rparr>]"
proof -
  have "sorted_wrt precedes ex_history" "private_keys ex_history" by (simp_all add: ex_history_def precedes_def private_keys_def)
  from ryw_exact [OF this] show ?thesis by (simp add: ex_history_def)
qed

text \<open>
  Where clients share a key the check goes beyond the comment: the latest write of any client is
  expected, and a client that never wrote is reported for missing it.
\<close>

lemma other_clients_write_flagged:
  "map v_ClientID (filter is_ryw (Violations (record_all [EvWrite ''w'' ''x'' [1] 10, EvWrite ''w'' ''x'' [2] 20, EvRead ''r'' ''x'' [1] 30]
     NewInMemoryConsistencyChecker))) = [''r'']"
  using ryw_exact_gen [of "[EvWrite ''w'' ''x'' [1] 10, EvWrite ''w'' ''x'' [2] 20, EvRead ''r'' ''x'' [1] 30]"
      NewInMemoryConsistencyChecker Map.empty]
  by (simp add: Violations_def tracks_writes_def NewInMemoryConsistencyChecker_def precedes_def)

text \<open>Written values are told apart when no key is written twice with one value.\<close>

definition distinct_values :: "event list \<Rightarrow> bool" where
  "distinct_values es \<longleftrightarrow> distinct (map (\<lambda>e. (ev_key e, ev_val e)) (filter is_EvWrite es))"

lemma index_loop_le: "0 \<le> i \<Longrightarrow> index_loop i v ws \<le> i + int (length ws) - 1"
  by (induction i v ws rule: index_loop.induct) auto

lemma index_loop_last:
  "ws \<noteq> [] \<Longrightarrow> distinct (map w_value ws) \<Longrightarrow> index_loop i (w_value (last ws)) ws = i + int (length ws) - 1"
proof (induction ws arbitrary: i)
  case (Cons w ws)
  show ?case
  proof (cases "ws = []")
    case False
    then have "w_value (last ws) \<in> set (map w_value ws)" by simp
    with Cons.prems have "w_value w \<noteq> w_value (last ws)" by force
    with False Cons show ?thesis by simp
  qed simp
qed simp

lemma monotonic_latest:
  assumes "distinct (map w_value (writes c k))" "writes c k = [] \<or> v = w_value (last (writes c k))"
  shows "check_monotonic cl k v t c = []"
proof (cases "writes c k = []")
  case False
  with assms have "writeIndexOf c k v = int (length (writes c k)) - 1"
    using index_loop_last [of "writes c k" 0] by (simp add: writeIndexOf_def)
  moreover have "writeIndexOf c k u \<le> int (length (writes c k)) - 1" for u
    using index_loop_le [of 0 u "writes c k"] by (simp add: writeIndexOf_def)
  ultimately show ?thesis by (simp add: check_monotonic_def Let_def not_less del: One_nat_def)
    (metis less_le_not_le zle_diff1_eq)
qed (simp add: check_monotonic_def writeIndexOf_def Let_def)

definition tracks_values :: "InMemoryConsistencyChecker \<Rightarrow> (string \<rightharpoonup> chunk) \<Rightarrow> event list \<Rightarrow> bool" where
  "tracks_values c m es \<longleftrightarrow>
     (\<forall>k. m k = (if writes c k = [] then None else Some (w_value (last (writes c k)))))
     \<and> (\<forall>k. distinct (map w_value (writes c k)))
     \<and> (\<forall>k. \<forall>w \<in> set (writes c k). \<forall>e \<in> set es. is_EvWrite e \<and> ev_key e = k \<longrightarrow> ev_val e \<noteq> w_value w)"

lemma tracks_values_write:
  assumes "tracks_values c m (EvWrite cl k v t # es)" "distinct_values (EvWrite cl k v t # es)"
  shows "tracks_values (RecordWrite cl k v t c) (m(k \<mapsto> v)) es"
proof -
  have "\<forall>e \<in> set es. is_EvWrite e \<and> ev_key e = k \<longrightarrow> ev_val e \<noteq> v"
    using assms(2) by (force simp: distinct_values_def)
  with assms(1) show ?thesis by (fastforce simp: tracks_values_def RecordWrite_def)
qed

lemma no_monotonic_gen:
  assumes "fresh_reads m es" "distinct_values es" "tracks_values c m es"
  shows "filter (\<lambda>v. \<not> is_ryw v) (violations (record_all es c)) = filter (\<lambda>v. \<not> is_ryw v) (violations c)"
  using assms
proof (induction es arbitrary: c m)
  case (Cons e es)
  show ?case
  proof (cases e)
    case (EvWrite cl k v t)
    with Cons.prems have "tracks_values (RecordWrite cl k v t c) (m(k \<mapsto> v)) es" by (auto intro: tracks_values_write)
    moreover have "distinct_values es" using Cons.prems(2) by (simp add: distinct_values_def split: if_splits)
    moreover have "violations (RecordWrite cl k v t c) = violations c" by (simp add: RecordWrite_def)
    ultimately show ?thesis
      using Cons.IH [of "m(k \<mapsto> v)" "RecordWrite cl k v t c"] Cons.prems EvWrite by (simp add: record_all_def del: fun_upd_apply)
  next
    case (EvRead cl k v t)
    with Cons.prems have t: "tracks_values (RecordRead cl k v t c) m es"
      by (simp add: tracks_values_def RecordRead_def Let_def)
    have "check_monotonic cl k v t c = []"
      using Cons.prems EvRead by (intro monotonic_latest) (auto simp: tracks_values_def split: if_splits)
    then have "filter (\<lambda>v. \<not> is_ryw v) (violations (RecordRead cl k v t c)) = filter (\<lambda>v. \<not> is_ryw v) (violations c)"
      by (simp add: RecordRead_def Let_def check_read_your_writes_def is_ryw_def split: option.splits)
    moreover have "distinct_values es" using Cons.prems(2) by (simp add: distinct_values_def split: if_splits)
    ultimately show ?thesis using Cons.IH [OF _ _ t] Cons.prems EvRead by (simp add: record_all_def)
  qed
qed (simp add: record_all_def)

lemma fresh_not_stale:
  "fresh_reads m es \<Longrightarrow> \<forall>k. m k = map_option w_value (M k) \<Longrightarrow> stale_reads M es = []"
  by (induction M es arbitrary: m rule: stale_reads.induct) (fastforce split: option.splits)+

text \<open>
  C38: no false alarms. A history in which every read of a written key returns the latest
  write, and no key is written twice with the same value, gives no violation of any kind
  (times do not go back, writes of one key at different instants).
\<close>

theorem fresh_history_clean:
  assumes "sorted_wrt precedes es" "fresh_reads Map.empty es" "distinct_values es"
  shows "Violations (record_all es NewInMemoryConsistencyChecker) = []"
proof -
  let ?v = "violations (record_all es NewInMemoryConsistencyChecker)"
  have "filter is_ryw ?v = []"
    using ryw_exact_gen [OF assms(1), of NewInMemoryConsistencyChecker Map.empty] fresh_not_stale [OF assms(2)]
    by (simp add: tracks_writes_def NewInMemoryConsistencyChecker_def)
  moreover have "filter (\<lambda>v. \<not> is_ryw v) ?v = []"
    using no_monotonic_gen [OF assms(2,3), of NewInMemoryConsistencyChecker]
    by (simp add: tracks_values_def NewInMemoryConsistencyChecker_def)
  ultimately have "\<forall>v \<in> set ?v. \<not> is_ryw v \<and> is_ryw v" by (simp add: filter_empty_conv)
  then show ?thesis by (cases ?v) (auto simp: Violations_def)
qed

theorem fresh_history_clean_witness:
  "Violations (record_all [EvWrite ''w'' ''x'' [1] 10, EvRead ''r'' ''x'' [1] 15, EvWrite ''w'' ''x'' [2] 20,
     EvRead ''r'' ''x'' [2] 30] NewInMemoryConsistencyChecker) = []"
  by (rule fresh_history_clean) (simp_all add: precedes_def distinct_values_def)

text \<open>
  Where a value is written again, a fresh read of it is reported as going backwards, since
  the value is looked up at its first write; and of two writes at one instant the earlier
  recorded one is expected, so that a fresh read is reported as stale.
\<close>

lemma rewritten_value_false_alarm:
  "map v_Type (Violations (record_all [EvWrite ''w'' ''x'' [1] 10, EvWrite ''w'' ''x'' [2] 20, EvRead ''r'' ''x'' [2] 25,
     EvWrite ''w'' ''x'' [1] 30, EvRead ''r'' ''x'' [1] 40] NewInMemoryConsistencyChecker)) = [''monotonic_read'']"
  by (simp add: record_all_def record_defs NewInMemoryConsistencyChecker_def Violations_def lastWriteBefore_def
      writeIndexOf_def client_key_def Let_def)

lemma same_instant_false_alarm:
  "map v_Type (Violations (record_all [EvWrite ''w'' ''x'' [1] 10, EvWrite ''w'' ''x'' [2] 10, EvRead ''w'' ''x'' [2] 20]
     NewInMemoryConsistencyChecker)) = [''read_your_writes'']"
  by (simp add: record_all_def record_defs NewInMemoryConsistencyChecker_def Violations_def lastWriteBefore_def
      writeIndexOf_def client_key_def Let_def)

text \<open>
  The trap of \<open>ReadYourWritesFault\<close> works: after a successful provocation a read of the
  key by that client at a later instant that misses the write is reported, whatever the
  history, provided no write of the key was recorded at or after that instant.
\<close>

lemma provoked_read_detected:
  assumes "ReadYourWrites_Provoke exec route now_of f s r c = (None, s1, r1, c1)"
    and "\<forall>w \<in> set (writes c (ryw_Key f)). w_at w < now_of s1" "sorted_wrt (<) (map w_at (writes c (ryw_Key f)))"
    and "now_of s1 \<le> t" "v \<noteq> Value f"
  shows "\<exists>x \<in> set (Violations (RecordRead (ryw_ClientID f) (ryw_Key f) v t c1)).
           is_ryw x \<and> v_ClientID x = ryw_ClientID f \<and> v_At x = t"
proof -
  let ?w = "\<lparr>w_value = Value f, w_at = now_of s1\<rparr>"
  have c1: "writes c1 (ryw_Key f) = writes c (ryw_Key f) @ [?w]"
    using assms(1) by (auto simp: ReadYourWrites_Provoke_def RecordWrite_def split: prod.splits option.splits)
  have "lastWriteBefore c1 (ryw_Key f) t = Some ?w"
    using last_loop_sorted [of "writes c (ryw_Key f) @ [?w]" t None] assms(2,3,4)
    by (force simp: lastWriteBefore_def c1 sorted_wrt_append)
  with assms(5) show ?thesis by (auto simp: Violations_def RecordRead_def check_read_your_writes_def Let_def is_ryw_def)
qed

end
