(* ===== verification/Configuration.thy ===== *)
theory Configuration
  imports Go_Time
begin

text \<open>
  The configuration schema (\<^verbatim>\<open>internal/config/config.go\<close>): nodes and their
  targets, fault steps with dynamically typed parameters, scenarios, and the validation
  that \<open>Load\<close> runs. Reading the file, decoding YAML and reading the environment are
  arguments of \<open>Load\<close>. A Go \<open>error\<close> result is an option, \<open>None\<close> for nil.
  Floating-point parameters are reals.
\<close>

section \<open>Schema\<close>

datatype NodeTarget = NodeTarget
  (TType: string) (PID: int) (PIDFile: string) (StartCommand: string)
  (Container: string) (Network: string) (Unit: string) (Host: string)
  (Inner: "NodeTarget option")

record Node =
  Name :: string
  ListenAddr :: string
  UpstreamAddr :: string
  CheckCommand :: string
  Target :: "NodeTarget option"
  NodeRole :: string
  Stream :: string

text \<open>The dynamic values of \<^verbatim>\<open>map[string]any\<close>; \<open>VOther\<close> is any other type.\<close>

datatype any_val = VInt int | VInt64 int | VFloat real | VString string | VOther

record FaultStep =
  step_Node :: string
  Kind :: string
  LatencyMs :: int
  DropPercent :: int
  Params :: "string \<rightharpoonup> any_val"
  AfterMs :: int
  ForMs :: int

record Scenario =
  sc_Name :: string
  Description :: string
  Steps :: "FaultStep list"

record Config =
  Nodes :: "Node list"
  Scenarios :: "Scenario list"
  ControlAddr :: string
  ControlToken :: string

text \<open>
  The errors of \<^verbatim>\<open>Validate\<close> and of \<^verbatim>\<open>faults.NewDriver\<close>; an ssh target without host or inner target is
  reported by the first as ``need host and inner'' and by the second as ``need host and inner target''.
\<close>

datatype config_error =
    NeedPid | NeedContainer | NeedUnit | NeedHostAndInner | NeedHostAndInnerTarget | InnerIsSsh | TypeRequired
  | UnknownType string
  | NoNodes | EmptyName | DuplicateName string | UnknownStream string string
  | BadTarget string config_error
  | UnknownNode string nat string | NoKind string nat
  | ReadError string | ParseError string

section \<open>Operations\<close>

fun Target_Validate :: "NodeTarget \<Rightarrow> config_error option" where
  "Target_Validate (NodeTarget ty pid pidfile startc cont netw unit host inner) =
     (if ty = ''process'' then (if pid \<le> 0 \<and> pidfile = [] then Some NeedPid else None)
      else if ty = ''docker'' then (if cont = [] then Some NeedContainer else None)
      else if ty = ''systemd'' then (if unit = [] then Some NeedUnit else None)
      else if ty = ''ssh'' then
        (case inner of
           None \<Rightarrow> Some NeedHostAndInner
         | Some t \<Rightarrow>
             if host = [] then Some NeedHostAndInner
             else if TType t = ''ssh'' then Some InnerIsSsh
             else Target_Validate t)
      else if ty = [] then Some TypeRequired
      else Some (UnknownType ty))"

definition IsReplicationStream :: "Node \<Rightarrow> bool" where
  "IsReplicationStream n \<longleftrightarrow> Stream n = ''replication''"

definition After :: "FaultStep \<Rightarrow> duration" where
  "After s = wrap64 (AfterMs s * Millisecond)"

definition For :: "FaultStep \<Rightarrow> duration" where
  "For s = wrap64 (ForMs s * Millisecond)"

text \<open>Go's conversion of a float to an integer truncates towards zero.\<close>

definition go_trunc :: "real \<Rightarrow> int" where
  "go_trunc v = (if v < 0 then \<lceil>v\<rceil> else \<lfloor>v\<rfloor>)"

definition IntParam :: "FaultStep \<Rightarrow> string \<Rightarrow> int \<Rightarrow> int" where
  "IntParam s key def =
     (case Params s key of
        Some (VInt v) \<Rightarrow> v
      | Some (VInt64 v) \<Rightarrow> v
      | Some (VFloat v) \<Rightarrow> if v = of_int (go_trunc v) then go_trunc v else def
      | _ \<Rightarrow> def)"

definition Int64Param :: "FaultStep \<Rightarrow> string \<Rightarrow> int \<Rightarrow> int" where
  "Int64Param s key def =
     (case Params s key of
        Some (VInt v) \<Rightarrow> v
      | Some (VInt64 v) \<Rightarrow> v
      | Some (VFloat v) \<Rightarrow> go_trunc v
      | _ \<Rightarrow> def)"

definition FloatParam :: "FaultStep \<Rightarrow> string \<Rightarrow> real \<Rightarrow> real" where
  "FloatParam s key def =
     (case Params s key of
        Some (VFloat v) \<Rightarrow> v
      | Some (VInt v) \<Rightarrow> of_int v
      | Some (VInt64 v) \<Rightarrow> of_int v
      | _ \<Rightarrow> def)"

definition StringParam :: "FaultStep \<Rightarrow> string \<Rightarrow> string \<Rightarrow> string" where
  "StringParam s key def = (case Params s key of Some (VString v) \<Rightarrow> v | _ \<Rightarrow> def)"

definition DurationParam :: "FaultStep \<Rightarrow> string \<Rightarrow> duration \<Rightarrow> duration" where
  "DurationParam s key def =
     (case Params s key of
        Some (VString v) \<Rightarrow> (case ParseDuration v of Some d \<Rightarrow> d | None \<Rightarrow> def)
      | Some (VFloat v) \<Rightarrow> wrap64 (go_trunc v * Millisecond)
      | Some (VInt v) \<Rightarrow> wrap64 (v * Millisecond)
      | Some (VInt64 v) \<Rightarrow> wrap64 (v * Millisecond)
      | _ \<Rightarrow> def)"

definition stream_known :: "string \<Rightarrow> bool" where
  "stream_known s \<longleftrightarrow> s = [] \<or> s = ''query'' \<or> s = ''replication''"

fun validate_nodes :: "string set \<Rightarrow> Node list \<Rightarrow> config_error + string set" where
  "validate_nodes seen [] = Inr seen"
| "validate_nodes seen (n # ns) =
     (if Name n = [] then Inl EmptyName
      else if Name n \<in> seen then Inl (DuplicateName (Name n))
      else if \<not> stream_known (Stream n) then Inl (UnknownStream (Name n) (Stream n))
      else case (case Target n of None \<Rightarrow> None | Some t \<Rightarrow> Target_Validate t) of
             Some e \<Rightarrow> Inl (BadTarget (Name n) e)
           | None \<Rightarrow> validate_nodes (insert (Name n) seen) ns)"

fun validate_steps :: "string set \<Rightarrow> string \<Rightarrow> nat \<Rightarrow> FaultStep list \<Rightarrow> config_error option" where
  "validate_steps seen sc i [] = None"
| "validate_steps seen sc i (st # sts) =
     (if step_Node st \<noteq> ''*'' \<and> step_Node st \<notin> seen then Some (UnknownNode sc i (step_Node st))
      else if Kind st = [] then Some (NoKind sc i)
      else validate_steps seen sc (Suc i) sts)"

fun validate_scenarios :: "string set \<Rightarrow> Scenario list \<Rightarrow> config_error option" where
  "validate_scenarios seen [] = None"
| "validate_scenarios seen (sc # scs) =
     (case validate_steps seen (sc_Name sc) 0 (Steps sc) of
        Some e \<Rightarrow> Some e
      | None \<Rightarrow> validate_scenarios seen scs)"

definition Config_Validate :: "Config \<Rightarrow> config_error option" where
  "Config_Validate c =
     (if Nodes c = [] then Some NoNodes
      else case validate_nodes {} (Nodes c) of
             Inl e \<Rightarrow> Some e
           | Inr seen \<Rightarrow> validate_scenarios seen (Scenarios c))"

definition FindNode :: "Config \<Rightarrow> string \<Rightarrow> Node option" where
  "FindNode c name = find (\<lambda>n. Name n = name) (Nodes c)"

definition FindScenario :: "Config \<Rightarrow> string \<Rightarrow> Scenario option" where
  "FindScenario c name = find (\<lambda>s. sc_Name s = name) (Scenarios c)"

definition Load ::
  "(string \<Rightarrow> string + 'b) \<Rightarrow> ('b \<Rightarrow> string + Config) \<Rightarrow> string \<Rightarrow> string \<Rightarrow> config_error + Config" where
  "Load readFile unmarshal env path =
     (case readFile path of
        Inl e \<Rightarrow> Inl (ReadError e)
      | Inr b \<Rightarrow>
          (case unmarshal b of
             Inl e \<Rightarrow> Inl (ParseError e)
           | Inr c \<Rightarrow>
               (case Config_Validate c of
                  Some e \<Rightarrow> Inl e
                | None \<Rightarrow>
                    (let c1 = (if ControlAddr c = [] then c\<lparr>ControlAddr := ''127.0.0.1:8080''\<rparr> else c);
                         c2 = (if env \<noteq> [] then c1\<lparr>ControlToken := env\<rparr> else c1)
                     in Inr c2))))"

section \<open>Facts\<close>

definition node_valid :: "Node \<Rightarrow> bool" where
  "node_valid n \<longleftrightarrow> Name n \<noteq> [] \<and> stream_known (Stream n)
     \<and> (case Target n of None \<Rightarrow> True | Some t \<Rightarrow> Target_Validate t = None)"

lemma validate_nodes_Inr:
  "validate_nodes seen ns = Inr s \<longleftrightarrow>
     s = seen \<union> Name ` set ns \<and> list_all node_valid ns \<and> distinct (map Name ns) \<and> seen \<inter> Name ` set ns = {}"
  by (induction ns arbitrary: seen) (auto simp: node_valid_def split: option.splits)

lemma validate_steps_None:
  "validate_steps seen sc i sts = None \<longleftrightarrow>
     list_all (\<lambda>st. (step_Node st = ''*'' \<or> step_Node st \<in> seen) \<and> Kind st \<noteq> []) sts"
  by (induction sts arbitrary: i) auto

lemma validate_scenarios_None:
  "validate_scenarios seen scs = None \<longleftrightarrow>
     list_all (\<lambda>sc. list_all (\<lambda>st. (step_Node st = ''*'' \<or> step_Node st \<in> seen) \<and> Kind st \<noteq> []) (Steps sc)) scs"
proof (induction scs)
  case (Cons sc scs)
  with validate_steps_None [of seen "sc_Name sc" 0 "Steps sc"] show ?case
    by (cases "validate_steps seen (sc_Name sc) 0 (Steps sc)") simp_all
qed simp

lemma find_unique:
  assumes "distinct (map f xs)"
  shows "find (\<lambda>x. f x = k) xs = Some x \<longleftrightarrow> x \<in> set xs \<and> f x = k"
  using assms by (induction xs) (auto simp: image_iff)

section \<open>Properties\<close>

text \<open>
  C13: a configuration validates exactly when it has a node, node names are non-empty and
  distinct, streams are known, targets are complete, and every scenario step names a
  configured node (or all nodes) and a kind.
\<close>

theorem validate_iff:
  "Config_Validate c = None \<longleftrightarrow>
     Nodes c \<noteq> [] \<and> list_all node_valid (Nodes c) \<and> distinct (map Name (Nodes c))
     \<and> list_all (\<lambda>sc. list_all (\<lambda>st. (step_Node st = ''*'' \<or> step_Node st \<in> Name ` set (Nodes c)) \<and> Kind st \<noteq> [])
                        (Steps sc)) (Scenarios c)"
proof (cases "validate_nodes {} (Nodes c)")
  case (Inl e)
  then have "\<not> (list_all node_valid (Nodes c) \<and> distinct (map Name (Nodes c)))"
    using validate_nodes_Inr [of "{}" "Nodes c" "Name ` set (Nodes c)"] by auto
  with Inl show ?thesis by (auto simp: Config_Validate_def)
next
  case (Inr s)
  with validate_nodes_Inr [of "{}" "Nodes c" s]
  show ?thesis by (auto simp: Config_Validate_def validate_scenarios_None)
qed

text \<open>
  Loading yields only validated configurations with a control address, and in them a
  lookup by name finds exactly the configured node of that name.
\<close>

theorem load_valid:
  assumes "Load readFile unmarshal env path = Inr c"
  shows "Config_Validate c = None \<and> ControlAddr c \<noteq> []
     \<and> (FindNode c name = Some n \<longleftrightarrow> n \<in> set (Nodes c) \<and> Name n = name)"
proof -
  from assms obtain b c0 where c0: "readFile path = Inr b" "unmarshal b = Inr c0" "Config_Validate c0 = None"
    and c: "c = (let c1 = (if ControlAddr c0 = [] then c0\<lparr>ControlAddr := ''127.0.0.1:8080''\<rparr> else c0)
                 in if env \<noteq> [] then c1\<lparr>ControlToken := env\<rparr> else c1)"
    by (auto simp: Load_def Let_def split: sum.splits option.splits)
  have f: "Nodes c = Nodes c0" "Scenarios c = Scenarios c0" "ControlAddr c \<noteq> []"
    by (auto simp: c Let_def)
  have v: "Config_Validate c = None" using c0(3) unfolding Config_Validate_def f(1,2) .
  then have "distinct (map Name (Nodes c))" by (auto simp: Config_Validate_def validate_nodes_Inr split: if_splits sum.splits)
  with v f(3) show ?thesis by (simp add: FindNode_def find_unique)
qed

definition ex_node_cfg :: "string \<Rightarrow> Node" where
  "ex_node_cfg nm = \<lparr>Name = nm, ListenAddr = [], UpstreamAddr = ''127.0.0.1:5432'', CheckCommand = [],
     Target = None, NodeRole = [], Stream = []\<rparr>"

definition ex_config :: Config where
  "ex_config = \<lparr>Nodes = [ex_node_cfg ''primary'', ex_node_cfg ''replica''], Scenarios = [], ControlAddr = [], ControlToken = []\<rparr>"

theorem load_valid_witness:
  "\<exists>c. Load (\<lambda>_. Inr ()) (\<lambda>_. Inr ex_config) [] ''config.yaml'' = Inr c
     \<and> FindNode c ''replica'' = Some (ex_node_cfg ''replica'')"
proof -
  let ?c = "ex_config\<lparr>ControlAddr := ''127.0.0.1:8080''\<rparr>"
  have l: "Load (\<lambda>_. Inr ()) (\<lambda>_. Inr ex_config) [] ''config.yaml'' = Inr ?c"
    by (simp add: Load_def ex_config_def Config_Validate_def ex_node_cfg_def stream_known_def Let_def)
  from load_valid [OF l, of "''replica''" "ex_node_cfg ''replica''"] l show ?thesis
    by (auto simp: ex_config_def ex_node_cfg_def)
qed

text \<open>
  A duration parameter means the same as the string \<open>"<n>ms"\<close> and as the number
  \<open>n\<close>, whichever of the three numeric types the decoder produced, as long as the
  nanosecond count fits in 63 bits.
\<close>

theorem duration_forms_agree:
  assumes "n * 1000000 < 2 ^ 63" "v \<in> {VString (show_nat n @ ''ms''), VInt (int n), VInt64 (int n), VFloat (real n)}"
    and "Params s key = Some v"
  shows "DurationParam s key def = int n * Millisecond"
proof -
  have "wrap64 (int n * Millisecond) = int n * Millisecond"
    using assms(1) by (intro wrap64_id) (auto simp: Millisecond_def)
  moreover have "go_trunc (real n) = int n" by (simp add: go_trunc_def)
  ultimately show ?thesis
    using assms ParseDuration_ms [OF assms(1)] by (auto simp: DurationParam_def Millisecond_def)
qed

definition ex_step :: "string \<Rightarrow> string \<Rightarrow> (string \<rightharpoonup> any_val) \<Rightarrow> int \<Rightarrow> FaultStep" where
  "ex_step nd k ps fm = \<lparr>step_Node = nd, Kind = k, LatencyMs = 0, DropPercent = 0, Params = ps, AfterMs = 0, ForMs = fm\<rparr>"

theorem duration_forms_agree_witness:
  "DurationParam (ex_step ''n'' ''latency'' [''delay'' \<mapsto> VString ''500ms''] 0) ''delay'' 0 = 500000000"
proof -
  have "show_nat 500 @ ''ms'' = ''500ms''" by code_simp
  with duration_forms_agree [of 500 "VString ''500ms''" "ex_step ''n'' ''latency'' [''delay'' \<mapsto> VString ''500ms''] 0" "''delay''" 0]
  show ?thesis by (simp add: ex_step_def Millisecond_def)
qed

end
