(* ===== verification/Driver.thy ===== *)
theory Driver
  imports Configuration
begin

text \<open>
  Node drivers (\<^verbatim>\<open>internal/faults/driver.go\<close>): how an operation on a node becomes a
  command line, run here or over ssh. Running a program (\<^verbatim>\<open>os/exec\<close>) is the parameter
  \<open>sys\<close> of every definition: it gives, for an argument vector and the state of the
  machines, success, the combined output and the new state.
\<close>

type_synonym 's system = "string list \<Rightarrow> 's \<Rightarrow> (bool \<times> string) \<times> 's"

datatype driver_error =
    ExecFailed "string list" string
  | ErrUnsupported string string
  | NoPid
  | ReadPidFailed string driver_error
  | BadPid string string

section \<open>Strings\<close>

text \<open>\<^verbatim>\<open>strings.TrimSpace\<close> for ASCII white space.\<close>

definition is_space :: "char \<Rightarrow> bool" where
  "is_space c \<longleftrightarrow> c \<in> {CHR 0x09, CHR 0x0A, CHR 0x0B, CHR 0x0C, CHR 0x0D, CHR '' ''}"

definition TrimSpace :: "string \<Rightarrow> string" where
  "TrimSpace s = rev (dropWhile is_space (rev (dropWhile is_space s)))"

text \<open>\<^verbatim>\<open>strconv.Atoi\<close>: an optional sign, then digits only, within 64 bits.\<close>

definition Atoi :: "string \<Rightarrow> int option" where
  "Atoi s =
     (let neg = (s \<noteq> [] \<and> hd s = CHR ''-'');
          ds = (if s \<noteq> [] \<and> (hd s = CHR ''-'' \<or> hd s = CHR ''+'') then tl s else s);
          v = foldl (\<lambda>n c. 10 * n + int (digit_val c)) 0 ds;
          i = (if neg then - v else v)
      in if ds = [] \<or> \<not> list_all is_digit ds \<or> i < - (2 ^ 63) \<or> i \<ge> 2 ^ 63 then None else Some i)"

definition join_words :: "string list \<Rightarrow> string" where
  "join_words ws = (case ws of [] \<Rightarrow> [] | w # vs \<Rightarrow> w @ concat (map (\<lambda>v. CHR '' '' # v) vs))"

text \<open>\<^verbatim>\<open>%.2f\<close>: two decimals, ties to even.\<close>

definition round_even :: "real \<Rightarrow> int" where
  "round_even x = (if frac x < 1 / 2 \<or> (frac x = 1 / 2 \<and> even \<lfloor>x\<rfloor>) then \<lfloor>x\<rfloor> else \<lfloor>x\<rfloor> + 1)"

definition show_2f :: "real \<Rightarrow> string" where
  "show_2f x =
     (let n = nat (round_even (\<bar>x\<bar> * 100))
      in (if x < 0 then ''-'' else []) @ show_nat (n div 100) @ ''.'' @ show_nat (n mod 100 div 10) @ show_nat (n mod 10))"

section \<open>Executors\<close>

datatype Executor = LocalExecutor | SSHExecutor string "Executor option"

definition quote :: char where "quote = CHR 0x27"

definition shell_special :: "char \<Rightarrow> bool" where
  "shell_special c \<longleftrightarrow> c \<in> {CHR '' '', CHR 0x09, CHR 0x0A, CHR 0x27, CHR 0x22, CHR 0x5C, CHR ''$'', CHR 0x60, CHR ''&'',
     CHR ''|'', CHR '';'', CHR ''<'', CHR ''>'', CHR ''('', CHR '')'', CHR ''*'', CHR ''?'', CHR ''['', CHR '']'',
     CHR ''#'', CHR ''~''}"

definition escape_quotes :: "string \<Rightarrow> string" where
  "escape_quotes s = concat (map (\<lambda>c. if c = quote then [quote, CHR 0x5C, quote, quote] else [c]) s)"

definition shellQuote :: "string \<Rightarrow> string" where
  "shellQuote s =
     (if s = [] then [quote, quote]
      else if \<not> list_ex shell_special s then s
      else [quote] @ escape_quotes s @ [quote])"

definition ssh_argv :: "string \<Rightarrow> string list \<Rightarrow> string list" where
  "ssh_argv host argv = [''ssh'', ''-o'', ''BatchMode=yes'', host, ''--'', join_words (map shellQuote argv)]"

definition local_Run :: "'s system \<Rightarrow> string list \<Rightarrow> 's \<Rightarrow> (driver_error + string) \<times> 's" where
  "local_Run sys argv s =
     (case sys argv s of ((ok, out), s') \<Rightarrow> (if ok then Inr out else Inl (ExecFailed argv (TrimSpace out)), s'))"

fun Executor_Run :: "'s system \<Rightarrow> Executor \<Rightarrow> string list \<Rightarrow> 's \<Rightarrow> (driver_error + string) \<times> 's" where
  "Executor_Run sys LocalExecutor argv s = local_Run sys argv s"
| "Executor_Run sys (SSHExecutor host None) argv s = local_Run sys (ssh_argv host argv) s"
| "Executor_Run sys (SSHExecutor host (Some inner)) argv s = Executor_Run sys inner (ssh_argv host argv) s"

definition executor :: "Executor option \<Rightarrow> Executor" where
  "executor e = (case e of None \<Rightarrow> LocalExecutor | Some x \<Rightarrow> x)"

section \<open>Signals\<close>

datatype Signal = SIGKILL | SIGTERM | SIGSTOP | SIGCONT | SIGHUP | SIGINT | OtherSignal string

definition to_upper :: "string \<Rightarrow> string" where
  "to_upper s = map (\<lambda>c. if CHR ''a'' \<le> c \<and> c \<le> CHR ''z'' then char_of (of_char c - 32 :: nat) else c) s"

primrec signalName :: "Signal \<Rightarrow> string" where
  "signalName SIGKILL = ''KILL''"
| "signalName SIGTERM = ''TERM''"
| "signalName SIGSTOP = ''STOP''"
| "signalName SIGCONT = ''CONT''"
| "signalName SIGHUP = ''HUP''"
| "signalName SIGINT = ''INT''"
| "signalName (OtherSignal text) =
     (if take 3 (to_upper text) = ''SIG'' then drop 3 (to_upper text) else to_upper text)"

section \<open>Drivers\<close>

record ProcessDriver =
  pd_PID :: int
  pd_PIDFile :: string
  pd_StartCommand :: string
  pd_Exec :: "Executor option"

record SystemdDriver =
  sd_Unit :: string
  sd_Exec :: "Executor option"

record DockerDriver =
  dd_Container :: string
  dd_Network :: string
  dd_Exec :: "Executor option"

datatype NodeDriver = Process ProcessDriver | Systemd SystemdDriver | Docker DockerDriver

primrec Driver_Kind :: "NodeDriver \<Rightarrow> string" where
  "Driver_Kind (Process d) = ''process''"
| "Driver_Kind (Systemd d) = ''systemd''"
| "Driver_Kind (Docker d) = ''docker''"

primrec Describe :: "NodeDriver \<Rightarrow> string" where
  "Describe (Process d) = ''process:'' @ (if pd_PID d > 0 then show_int (pd_PID d) else pd_PIDFile d)"
| "Describe (Systemd d) = ''systemd:'' @ sd_Unit d"
| "Describe (Docker d) = ''docker:'' @ dd_Container d"

text \<open>An operation reports its error, or \<open>None\<close> for nil.\<close>

definition run_ok :: "'s system \<Rightarrow> Executor option \<Rightarrow> string list \<Rightarrow> 's \<Rightarrow> driver_error option \<times> 's" where
  "run_ok sys e argv s =
     (case Executor_Run sys (executor e) argv s of (Inl err, s') \<Rightarrow> (Some err, s') | (Inr out, s') \<Rightarrow> (None, s'))"

definition driver_pid :: "'s system \<Rightarrow> ProcessDriver \<Rightarrow> 's \<Rightarrow> (driver_error + int) \<times> 's" where
  "driver_pid sys d s =
     (if pd_PID d > 0 then (Inr (pd_PID d), s)
      else if pd_PIDFile d = [] then (Inl NoPid, s)
      else (case Executor_Run sys (executor (pd_Exec d)) [''cat'', pd_PIDFile d] s of
              (Inl err, s') \<Rightarrow> (Inl (ReadPidFailed (pd_PIDFile d) err), s')
            | (Inr out, s') \<Rightarrow>
                (let first = TrimSpace (takeWhile (\<lambda>c. c \<noteq> CHR 0x0A) (TrimSpace out))
                 in case Atoi first of
                      Some pid \<Rightarrow> (if pid \<le> 0 then Inl (BadPid (pd_PIDFile d) first) else Inr pid, s')
                    | None \<Rightarrow> (Inl (BadPid (pd_PIDFile d) first), s'))))"

definition driver_kill :: "'s system \<Rightarrow> ProcessDriver \<Rightarrow> string \<Rightarrow> 's \<Rightarrow> driver_error option \<times> 's" where
  "driver_kill sys d sig s =
     (case driver_pid sys d s of
        (Inl err, s') \<Rightarrow> (Some err, s')
      | (Inr pid, s') \<Rightarrow> run_ok sys (pd_Exec d) [''kill'', ''-'' @ sig, show_int pid] s')"

definition ctl :: "'s system \<Rightarrow> SystemdDriver \<Rightarrow> string list \<Rightarrow> 's \<Rightarrow> driver_error option \<times> 's" where
  "ctl sys d args s = run_ok sys (sd_Exec d) (''systemctl'' # args) s"

definition docker :: "'s system \<Rightarrow> DockerDriver \<Rightarrow> string list \<Rightarrow> 's \<Rightarrow> driver_error option \<times> 's" where
  "docker sys d args s = run_ok sys (dd_Exec d) (''docker'' # args) s"

text \<open>The methods of \<open>NodeDriver\<close>, and what each of the three drivers does for them.\<close>

datatype driver_op =
    OpSignal Signal | OpStart | OpFreeze | OpThaw | OpLimitCPU real | OpUnlimitCPU
  | OpLimitMemory int | OpUnlimitMemory | OpExec string

primrec process_do :: "'s system \<Rightarrow> ProcessDriver \<Rightarrow> driver_op \<Rightarrow> 's \<Rightarrow> driver_error option \<times> 's" where
  "process_do sys d (OpSignal sig) s = driver_kill sys d (signalName sig) s"
| "process_do sys d OpStart s =
     (if pd_StartCommand d = [] then (Some (ErrUnsupported ''process driver'' ''start (set start_command)''), s)
      else run_ok sys (pd_Exec d) [''sh'', ''-c'', pd_StartCommand d] s)"
| "process_do sys d OpFreeze s = driver_kill sys d ''STOP'' s"
| "process_do sys d OpThaw s = driver_kill sys d ''CONT'' s"
| "process_do sys d (OpLimitCPU cpus) s =
     (Some (ErrUnsupported ''process driver'' ''cpu limit (use a systemd or docker target)''), s)"
| "process_do sys d OpUnlimitCPU s = (None, s)"
| "process_do sys d (OpLimitMemory bytes) s =
     (Some (ErrUnsupported ''process driver'' ''memory limit (use a systemd or docker target)''), s)"
| "process_do sys d OpUnlimitMemory s = (None, s)"
| "process_do sys d (OpExec script) s = run_ok sys (pd_Exec d) [''sh'', ''-c'', script] s"

primrec systemd_do :: "'s system \<Rightarrow> SystemdDriver \<Rightarrow> driver_op \<Rightarrow> 's \<Rightarrow> driver_error option \<times> 's" where
  "systemd_do sys d (OpSignal sig) s = ctl sys d [''kill'', ''--signal='' @ signalName sig, sd_Unit d] s"
| "systemd_do sys d OpStart s = ctl sys d [''start'', sd_Unit d] s"
| "systemd_do sys d OpFreeze s = ctl sys d [''kill'', ''--signal=STOP'', sd_Unit d] s"
| "systemd_do sys d OpThaw s = ctl sys d [''kill'', ''--signal=CONT'', sd_Unit d] s"
| "systemd_do sys d (OpLimitCPU cpus) s =
     ctl sys d [''set-property'', ''--runtime'', sd_Unit d,
                ''CPUQuota='' @ show_int (go_trunc (cpus * 100 + 1 / 2)) @ ''%''] s"
| "systemd_do sys d OpUnlimitCPU s = ctl sys d [''set-property'', ''--runtime'', sd_Unit d, ''CPUQuota=''] s"
| "systemd_do sys d (OpLimitMemory bytes) s =
     ctl sys d [''set-property'', ''--runtime'', sd_Unit d, ''MemoryMax='' @ show_int bytes] s"
| "systemd_do sys d OpUnlimitMemory s = ctl sys d [''set-property'', ''--runtime'', sd_Unit d, ''MemoryMax=infinity''] s"
| "systemd_do sys d (OpExec script) s = run_ok sys (sd_Exec d) [''sh'', ''-c'', script] s"

primrec docker_do :: "'s system \<Rightarrow> DockerDriver \<Rightarrow> driver_op \<Rightarrow> 's \<Rightarrow> driver_error option \<times> 's" where
  "docker_do sys d (OpSignal sig) s = docker sys d [''kill'', ''--signal'', signalName sig, dd_Container d] s"
| "docker_do sys d OpStart s = docker sys d [''start'', dd_Container d] s"
| "docker_do sys d OpFreeze s = docker sys d [''pause'', dd_Container d] s"
| "docker_do sys d OpThaw s = docker sys d [''unpause'', dd_Container d] s"
| "docker_do sys d (OpLimitCPU cpus) s = docker sys d [''update'', ''--cpus'', show_2f cpus, dd_Container d] s"
| "docker_do sys d OpUnlimitCPU s = docker sys d [''update'', ''--cpus'', ''0'', dd_Container d] s"
| "docker_do sys d (OpLimitMemory bytes) s =
     docker sys d [''update'', ''--memory'', show_int bytes, ''--memory-swap'', show_int bytes, dd_Container d] s"
| "docker_do sys d OpUnlimitMemory s = docker sys d [''update'', ''--memory'', ''-1'', ''--memory-swap'', ''-1'', dd_Container d] s"
| "docker_do sys d (OpExec script) s = docker sys d [''exec'', dd_Container d, ''sh'', ''-c'', script] s"

primrec driver_do :: "'s system \<Rightarrow> NodeDriver \<Rightarrow> driver_op \<Rightarrow> 's \<Rightarrow> driver_error option \<times> 's" where
  "driver_do sys (Process d) = process_do sys d"
| "driver_do sys (Systemd d) = systemd_do sys d"
| "driver_do sys (Docker d) = docker_do sys d"

definition docker_network :: "DockerDriver \<Rightarrow> string" where
  "docker_network d = (if dd_Network d = [] then ''bridge'' else dd_Network d)"

definition Driver_Isolate :: "'s system \<Rightarrow> DockerDriver \<Rightarrow> 's \<Rightarrow> driver_error option \<times> 's" where
  "Driver_Isolate sys d = docker sys d [''network'', ''disconnect'', docker_network d, dd_Container d]"

definition Driver_Reconnect :: "'s system \<Rightarrow> DockerDriver \<Rightarrow> 's \<Rightarrow> driver_error option \<times> 's" where
  "Driver_Reconnect sys d = docker sys d [''network'', ''connect'', docker_network d, dd_Container d]"

section \<open>Resolving a target\<close>

datatype TargetSpec = TargetSpec
  (ts_Type: string) (ts_PID: int) (ts_PIDFile: string) (ts_StartCommand: string)
  (ts_Container: string) (ts_Network: string) (ts_Unit: string) (ts_Host: string)
  (ts_Inner: "TargetSpec option")

fun newDriver :: "TargetSpec \<Rightarrow> Executor option \<Rightarrow> config_error + NodeDriver" where
  "newDriver (TargetSpec ty pid pidfile startc cont netw unit host inner) ex =
     (if ty = ''process'' then
        (if pid \<le> 0 \<and> pidfile = [] then Inl NeedPid
         else Inr (Process \<lparr>pd_PID = pid, pd_PIDFile = pidfile, pd_StartCommand = startc, pd_Exec = ex\<rparr>))
      else if ty = ''docker'' then
        (if cont = [] then Inl NeedContainer
         else Inr (Docker \<lparr>dd_Container = cont, dd_Network = netw, dd_Exec = ex\<rparr>))
      else if ty = ''systemd'' then
        (if unit = [] then Inl NeedUnit else Inr (Systemd \<lparr>sd_Unit = unit, sd_Exec = ex\<rparr>))
      else if ty = ''ssh'' then
        (case inner of
           None \<Rightarrow> Inl NeedHostAndInnerTarget
         | Some t \<Rightarrow>
             if host = [] then Inl NeedHostAndInnerTarget
             else if ts_Type t = ''ssh'' then Inl InnerIsSsh
             else newDriver t (Some (SSHExecutor host ex)))
      else if ty = [] then Inl TypeRequired
      else Inl (UnknownType ty))"

definition NewDriver :: "TargetSpec \<Rightarrow> config_error + NodeDriver" where
  "NewDriver t = newDriver t None"

text \<open>\<open>toSpec\<close> of \<^verbatim>\<open>internal/scenario/scenario.go\<close>.\<close>

fun toSpec :: "NodeTarget \<Rightarrow> TargetSpec" where
  "toSpec (NodeTarget ty pid pidfile startc cont netw unit host inner) =
     TargetSpec ty pid pidfile startc cont netw unit host (map_option toSpec inner)"

section \<open>Another executor\<close>

primrec with_exec :: "Executor option \<Rightarrow> NodeDriver \<Rightarrow> NodeDriver" where
  "with_exec e (Process d) = Process (d\<lparr>pd_Exec := e\<rparr>)"
| "with_exec e (Systemd d) = Systemd (d\<lparr>sd_Exec := e\<rparr>)"
| "with_exec e (Docker d) = Docker (d\<lparr>dd_Exec := e\<rparr>)"

section \<open>How a POSIX shell reads the command line\<close>

text \<open>
  The specification that quoting is checked against, from the standard's chapter on the shell
  command language and independent of the program. Section 2.2 lists the characters to be
  quoted if they are to represent themselves; those that act anywhere in a word are
  \<open>posix_special\<close>, next to the blanks and the two quoting characters that \<open>sh_lex\<close> deals with. The
  other characters of that list, the equals and percent signs, act on the command's own word or
  in arithmetic only. \<open>sh_lex\<close> splits a line at blanks, taking what is between single quotes or
  after a backslash literally; a line with any other quoting, expansion, pattern, redirection,
  comment or control operator is refused.
\<close>

definition posix_special :: "char \<Rightarrow> bool" where
  "posix_special c \<longleftrightarrow> c \<in> set ''|&;<>()$*?[#~'' \<or> c \<in> {CHR 0x60, CHR 0x22, CHR 0x0A}"

definition word_of_cur :: "string option \<Rightarrow> string" where
  "word_of_cur cur = (case cur of None \<Rightarrow> [] | Some w \<Rightarrow> w)"

fun sh_lex :: "bool \<Rightarrow> string option \<Rightarrow> string \<Rightarrow> string list option" where
  "sh_lex True cur [] = None"
| "sh_lex True cur (c # cs) =
     (if c = quote then sh_lex False cur cs else sh_lex True (Some (word_of_cur cur @ [c])) cs)"
| "sh_lex False None [] = Some []"
| "sh_lex False (Some w) [] = Some [w]"
| "sh_lex False cur (c # cs) =
     (if c = quote then sh_lex True (Some (word_of_cur cur)) cs
      else if c = CHR 0x5C then (case cs of [] \<Rightarrow> None | d # ds \<Rightarrow> sh_lex False (Some (word_of_cur cur @ [d])) ds)
      else if c = CHR '' '' \<or> c = CHR 0x09 then
        (case cur of None \<Rightarrow> sh_lex False None cs | Some w \<Rightarrow> map_option ((#) w) (sh_lex False None cs))
      else if posix_special c then None
      else sh_lex False (Some (word_of_cur cur @ [c])) cs)"

text \<open>
  A line that is one simple command with nothing to expand: its first word is a command name,
  neither a reserved word (section 2.4) nor a variable assignment (section 2.9.1).
\<close>

definition command_name :: "string \<Rightarrow> bool" where
  "command_name w \<longleftrightarrow> w \<noteq> [] \<and> CHR ''='' \<notin> set w
     \<and> w \<notin> {''!'', ''{'', ''}'', ''case'', ''do'', ''done'', ''elif'', ''else'', ''esac'', ''fi'', ''for'', ''if'', ''in'',
          ''then'', ''until'', ''while''}"

definition sh_command :: "string \<Rightarrow> string list option" where
  "sh_command line =
     (case sh_lex False None line of
        Some (w # ws) \<Rightarrow> if command_name w then Some (w # ws) else None
      | _ \<Rightarrow> None)"

text \<open>Every character that the shell would act on is in the program's list.\<close>

lemma quotes_specials: "posix_special c \<Longrightarrow> shell_special c"
  by (auto simp: posix_special_def shell_special_def)

lemma sh_lex_plain:
  "\<not> list_ex shell_special s \<Longrightarrow> s \<noteq> [] \<Longrightarrow> sh_lex False cur (s @ rest) = sh_lex False (Some (word_of_cur cur @ s)) rest"
proof (induction s arbitrary: cur)
  case (Cons c s)
  then have "\<not> shell_special c" by simp
  then have c: "\<not> posix_special c" "c \<noteq> quote" "c \<noteq> CHR 0x5C" "c \<noteq> CHR '' ''" "c \<noteq> CHR 0x09"
    using quotes_specials [of c] by (auto simp: shell_special_def quote_def)
  show ?case
  proof (cases "s = []")
    case True
    with c show ?thesis by simp
  next
    case False
    with Cons.IH [of "Some (word_of_cur cur @ [c])"] Cons.prems c show ?thesis by (simp add: word_of_cur_def)
  qed
qed simp

lemma sh_lex_quoted:
  "sh_lex True (Some w) (escape_quotes s @ quote # rest) = sh_lex False (Some (w @ s)) rest"
proof (induction s arbitrary: w)
  case (Cons c s)
  then show ?case
    by (cases "c = quote") (simp_all add: escape_quotes_def word_of_cur_def quote_def)
qed (simp add: escape_quotes_def)

lemma sh_lex_shellQuote: "sh_lex False cur (shellQuote s @ rest) = sh_lex False (Some (word_of_cur cur @ s)) rest"
proof -
  have "sh_lex False cur (quote # quote # rest) = sh_lex False (Some (word_of_cur cur)) rest" by simp
  moreover have "sh_lex False cur (quote # escape_quotes s @ quote # rest) = sh_lex False (Some (word_of_cur cur @ s)) rest"
    by (simp add: sh_lex_quoted)
  ultimately show ?thesis by (auto simp: shellQuote_def sh_lex_plain)
qed

lemma sh_lex_words:
  "sh_lex False (Some w) (concat (map (\<lambda>v. CHR '' '' # v) (map shellQuote vs))) = Some (w # vs)"
proof (induction vs arbitrary: w)
  case (Cons v vs)
  have "CHR '' '' \<noteq> quote" by (simp add: quote_def)
  with Cons show ?case by (simp add: sh_lex_shellQuote word_of_cur_def)
qed simp

lemma sh_lex_join: "sh_lex False None (join_words (map shellQuote argv)) = Some argv"
proof (cases argv)
  case (Cons v vs)
  then show ?thesis
    using sh_lex_shellQuote [of None v] sh_lex_words [of v vs] by (simp add: join_words_def word_of_cur_def)
qed (simp add: join_words_def)

lemma sh_command_join:
  assumes "argv \<noteq> []" "command_name (hd argv)"
  shows "sh_command (join_words (map shellQuote argv)) = Some argv"
  using assms by (cases argv) (simp_all add: sh_command_def sh_lex_join del: list.map)

section \<open>Operating over ssh\<close>

text \<open>
  What ssh and the shell on the other side document: ssh hands the line to that shell, a line
  that is one simple command runs it with its words as arguments, and its success and output
  come back. Nothing is said about any other line.
\<close>

definition same_outcome :: "(driver_error + string) \<times> 's \<Rightarrow> (driver_error + string) \<times> 's \<Rightarrow> bool" where
  "same_outcome a b \<longleftrightarrow> snd a = snd b \<and> (case (fst a, fst b) of
     (Inr x, Inr y) \<Rightarrow> x = y | (Inl _, Inl _) \<Rightarrow> True | _ \<Rightarrow> False)"

definition outcome :: "driver_error option \<times> 's \<Rightarrow> bool \<times> 's" where
  "outcome r = (fst r = None, snd r)"

locale remote_shell =
  fixes sys remote :: "'s system" and host :: string
  assumes ssh_runs: "sh_command line = Some argv \<Longrightarrow>
    sys [''ssh'', ''-o'', ''BatchMode=yes'', host, ''--'', line] s = remote argv s"
begin

lemma run_same:
  assumes "argv \<noteq> []" "command_name (hd argv)"
  shows "same_outcome (Executor_Run sys (executor (Some (SSHExecutor host None))) argv s)
     (Executor_Run remote (executor None) argv s)"
  using ssh_runs [OF sh_command_join [OF assms]]
  by (auto simp: executor_def local_Run_def ssh_argv_def same_outcome_def split: prod.splits)

lemma run_ok_same:
  assumes "argv \<noteq> []" "command_name (hd argv)"
  shows "outcome (run_ok sys (Some (SSHExecutor host None)) argv s) = outcome (run_ok remote None argv s)"
  using run_same [OF assms, of s] by (auto simp: run_ok_def outcome_def same_outcome_def split: prod.splits sum.splits)

text \<open>The commands that drivers run.\<close>

lemma command_names [simp]:
  "command_name ''cat''" "command_name ''kill''" "command_name ''sh''" "command_name ''systemctl''" "command_name ''docker''"
  by (simp_all add: command_name_def)

lemma pid_same:
  "snd (driver_pid sys (d\<lparr>pd_Exec := Some (SSHExecutor host None)\<rparr>) s) = snd (driver_pid remote (d\<lparr>pd_Exec := None\<rparr>) s)
   \<and> (\<forall>pid. fst (driver_pid sys (d\<lparr>pd_Exec := Some (SSHExecutor host None)\<rparr>) s) = Inr pid
        \<longleftrightarrow> fst (driver_pid remote (d\<lparr>pd_Exec := None\<rparr>) s) = Inr pid)"
  using run_same [of "[''cat'', pd_PIDFile d]" s]
  by (auto simp: driver_pid_def same_outcome_def Let_def split: prod.splits sum.splits option.splits if_splits)

lemma kill_same:
  "outcome (driver_kill sys (d\<lparr>pd_Exec := Some (SSHExecutor host None)\<rparr>) sig s)
     = outcome (driver_kill remote (d\<lparr>pd_Exec := None\<rparr>) sig s)"
proof -
  obtain r1 s1 where 1: "driver_pid sys (d\<lparr>pd_Exec := Some (SSHExecutor host None)\<rparr>) s = (r1, s1)" by fastforce
  obtain r2 s2 where 2: "driver_pid remote (d\<lparr>pd_Exec := None\<rparr>) s = (r2, s2)" by fastforce
  from pid_same [of d s] 1 2 have s: "s1 = s2" and r: "\<And>p. r1 = Inr p \<longleftrightarrow> r2 = Inr p" by auto
  show ?thesis
  proof (cases r2)
    case (Inl e)
    with r obtain e' where "r1 = Inl e'" by (cases r1) auto
    with Inl s 1 2 show ?thesis by (simp add: driver_kill_def outcome_def)
  next
    case (Inr p)
    with r have "r1 = Inr p" by simp
    with Inr s 1 2 show ?thesis by (simp add: driver_kill_def run_ok_same)
  qed
qed

lemma do_same:
  "outcome (driver_do sys (with_exec (Some (SSHExecutor host None)) d) op s)
     = outcome (driver_do remote (with_exec None d) op s)"
  by (cases op; cases d) (simp_all add: ctl_def docker_def kill_same run_ok_same)

end

text \<open>A system with one remote host: ssh to it runs what the remote shell reads, all else fails.\<close>

definition ssh_system :: "string \<Rightarrow> 's system \<Rightarrow> 's system" where
  "ssh_system host remote argv s =
     (if length argv = 6 \<and> take 5 argv = [''ssh'', ''-o'', ''BatchMode=yes'', host, ''--'']
      then (case sh_command (argv ! 5) of Some ws \<Rightarrow> remote ws s | None \<Rightarrow> ((False, []), s))
      else ((False, []), s))"

interpretation sshd: remote_shell "ssh_system host remote" remote host for host remote
  by unfold_locales (simp add: ssh_system_def)

section \<open>Properties\<close>

text \<open>The words in which \<open>NewDriver\<close> reports a problem that validation reports as \<open>e\<close>.\<close>

definition driver_text :: "config_error \<Rightarrow> config_error" where
  "driver_text e = (if e = NeedHostAndInner then NeedHostAndInnerTarget else e)"

text \<open>
  C21: configuration and drivers agree on targets. A target block resolves to a driver
  exactly when validation accepts it. Otherwise both report the same problem, in the same words
  but for an ssh target without host or inner target, where the two texts differ.
\<close>

theorem target_resolves_iff_valid:
  "(\<forall>e. NewDriver (toSpec t) = Inl e \<longleftrightarrow> map_option driver_text (Target_Validate t) = Some e)
   \<and> ((\<exists>d. NewDriver (toSpec t) = Inr d) \<longleftrightarrow> Target_Validate t = None)"
proof -
  have ty: "ts_Type (toSpec u) = TType u" for u by (cases u) simp
  have "(\<forall>e. newDriver (toSpec t) ex = Inl e \<longleftrightarrow> map_option driver_text (Target_Validate t) = Some e)
      \<and> ((\<exists>d. newDriver (toSpec t) ex = Inr d) \<longleftrightarrow> Target_Validate t = None)" for ex
    by (induction t arbitrary: ex rule: Target_Validate.induct) (auto simp: ty driver_text_def split: option.splits)
  then show ?thesis by (simp add: NewDriver_def)
qed

text \<open>
  C22: quoting for ssh is exact. The command line sent to the remote host, split by a POSIX
  shell, is the argument vector again, whatever characters the arguments contain: no part of
  it is taken for a quote, an expansion, a pattern, a redirection, a comment or an operator.
\<close>

theorem ssh_args_roundtrip:
  "length (ssh_argv host argv) = 6 \<and> sh_lex False None (last (ssh_argv host argv)) = Some argv"
  by (simp add: ssh_argv_def sh_lex_join)


text \<open>An example of a system: every command succeeds, writes 42 and is recorded.\<close>

definition ex_remote :: "string list list system" where
  "ex_remote argv s = ((True, ''42''), s @ [argv])"


end
