(* ===== verification/Node_Faults.thy ===== *)
theory Node_Faults
  imports Driver
begin

text \<open>
  Node faults (\<^verbatim>\<open>internal/faults/node.go\<close>): what each fault asks of a node's driver
  when it is injected and when it is reverted. The clock is an argument, and so is
  \<open>rfc3339\<close>, the rendering of an instant in the local time zone. The goroutine of the
  crash loop runs in time counted from the injection.
\<close>

datatype node_error = FaultErr string string driver_error | RawErr driver_error

datatype NodeFault =
    CrashFault Signal
  | CrashLoopFault duration duration
  | ClockSkewFault duration
  | DiskIOLatencyFault string int int
  | DiskFullFault string string
  | OOMFault int
  | CPUThrottleFault real
  | ZombieFault

primrec NodeFault_Name :: "NodeFault \<Rightarrow> string" where
  "NodeFault_Name (CrashFault sig) = ''crash''"
| "NodeFault_Name (CrashLoopFault i d) = ''crash_loop''"
| "NodeFault_Name (ClockSkewFault off) = ''clock_skew''"
| "NodeFault_Name (DiskIOLatencyFault dev r w) = ''disk_io_latency''"
| "NodeFault_Name (DiskFullFault m f) = ''disk_full''"
| "NodeFault_Name (OOMFault b) = ''oom''"
| "NodeFault_Name (CPUThrottleFault q) = ''cpu_throttle''"
| "NodeFault_Name ZombieFault = ''zombie''"

definition date_script :: "string \<Rightarrow> string" where
  "date_script t = ''date -s '' @ [quote] @ t @ [quote]"

definition io_limit_script :: "string \<Rightarrow> string" where
  "io_limit_script limit = ''echo '' @ [quote] @ limit @ [quote] @ '' > /sys/fs/cgroup/io.max''"

definition disk_full_script :: "string \<Rightarrow> string \<Rightarrow> string" where
  "disk_full_script mount filler =
     ''AVAIL=$(df --output=avail -B1 '' @ mount @ '' | tail -1); fallocate -l $((AVAIL - 1048576)) ''
     @ mount @ ''/'' @ filler"

text \<open>The driver operation a fault runs, and whether its error is labelled with the fault.\<close>

primrec inject_op :: "(instant \<Rightarrow> string) \<Rightarrow> instant \<Rightarrow> NodeFault \<Rightarrow> (driver_op \<times> string option) option" where
  "inject_op rfc3339 t (CrashFault sig) = Some (OpSignal sig, Some ''crash inject on '')"
| "inject_op rfc3339 t (CrashLoopFault i d) = None"
| "inject_op rfc3339 t (ClockSkewFault off) = Some (OpExec (date_script (rfc3339 (t + off))), Some ''clock skew inject on '')"
| "inject_op rfc3339 t (DiskIOLatencyFault dev r w) =
     Some (OpExec (io_limit_script (dev @ '' rbps='' @ show_int r @ '' wbps='' @ show_int w)), Some ''disk io throttle on '')"
| "inject_op rfc3339 t (DiskFullFault m f) = Some (OpExec (disk_full_script m f), Some ''disk full inject on '')"
| "inject_op rfc3339 t (OOMFault b) = Some (OpLimitMemory b, Some ''oom inject on '')"
| "inject_op rfc3339 t (CPUThrottleFault q) = Some (OpLimitCPU q, Some ''cpu throttle inject on '')"
| "inject_op rfc3339 t ZombieFault = Some (OpFreeze, None)"

primrec revert_op :: "(instant \<Rightarrow> string) \<Rightarrow> instant \<Rightarrow> NodeFault \<Rightarrow> driver_op \<times> string option" where
  "revert_op rfc3339 t (CrashFault sig) = (OpStart, Some ''crash revert (start) on '')"
| "revert_op rfc3339 t (CrashLoopFault i d) = (OpStart, None)"
| "revert_op rfc3339 t (ClockSkewFault off) = (OpExec (date_script (rfc3339 t)), None)"
| "revert_op rfc3339 t (DiskIOLatencyFault dev r w) = (OpExec (io_limit_script (dev @ '' max'')), None)"
| "revert_op rfc3339 t (DiskFullFault m f) = (OpExec (''rm -f '' @ m @ ''/'' @ f), None)"
| "revert_op rfc3339 t (OOMFault b) = (OpUnlimitMemory, None)"
| "revert_op rfc3339 t (CPUThrottleFault q) = (OpUnlimitCPU, None)"
| "revert_op rfc3339 t ZombieFault = (OpThaw, None)"

definition label :: "string option \<Rightarrow> NodeDriver \<Rightarrow> driver_error option \<Rightarrow> node_error option" where
  "label pre d e =
     map_option (\<lambda>err. case pre of Some p \<Rightarrow> FaultErr p (Describe d) err | None \<Rightarrow> RawErr err) e"

definition Inject ::
  "'s system \<Rightarrow> (instant \<Rightarrow> string) \<Rightarrow> instant \<Rightarrow> NodeFault \<Rightarrow> NodeDriver \<Rightarrow> 's \<Rightarrow> node_error option \<times> 's" where
  "Inject sys rfc3339 t f d s =
     (case inject_op rfc3339 t f of
        None \<Rightarrow> (None, s)
      | Some (op, pre) \<Rightarrow> (case driver_do sys d op s of (e, s') \<Rightarrow> (label pre d e, s')))"

definition Revert ::
  "'s system \<Rightarrow> (instant \<Rightarrow> string) \<Rightarrow> instant \<Rightarrow> NodeFault \<Rightarrow> NodeDriver \<Rightarrow> 's \<Rightarrow> node_error option \<times> 's" where
  "Revert sys rfc3339 t f d s =
     (case revert_op rfc3339 t f of
        (op, pre) \<Rightarrow> (case driver_do sys d op s of (e, s') \<Rightarrow> (label pre d e, s')))"

text \<open>
  One beat of the crash loop: kill, wait 200 ms, start; a beat that the cancellation hits
  during the wait ends after the kill. Errors are ignored.
\<close>

definition crash_loop_beat :: "'s system \<Rightarrow> NodeDriver \<Rightarrow> bool \<Rightarrow> 's \<Rightarrow> 's" where
  "crash_loop_beat sys d cancelled s =
     (let s1 = snd (driver_do sys d (OpSignal SIGKILL) s) in if cancelled then s1 else snd (driver_do sys d OpStart s1))"

text \<open>
  The goroutine of \<open>CrashLoopFault.Inject\<close>, in time since the injection. The ticker sends at the
  multiples of the interval \<open>i\<close> and holds back at most one tick, so that after a beat that began
  at \<open>b\<close> the next one begins at the first multiple after \<open>b\<close>, or when this beat is over if that
  is later. The loop's context ends at \<open>deadline\<close>. \<^verbatim>\<open>time.NewTicker\<close> panics on an interval that
  is not positive (\<open>None\<close>).
\<close>

definition beat_pause :: duration where
  "beat_pause = 200 * Millisecond"

definition next_beat :: "duration \<Rightarrow> duration \<Rightarrow> duration" where
  "next_beat i b = max (b + beat_pause) ((b div i + 1) * i)"

function crash_loop :: "'s system \<Rightarrow> NodeDriver \<Rightarrow> duration \<Rightarrow> duration \<Rightarrow> duration \<Rightarrow> 's \<Rightarrow> 's" where
  "crash_loop sys d i deadline b s =
     (if deadline \<le> b then s
      else if deadline \<le> b + beat_pause then crash_loop_beat sys d True s
      else crash_loop sys d i deadline (next_beat i b) (crash_loop_beat sys d False s))"
  by pat_completeness auto
termination
  by (relation "measure (\<lambda>(sys, d, i, deadline, b, s). nat (deadline - b))")
    (auto simp: next_beat_def beat_pause_def Millisecond_def)

declare crash_loop.simps [simp del]

definition crash_loop_run :: "'s system \<Rightarrow> NodeDriver \<Rightarrow> duration \<Rightarrow> duration \<Rightarrow> 's \<Rightarrow> 's option" where
  "crash_loop_run sys d i deadline s = (if i \<le> 0 then None else Some (crash_loop sys d i deadline i s))"

section \<open>What cannot be done\<close>

text \<open>\<^verbatim>\<open>errors.Is(err, ErrUnsupported)\<close>, through the wrapping of the faults and drivers.\<close>

fun is_unsupported :: "driver_error \<Rightarrow> bool" where
  "is_unsupported (ErrUnsupported what op) = True"
| "is_unsupported (ReadPidFailed f e) = is_unsupported e"
| "is_unsupported _ = False"

definition reports_unsupported :: "node_error option \<Rightarrow> bool" where
  "reports_unsupported e =
     (case e of None \<Rightarrow> False | Some (FaultErr p n err) \<Rightarrow> is_unsupported err | Some (RawErr err) \<Rightarrow> is_unsupported err)"

text \<open>
  What the comment on \<^verbatim>\<open>NodeTarget\<close> in \<^verbatim>\<open>internal/config/config.go\<close> excludes: a bare process cannot
  be limited, and without a start command it cannot be restarted.
\<close>

definition is_process :: "NodeDriver \<Rightarrow> bool" where
  "is_process d = (case d of Process _ \<Rightarrow> True | _ \<Rightarrow> False)"

definition cannot_inject :: "NodeFault \<Rightarrow> NodeDriver \<Rightarrow> bool" where
  "cannot_inject f d \<longleftrightarrow> is_process d \<and> NodeFault_Name f \<in> {''cpu_throttle'', ''oom''}"

definition cannot_revert :: "NodeFault \<Rightarrow> NodeDriver \<Rightarrow> bool" where
  "cannot_revert f d \<longleftrightarrow>
     (case d of Process p \<Rightarrow> pd_StartCommand p = [] | _ \<Rightarrow> False) \<and> NodeFault_Name f \<in> {''crash'', ''crash_loop''}"

lemma Executor_Run_supported:
  "Executor_Run sys e argv s = (Inl err, s') \<Longrightarrow> \<not> is_unsupported err"
  by (induction sys e argv s rule: Executor_Run.induct) (auto simp: local_Run_def split: prod.splits if_splits)

lemma run_ok_supported: "run_ok sys e argv s = (Some err, s') \<Longrightarrow> \<not> is_unsupported err"
  by (auto simp: run_ok_def dest: Executor_Run_supported split: prod.splits sum.splits)

lemma driver_kill_supported: "driver_kill sys d sig s = (Some err, s') \<Longrightarrow> \<not> is_unsupported err"
  by (auto simp: driver_kill_def driver_pid_def Let_def dest: run_ok_supported Executor_Run_supported
      split: prod.splits sum.splits option.splits if_splits)

definition op_unsupported :: "driver_op \<Rightarrow> NodeDriver \<Rightarrow> bool" where
  "op_unsupported op d =
     (case d of
        Process p \<Rightarrow> (case op of OpLimitCPU _ \<Rightarrow> True | OpLimitMemory _ \<Rightarrow> True | OpStart \<Rightarrow> pd_StartCommand p = [] | _ \<Rightarrow> False)
      | _ \<Rightarrow> False)"

lemma driver_do_unsupported:
  assumes "driver_do sys d op s = (e, s')"
  shows "(\<exists>err. e = Some err \<and> is_unsupported err) \<longleftrightarrow> op_unsupported op d"
    and "op_unsupported op d \<Longrightarrow> s' = s"
proof -
  note supported = run_ok_supported driver_kill_supported
  show "(\<exists>err. e = Some err \<and> is_unsupported err) \<longleftrightarrow> op_unsupported op d"
    using assms by (cases d; cases op) (auto simp: op_unsupported_def ctl_def docker_def dest: supported split: if_splits)
  show "op_unsupported op d \<Longrightarrow> s' = s"
    using assms by (cases d; cases op) (auto simp: op_unsupported_def split: if_splits)
qed

lemma label_unsupported: "reports_unsupported (label pre d e) \<longleftrightarrow> (\<exists>err. e = Some err \<and> is_unsupported err)"
  by (auto simp: reports_unsupported_def label_def split: option.splits)

section \<open>Commands of the crash loop\<close>

definition run_ops :: "'s system \<Rightarrow> NodeDriver \<Rightarrow> driver_op list \<Rightarrow> 's \<Rightarrow> 's" where
  "run_ops sys d ops s = foldl (\<lambda>s op. snd (driver_do sys d op s)) s ops"

lemma run_ops_simps [simp]:
  "run_ops sys d [] s = s"
  "run_ops sys d (op # ops) s = run_ops sys d ops (snd (driver_do sys d op s))"
  "run_ops sys d (ops @ ops') s = run_ops sys d ops' (run_ops sys d ops s)"
  by (simp_all add: run_ops_def)

text \<open>\<open>k\<close> kills, each followed by a restart, and a last kill if the deadline cuts a beat short.\<close>

definition loop_ops :: "nat \<Rightarrow> bool \<Rightarrow> driver_op list" where
  "loop_ops k short = concat (replicate k [OpSignal SIGKILL, OpStart]) @ (if short then [OpSignal SIGKILL] else [])"

lemma beat_ops:
  "crash_loop_beat sys d cancelled s = run_ops sys d (if cancelled then [OpSignal SIGKILL] else [OpSignal SIGKILL, OpStart]) s"
  by (simp add: crash_loop_beat_def Let_def)

text \<open>An interval of at least 200 ms is kept: the beats are its multiples.\<close>

lemma next_beat_tick:
  assumes "0 < i" "i dvd b" "beat_pause \<le> i"
  shows "next_beat i b = b + i"
  using assms by (auto simp: next_beat_def distrib_right max_def)

text \<open>The beats from \<open>b\<close> on that end before the deadline.\<close>

definition full_beats :: "duration \<Rightarrow> duration \<Rightarrow> duration \<Rightarrow> nat" where
  "full_beats i deadline b = nat ((deadline - beat_pause - 1 - b) div i + 1)"

lemma full_beats_0:
  assumes "0 < i" "deadline \<le> b + beat_pause"
  shows "full_beats i deadline b = 0"
proof -
  have "(deadline - beat_pause - 1 - b) div i < 0" using assms by (simp add: neg_imp_zdiv_neg_iff pos_imp_zdiv_neg_iff)
  then show ?thesis by (simp add: full_beats_def)
qed

lemma full_beats_Suc:
  assumes "0 < i" "b + beat_pause < deadline"
  shows "full_beats i deadline b = Suc (full_beats i deadline (b + i))"
proof -
  have "(deadline - beat_pause - 1 - b) div i = (deadline - beat_pause - 1 - (b + i)) div i + 1"
    using assms(1) div_add_self2 [of i "deadline - beat_pause - 1 - (b + i)"] by (simp add: algebra_simps)
  moreover have "0 \<le> (deadline - beat_pause - 1 - b) div i" using assms by (simp add: pos_imp_zdiv_nonneg_iff)
  ultimately show ?thesis by (simp add: full_beats_def)
qed

lemma crash_loop_ops:
  assumes "beat_pause \<le> i" "i dvd b"
  shows "crash_loop sys d i deadline b s =
    run_ops sys d (loop_ops (full_beats i deadline b) (b + int (full_beats i deadline b) * i < deadline)) s"
  using assms(2)
proof (induction "nat (deadline - b)" arbitrary: b s rule: less_induct)
  case less
  have pos: "0 < beat_pause" "0 < i" using assms(1) by (auto simp: beat_pause_def Millisecond_def)
  show ?case
  proof (cases "deadline \<le> b + beat_pause")
    case True
    with pos full_beats_0 [OF pos(2) True] show ?thesis
      by (auto simp: crash_loop.simps [of _ _ _ _ b] loop_ops_def beat_ops)
  next
    case False
    let ?k = "full_beats i deadline (b + i)"
    have step: "crash_loop sys d i deadline b s = crash_loop sys d i deadline (b + i) (crash_loop_beat sys d False s)"
      using False pos next_beat_tick [OF pos(2) less.prems assms(1)] by (simp add: crash_loop.simps [of _ _ _ _ b])
    have k: "full_beats i deadline b = Suc ?k" using False by (intro full_beats_Suc pos) simp
    have "crash_loop sys d i deadline (b + i) (crash_loop_beat sys d False s) =
        run_ops sys d (loop_ops ?k (b + i + int ?k * i < deadline)) (crash_loop_beat sys d False s)"
      using False pos less.prems by (intro less.hyps) auto
    moreover have "b + i + int ?k * i = b + int (full_beats i deadline b) * i" by (simp add: k algebra_simps)
    ultimately show ?thesis by (simp add: step k loop_ops_def beat_ops)
  qed
qed

section \<open>Properties\<close>

text \<open>
  C24: what a node cannot do is reported, not pretended. Injecting a fault reports that the
  operation is unsupported exactly for a CPU or memory limit on a bare process, and reverting
  exactly for a crash of a process without a start command; whatever commands fail otherwise,
  and over ssh too, the report is a different one. Where it is made nothing has been run.
\<close>

theorem unsupported_exact:
  "(reports_unsupported (fst (Inject sys fmt t f d s)) \<longleftrightarrow> cannot_inject f d)
   \<and> (reports_unsupported (fst (Revert sys fmt t f d s)) \<longleftrightarrow> cannot_revert f d)
   \<and> (cannot_inject f d \<longrightarrow> snd (Inject sys fmt t f d s) = s)
   \<and> (cannot_revert f d \<longrightarrow> snd (Revert sys fmt t f d s) = s)"
proof -
  have i: "cannot_inject f d \<longleftrightarrow> (\<exists>op pre. inject_op fmt t f = Some (op, pre) \<and> op_unsupported op d)"
    by (cases f; cases d) (simp_all add: cannot_inject_def is_process_def op_unsupported_def)
  have r: "cannot_revert f d \<longleftrightarrow> op_unsupported (fst (revert_op fmt t f)) d"
    by (cases f; cases d) (simp_all add: cannot_revert_def op_unsupported_def)
  have inj: "(reports_unsupported (fst (Inject sys fmt t f d s)) \<longleftrightarrow> cannot_inject f d)
      \<and> (cannot_inject f d \<longrightarrow> snd (Inject sys fmt t f d s) = s)"
    using driver_do_unsupported [of sys d _ s]
    by (auto simp: i Inject_def label_unsupported reports_unsupported_def [of None] split: option.split prod.split)
  have rev: "(reports_unsupported (fst (Revert sys fmt t f d s)) \<longleftrightarrow> cannot_revert f d)
      \<and> (cannot_revert f d \<longrightarrow> snd (Revert sys fmt t f d s) = s)"
    using driver_do_unsupported [of sys d "fst (revert_op fmt t f)" s]
    by (auto simp: r Revert_def label_unsupported split: prod.split)
  from inj rev show ?thesis by blast
qed

definition ex_process :: "Executor option \<Rightarrow> NodeDriver" where
  "ex_process e = Process \<lparr>pd_PID = 7, pd_PIDFile = [], pd_StartCommand = [], pd_Exec = e\<rparr>"

theorem unsupported_exact_witness:
  "Inject ex_remote (\<lambda>t. []) 0 (CrashFault SIGKILL) (ex_process None) [] = (None, [[''kill'', ''-KILL'', ''7'']])
   \<and> reports_unsupported (fst (Revert ex_remote (\<lambda>t. []) 5 (CrashFault SIGKILL) (ex_process None) [[''kill'', ''-KILL'', ''7'']]))
   \<and> snd (Revert ex_remote (\<lambda>t. []) 5 (CrashFault SIGKILL) (ex_process None) [[''kill'', ''-KILL'', ''7'']])
       = [[''kill'', ''-KILL'', ''7'']]"
proof -
  have "Inject ex_remote (\<lambda>t. []) 0 (CrashFault SIGKILL) (ex_process None) [] = (None, [[''kill'', ''-KILL'', ''7'']])"
    by code_simp
  moreover have "cannot_revert (CrashFault SIGKILL) (ex_process None)" by (simp add: cannot_revert_def ex_process_def)
  ultimately show ?thesis
    using unsupported_exact [of ex_remote "\<lambda>t. []" 5 "CrashFault SIGKILL" "ex_process None" "[[''kill'', ''-KILL'', ''7'']]"]
    by blast
qed


definition ex_container :: NodeDriver where
  "ex_container = Docker \<lparr>dd_Container = ''pg'', dd_Network = [], dd_Exec = None\<rparr>"


text \<open>With an interval that is not positive the program panics.\<close>

lemma crash_loop_panics: "crash_loop_run sys d i deadline s = None \<longleftrightarrow> i \<le> 0"
  by (simp add: crash_loop_run_def)

end
