(* ===== verification/Workload.thy ===== *)
theory Workload
  imports Node_Faults
begin

text \<open>
  Faults that drive a database session (\<^verbatim>\<open>internal/faults/workload.go\<close>): pool
  exhaustion, deadlock, lock contention, backup window and failover inside a transaction. The
  database behind \<^verbatim>\<open>database/sql\<close> is an argument, with a state \<open>'s\<close>;
  transactions are handles. A statement either completes, with an error or not, or is blocked
  (on a row lock) and has to be asked for again; the start of a transaction may be blocked in
  the same way (on the pool). \<open>wait d\<close> is what the rest of the world does
  to the database during a pause of at most \<open>d\<close>.
\<close>

section \<open>Sessions\<close>

datatype exec_outcome = Completed "string option" | Blocked

datatype begin_outcome = Began nat | BeginError string | BeginBlocked

record PoolStats =
  ps_InUse :: int
  ps_Idle :: int
  ps_Max :: int

record 's DBSession =
  s_Exec :: "string \<Rightarrow> any_val list \<Rightarrow> 's \<Rightarrow> exec_outcome \<times> 's"
  s_Begin :: "'s \<Rightarrow> begin_outcome \<times> 's"
  s_PoolStats :: "'s \<Rightarrow> PoolStats"
  tx_Exec :: "nat \<Rightarrow> string \<Rightarrow> any_val list \<Rightarrow> 's \<Rightarrow> exec_outcome \<times> 's"
  tx_Commit :: "nat \<Rightarrow> 's \<Rightarrow> string option \<times> 's"
  tx_Rollback :: "nat \<Rightarrow> 's \<Rightarrow> string option \<times> 's"

text \<open>
  What \<^verbatim>\<open>SQLDBSession\<close> uses of \<^verbatim>\<open>*sql.DB\<close> and \<^verbatim>\<open>*sql.Tx\<close>: a
  statement also gives a result, which the adapter drops.
\<close>

record DBStats =
  st_InUse :: int
  st_Idle :: int
  MaxOpenConnections :: int

record 's sql_DB =
  ExecContext :: "string \<Rightarrow> any_val list \<Rightarrow> 's \<Rightarrow> (int \<times> exec_outcome) \<times> 's"
  BeginTx :: "'s \<Rightarrow> begin_outcome \<times> 's"
  Stats :: "'s \<Rightarrow> DBStats"
  Tx_ExecContext :: "nat \<Rightarrow> string \<Rightarrow> any_val list \<Rightarrow> 's \<Rightarrow> (int \<times> exec_outcome) \<times> 's"
  sql_Commit :: "nat \<Rightarrow> 's \<Rightarrow> string option \<times> 's"
  sql_Rollback :: "nat \<Rightarrow> 's \<Rightarrow> string option \<times> 's"

definition Session_Exec :: "'s sql_DB \<Rightarrow> string \<Rightarrow> any_val list \<Rightarrow> 's \<Rightarrow> exec_outcome \<times> 's" where
  "Session_Exec db query args s = (case ExecContext db query args s of ((_, err), s') \<Rightarrow> (err, s'))"

definition Session_Begin :: "'s sql_DB \<Rightarrow> 's \<Rightarrow> begin_outcome \<times> 's" where
  "Session_Begin db s =
     (case BeginTx db s of
        (BeginError err, s') \<Rightarrow> (BeginError err, s')
      | (Began tx, s') \<Rightarrow> (Began tx, s')
      | (BeginBlocked, s') \<Rightarrow> (BeginBlocked, s'))"

definition Session_PoolStats :: "'s sql_DB \<Rightarrow> 's \<Rightarrow> PoolStats" where
  "Session_PoolStats db s =
     (let st = Stats db s in \<lparr>ps_InUse = st_InUse st, ps_Idle = st_Idle st, ps_Max = MaxOpenConnections st\<rparr>)"

definition sqlTx_Exec :: "'s sql_DB \<Rightarrow> nat \<Rightarrow> string \<Rightarrow> any_val list \<Rightarrow> 's \<Rightarrow> exec_outcome \<times> 's" where
  "sqlTx_Exec db tx query args s = (case Tx_ExecContext db tx query args s of ((_, err), s') \<Rightarrow> (err, s'))"

definition NewSQLDBSession :: "'s sql_DB \<Rightarrow> 's DBSession" where
  "NewSQLDBSession db =
     \<lparr>s_Exec = Session_Exec db, s_Begin = Session_Begin db, s_PoolStats = Session_PoolStats db,
      tx_Exec = sqlTx_Exec db, tx_Commit = sql_Commit db, tx_Rollback = sql_Rollback db\<rparr>"

section \<open>Outcomes\<close>

datatype workload_error =
    BeginFailed string string
  | StatementFailed string string
  | NoDeadlock
  | RollbackFailed string
  | SnapshotFailed string
  | RestoreFailed string
  | CrashFailed node_error

text \<open>\<open>Waiting\<close>: the call has not returned, because a call on the session is blocked.\<close>

datatype outcome = Returned "workload_error option" | Waiting

section \<open>Pool exhaustion\<close>

record PoolExhaustionFault =
  HoldConnections :: int
  pe_HoldFor :: duration
  txs :: "nat list"

text \<open>The loop: \<open>False\<close> when a call is blocked and the loop stands still.\<close>

fun hold_loop :: "'s DBSession \<Rightarrow> nat \<Rightarrow> nat list \<Rightarrow> 's \<Rightarrow> bool \<times> nat list \<times> 's" where
  "hold_loop sess 0 held s = (True, held, s)"
| "hold_loop sess (Suc n) held s =
     (case s_Begin sess s of
        (BeginError err, s1) \<Rightarrow> (True, held, s1)
      | (BeginBlocked, s1) \<Rightarrow> (False, held, s1)
      | (Began tx, s1) \<Rightarrow>
          (case tx_Exec sess tx ''SELECT 1'' [] s1 of
             (Blocked, s2) \<Rightarrow> (False, held, s2)
           | (Completed _, s2) \<Rightarrow> hold_loop sess n (held @ [tx]) s2))"

text \<open>The result says whether the call returns and after what pause a goroutine releases.\<close>

definition PoolExhaustion_Inject ::
  "'s DBSession \<Rightarrow> PoolExhaustionFault \<Rightarrow> 's \<Rightarrow> outcome \<times> duration option \<times> PoolExhaustionFault \<times> 's" where
  "PoolExhaustion_Inject sess f s =
     (case hold_loop sess (nat (HoldConnections f)) (txs f) s of
        (fin, held, s1) \<Rightarrow>
          (if fin then Returned None else Waiting,
           if fin \<and> pe_HoldFor f > 0 then Some (pe_HoldFor f) else None, f\<lparr>txs := held\<rparr>, s1))"

definition PoolExhaustion_release :: "'s DBSession \<Rightarrow> PoolExhaustionFault \<Rightarrow> 's \<Rightarrow> PoolExhaustionFault \<times> 's" where
  "PoolExhaustion_release sess f s = (f\<lparr>txs := []\<rparr>, foldl (\<lambda>s tx. snd (tx_Rollback sess tx s)) s (txs f))"

section \<open>Deadlock\<close>

record DeadlockFault =
  dl_Table :: string
  dl_KeyColumn :: string
  KeyA :: string
  KeyB :: string

definition lock_query :: "string \<Rightarrow> string \<Rightarrow> string" where
  "lock_query tab col = ''SELECT * FROM '' @ tab @ '' WHERE '' @ col @ '' = $1 FOR UPDATE''"

text \<open>
  A goroutine before its first statement, between its two statements, and after sending on its
  channel. The schedule says which goroutine runs next (\<open>True\<close> for that of \<open>txA\<close>).
\<close>

datatype goroutine = GFirst | GSecond | GSent "string option"

definition go_step ::
  "'s DBSession \<Rightarrow> string \<Rightarrow> nat \<Rightarrow> string \<Rightarrow> string \<Rightarrow> goroutine \<Rightarrow> 's \<Rightarrow> goroutine \<times> 's" where
  "go_step sess q tx k1 k2 g s =
     (case g of
        GFirst \<Rightarrow> (case tx_Exec sess tx q [VString k1] s of
            (Blocked, s1) \<Rightarrow> (GFirst, s1)
          | (Completed (Some err), s1) \<Rightarrow> (GSent (Some err), s1)
          | (Completed None, s1) \<Rightarrow> (GSecond, s1))
      | GSecond \<Rightarrow> (case tx_Exec sess tx q [VString k2] s of
            (Blocked, s1) \<Rightarrow> (GSecond, s1)
          | (Completed r, s1) \<Rightarrow> (GSent r, s1))
      | GSent r \<Rightarrow> (GSent r, s))"

fun interleave ::
  "'s DBSession \<Rightarrow> string \<Rightarrow> nat \<Rightarrow> nat \<Rightarrow> string \<Rightarrow> string \<Rightarrow> bool list \<Rightarrow> goroutine \<times> goroutine \<times> 's \<Rightarrow> goroutine \<times> goroutine \<times> 's" where
  "interleave sess q a b ka kb [] (ga, gb, s) = (ga, gb, s)"
| "interleave sess q a b ka kb (x # sched) (ga, gb, s) =
     interleave sess q a b ka kb sched
       (if x then (case go_step sess q a ka kb ga s of (ga1, s1) \<Rightarrow> (ga1, gb, s1))
        else (case go_step sess q b kb ka gb s of (gb1, s1) \<Rightarrow> (ga, gb1, s1)))"

definition Deadlock_Inject :: "'s DBSession \<Rightarrow> bool list \<Rightarrow> DeadlockFault \<Rightarrow> 's \<Rightarrow> outcome \<times> 's" where
  "Deadlock_Inject sess sched f s =
     (case s_Begin sess s of
        (BeginBlocked, s1) \<Rightarrow> (Waiting, s1)
      | (BeginError err, s1) \<Rightarrow> (Returned (Some (BeginFailed ''deadlock: begin txA'' err)), s1)
      | (Began txA, s1) \<Rightarrow>
          (case s_Begin sess s1 of
             (BeginBlocked, s2) \<Rightarrow> (Waiting, s2)
           | (BeginError err, s2) \<Rightarrow> (Returned (Some (BeginFailed ''deadlock: begin txB'' err)), snd (tx_Rollback sess txA s2))
           | (Began txB, s2) \<Rightarrow>
               (case interleave sess (lock_query (dl_Table f) (dl_KeyColumn f)) txA txB (KeyA f) (KeyB f) sched (GFirst, GFirst, s2) of
                  (GSent resA, GSent resB, s3) \<Rightarrow>
                    (Returned (if resA = None \<and> resB = None then Some NoDeadlock else None),
                     snd (tx_Rollback sess txB (snd (tx_Rollback sess txA s3))))
                | (_, _, s3) \<Rightarrow> (Waiting, s3))))"

section \<open>Lock contention\<close>

record LockContentionFault =
  lc_Table :: string
  lc_KeyColumn :: string
  lc_Key :: string
  lc_HoldFor :: duration

definition LockContention_Inject ::
  "'s DBSession \<Rightarrow> (duration \<Rightarrow> 's \<Rightarrow> 's) \<Rightarrow> LockContentionFault \<Rightarrow> 's \<Rightarrow> outcome \<times> 's" where
  "LockContention_Inject sess wait f s =
     (case s_Begin sess s of
        (BeginBlocked, s1) \<Rightarrow> (Waiting, s1)
      | (BeginError err, s1) \<Rightarrow> (Returned (Some (BeginFailed ''lock_contention: begin'' err)), s1)
      | (Began tx, s1) \<Rightarrow>
          (case tx_Exec sess tx (lock_query (lc_Table f) (lc_KeyColumn f)) [VString (lc_Key f)] s1 of
             (Blocked, s2) \<Rightarrow> (Waiting, s2)
           | (Completed (Some err), s2) \<Rightarrow>
               (Returned (Some (StatementFailed ''lock_contention: acquiring lock'' err)), snd (tx_Rollback sess tx s2))
           | (Completed None, s2) \<Rightarrow>
               (case tx_Rollback sess tx (wait (lc_HoldFor f) s2) of
                  (err, s3) \<Rightarrow> (Returned (map_option RollbackFailed err), s3))))"

section \<open>Backup window\<close>

record 'rows BackupWindowFault =
  bw_Table :: string
  OpenFor :: duration
  snapshot :: 'rows

definition BackupWindow_Inject ::
  "(string \<Rightarrow> 'd \<Rightarrow> (string + 'rows) \<times> 'd) \<Rightarrow> (string \<Rightarrow> 'rows \<Rightarrow> 'd \<Rightarrow> string option \<times> 'd) \<Rightarrow> (duration \<Rightarrow> 'd \<Rightarrow> 'd)
     \<Rightarrow> 'rows BackupWindowFault \<Rightarrow> 'd \<Rightarrow> workload_error option \<times> 'rows BackupWindowFault \<times> 'd" where
  "BackupWindow_Inject SnapshotTable RestoreTable wait f d =
     (case SnapshotTable (bw_Table f) d of
        (Inl err, d1) \<Rightarrow> (Some (SnapshotFailed err), f, d1)
      | (Inr rows, d1) \<Rightarrow>
          (let f1 = f\<lparr>snapshot := rows\<rparr>
           in case RestoreTable (bw_Table f) (snapshot f1) (wait (OpenFor f) d1) of
                (err, d2) \<Rightarrow> (map_option RestoreFailed err, f1, d2)))"

section \<open>Failover inside a transaction\<close>

record MidTxFailoverFault =
  Crash :: NodeFault
  PrimaryNode :: NodeDriver
  mt_Table :: string
  mt_Col :: string
  mt_Key :: string
  mt_Value :: any_val
  DelayBeforeCrash :: duration

definition update_statement :: "string \<Rightarrow> string \<Rightarrow> string" where
  "update_statement tab col = ''UPDATE '' @ tab @ '' SET '' @ col @ '' = $1 WHERE id = $2''"

text \<open>The machine of the primary has a state of its own, \<open>'m\<close>; \<open>t\<close> is the instant of the crash.\<close>

definition MidTxFailover_Inject ::
  "'s DBSession \<Rightarrow> (duration \<Rightarrow> 's \<Rightarrow> 's) \<Rightarrow> 'm system \<Rightarrow> (instant \<Rightarrow> string) \<Rightarrow> instant
     \<Rightarrow> MidTxFailoverFault \<Rightarrow> 's \<Rightarrow> 'm \<Rightarrow> outcome \<times> 's \<times> 'm" where
  "MidTxFailover_Inject sess wait sys fmt t f s m =
     (case s_Begin sess s of
        (BeginBlocked, s1) \<Rightarrow> (Waiting, s1, m)
      | (BeginError err, s1) \<Rightarrow> (Returned (Some (BeginFailed ''mid_tx_failover: begin'' err)), s1, m)
      | (Began tx, s1) \<Rightarrow>
          (case tx_Exec sess tx (update_statement (mt_Table f) (mt_Col f)) [mt_Value f, VString (mt_Key f)] s1 of
             (Blocked, s2) \<Rightarrow> (Waiting, s2, m)
           | (Completed (Some err), s2) \<Rightarrow>
               (Returned (Some (StatementFailed ''mid_tx_failover: write before crash'' err)), snd (tx_Rollback sess tx s2), m)
           | (Completed None, s2) \<Rightarrow>
               (let s3 = wait (DelayBeforeCrash f) s2
                in case Inject sys fmt t (Crash f) (PrimaryNode f) m of
                     (Some err, m1) \<Rightarrow> (Returned (Some (CrashFailed err)), snd (tx_Rollback sess tx s3), m1)
                   | (None, m1) \<Rightarrow> (Returned None, s3, m1))))"

section \<open>Recording the calls\<close>

text \<open>
  Nothing is assumed of the database. What a fault does is read off the calls it makes:
  \<open>logged sess\<close> is the session \<open>sess\<close> with a record of every call and its result.
\<close>

datatype call =
    CBegin begin_outcome
  | CQuery string "any_val list" exec_outcome
  | CExec nat string "any_val list" exec_outcome
  | CCommit nat "string option"
  | CRollback nat "string option"

definition logged :: "'s DBSession \<Rightarrow> ('s \<times> call list) DBSession" where
  "logged sess =
     \<lparr>s_Exec = (\<lambda>q args (s, l). case s_Exec sess q args s of (x, s') \<Rightarrow> (x, s', l @ [CQuery q args x])),
      s_Begin = (\<lambda>(s, l). case s_Begin sess s of (x, s') \<Rightarrow> (x, s', l @ [CBegin x])),
      s_PoolStats = (\<lambda>(s, l). s_PoolStats sess s),
      tx_Exec = (\<lambda>tx q args (s, l). case tx_Exec sess tx q args s of (x, s') \<Rightarrow> (x, s', l @ [CExec tx q args x])),
      tx_Commit = (\<lambda>tx (s, l). case tx_Commit sess tx s of (x, s') \<Rightarrow> (x, s', l @ [CCommit tx x])),
      tx_Rollback = (\<lambda>tx (s, l). case tx_Rollback sess tx s of (x, s') \<Rightarrow> (x, s', l @ [CRollback tx x]))\<rparr>"

lemma logged_simps [simp]:
  "s_Begin (logged sess) (s, l) = (case s_Begin sess s of (x, s') \<Rightarrow> (x, s', l @ [CBegin x]))"
  "tx_Exec (logged sess) tx q args (s, l) = (case tx_Exec sess tx q args s of (x, s') \<Rightarrow> (x, s', l @ [CExec tx q args x]))"
  "tx_Rollback (logged sess) tx (s, l) = (case tx_Rollback sess tx s of (x, s') \<Rightarrow> (x, s', l @ [CRollback tx x]))"
  by (simp_all add: logged_def)

text \<open>The transactions that were begun, that were ended, and the completed statements of one.\<close>

fun begun :: "call list \<Rightarrow> nat list" where
  "begun [] = []"
| "begun (CBegin (Began tx) # l) = tx # begun l"
| "begun (_ # l) = begun l"

fun ended :: "call list \<Rightarrow> nat list" where
  "ended [] = []"
| "ended (CCommit tx _ # l) = tx # ended l"
| "ended (CRollback tx _ # l) = tx # ended l"
| "ended (_ # l) = ended l"

fun statements :: "nat \<Rightarrow> call list \<Rightarrow> (any_val list \<times> string option) list" where
  "statements tx [] = []"
| "statements tx (CExec u q args (Completed r) # l) = (if u = tx then [(args, r)] else []) @ statements tx l"
| "statements tx (_ # l) = statements tx l"

lemma begun_append [simp]: "begun (l @ l') = begun l @ begun l'"
  by (induction l rule: begun.induct) simp_all

lemma ended_append [simp]: "ended (l @ l') = ended l @ ended l'"
  by (induction l rule: ended.induct) simp_all

lemma statements_append [simp]: "statements tx (l @ l') = statements tx l @ statements tx l'"
  by (induction tx l rule: statements.induct) simp_all

section \<open>Holding and releasing connections\<close>

lemma hold_loop_log:
  "hold_loop (logged sess) n held (s, l) = (True, held', s', l') \<Longrightarrow>
     \<exists>new m. held' = held @ new \<and> l' = l @ m \<and> begun m = new \<and> ended m = [] \<and> length new \<le> n
       \<and> (length new < n \<longrightarrow> (\<exists>err m'. m = m' @ [CBegin (BeginError err)]))"
proof (induction n arbitrary: held s l)
  case (Suc n)
  obtain b s1 where b: "s_Begin sess s = (b, s1)" by force
  show ?case
  proof (cases b)
    case (Began tx)
    obtain x s2 where x: "tx_Exec sess tx ''SELECT 1'' [] s1 = (x, s2)" by force
    with Suc.prems b Began obtain r where "x = Completed r"
      and h: "hold_loop (logged sess) n (held @ [tx]) (s2, l @ [CBegin (Began tx), CExec tx ''SELECT 1'' [] x]) = (True, held', s', l')"
      by (cases x) auto
    from Suc.IH [OF h] obtain new m where "held' = (held @ [tx]) @ new" "l' = (l @ [CBegin (Began tx), CExec tx ''SELECT 1'' [] x]) @ m"
      "begun m = new" "ended m = []" "length new \<le> n" "length new < n \<longrightarrow> (\<exists>err m'. m = m' @ [CBegin (BeginError err)])" by blast
    then show ?thesis
      by (intro exI [of _ "tx # new"] exI [of _ "[CBegin (Began tx), CExec tx ''SELECT 1'' [] x] @ m"]) auto
  next
    case (BeginError err)
    with Suc.prems b show ?thesis by auto
  next
    case BeginBlocked
    with Suc.prems b show ?thesis by auto
  qed
qed auto

lemma rollbacks_log:
  assumes "foldl (\<lambda>s tx. snd (tx_Rollback (logged sess) tx s)) (s, l) held = (s', l')"
  shows "begun l' = begun l \<and> ended l' = ended l @ held"
  using assms
proof (induction held arbitrary: s l)
  case (Cons tx held)
  obtain x s1 where x: "tx_Rollback sess tx s = (x, s1)" by force
  with Cons.prems have "foldl (\<lambda>s tx. snd (tx_Rollback (logged sess) tx s)) (s1, l @ [CRollback tx x]) held = (s', l')" by simp
  from Cons.IH [OF this] show ?case by simp
qed simp

section \<open>The two goroutines of the deadlock fault\<close>

text \<open>What a goroutine that locks \<open>k1\<close> and then \<open>k2\<close> has completed.\<close>

definition progress :: "string \<Rightarrow> string \<Rightarrow> goroutine \<Rightarrow> (any_val list \<times> string option) list \<Rightarrow> bool" where
  "progress k1 k2 g xs =
     (case g of
        GFirst \<Rightarrow> xs = []
      | GSecond \<Rightarrow> xs = [([VString k1], None)]
      | GSent r \<Rightarrow> (\<exists>e. xs = [([VString k1], Some e)] \<and> r = Some e) \<or> xs = [([VString k1], None), ([VString k2], r)])"

definition only_locks :: "string \<Rightarrow> nat \<Rightarrow> nat \<Rightarrow> call list \<Rightarrow> bool" where
  "only_locks q a b l \<longleftrightarrow> (\<forall>c \<in> set l. \<exists>tx args x. c = CExec tx q args x \<and> tx \<in> {a, b})"

lemma only_locks_no_ends: "only_locks q a b l \<Longrightarrow> begun l = [] \<and> ended l = []"
  by (induction l) (auto simp: only_locks_def)

lemma only_locks_snoc: "only_locks q a b (l @ [CExec tx q args x]) \<longleftrightarrow> only_locks q a b l \<and> tx \<in> {a, b}"
  by (auto simp: only_locks_def)

lemma go_step_log:
  assumes "go_step (logged sess) q tx k1 k2 g (s, l) = (g', s', l')" "progress k1 k2 g (statements tx l)"
  shows "progress k1 k2 g' (statements tx l')
    \<and> (\<forall>u. u \<noteq> tx \<longrightarrow> statements u l' = statements u l) \<and> (l' = l \<or> (\<exists>args x. l' = l @ [CExec tx q args x]))"
  using assms
  by (auto simp: go_step_def progress_def split: goroutine.splits prod.splits exec_outcome.splits option.splits)

lemma go_step_grows:
  assumes "go_step (logged sess) q tx k1 k2 g (s, l) = (g', s', l')"
  shows "l' = l \<or> (\<exists>args x. l' = l @ [CExec tx q args x])"
  using assms by (auto simp: go_step_def split: goroutine.splits prod.splits exec_outcome.splits option.splits)

lemma interleave_grows:
  assumes "interleave (logged sess) q a b ka kb sched (ga, gb, s, l0 @ l) = (ga', gb', s', l')" "only_locks q a b l"
  shows "\<exists>m. l' = l0 @ m \<and> only_locks q a b m"
  using assms
proof (induction sched arbitrary: ga gb s l)
  case (Cons x sched)
  obtain g s1 l1 where g: "go_step (logged sess) q (if x then a else b) (if x then ka else kb) (if x then kb else ka)
      (if x then ga else gb) (s, l0 @ l) = (g, s1, l1)" by (metis prod.exhaust)
  with go_step_grows [OF g] Cons.prems(2) obtain l2 where l2: "l1 = l0 @ l2" "only_locks q a b l2"
    by (auto simp: only_locks_snoc)
  from Cons.prems(1) g l2(1) have "interleave (logged sess) q a b ka kb sched
      (if x then g else ga, if x then gb else g, s1, l0 @ l2) = (ga', gb', s', l')" by (cases x) simp_all
  from Cons.IH [OF this l2(2)] show ?case .
qed auto

lemma interleave_log:
  assumes "interleave (logged sess) q a b ka kb sched (ga, gb, s, l0 @ l) = (ga', gb', s', l')" "a \<noteq> b"
    and "progress ka kb ga (statements a l)" "progress kb ka gb (statements b l)" "only_locks q a b l"
    and "statements a l0 = []" "statements b l0 = []"
  shows "\<exists>m. l' = l0 @ m \<and> progress ka kb ga' (statements a m) \<and> progress kb ka gb' (statements b m) \<and> only_locks q a b m"
  using assms(1,3-5)
proof (induction sched arbitrary: ga gb s l)
  case (Cons x sched)
  show ?case
  proof (cases x)
    case True
    obtain g s1 l1 where g: "go_step (logged sess) q a ka kb ga (s, l0 @ l) = (g, s1, l1)" by (metis prod.exhaust)
    from go_step_log [OF g] Cons.prems assms(6) have *: "progress ka kb g (statements a l1)"
      "\<forall>u. u \<noteq> a \<longrightarrow> statements u l1 = statements u (l0 @ l)" "l1 = l0 @ l \<or> (\<exists>args x. l1 = l0 @ l @ [CExec a q args x])" by auto
    then obtain l2 where l2: "l1 = l0 @ l2" "only_locks q a b l2" using Cons.prems(4) by (force simp: only_locks_snoc)
    have "interleave (logged sess) q a b ka kb sched (g, gb, s1, l0 @ l2) = (ga', gb', s', l')"
      using Cons.prems(1) True g l2(1) by simp
    from Cons.IH [OF this] show ?thesis using * l2 Cons.prems assms(2,6,7) by auto
  next
    case False
    obtain g s1 l1 where g: "go_step (logged sess) q b kb ka gb (s, l0 @ l) = (g, s1, l1)" by (metis prod.exhaust)
    from go_step_log [OF g] Cons.prems assms(7) have *: "progress kb ka g (statements b l1)"
      "\<forall>u. u \<noteq> b \<longrightarrow> statements u l1 = statements u (l0 @ l)" "l1 = l0 @ l \<or> (\<exists>args x. l1 = l0 @ l @ [CExec b q args x])" by auto
    then obtain l2 where l2: "l1 = l0 @ l2" "only_locks q a b l2" using Cons.prems(4) by (force simp: only_locks_snoc)
    have "interleave (logged sess) q a b ka kb sched (ga, g, s1, l0 @ l2) = (ga', gb', s', l')"
      using Cons.prems(1) False g l2(1) by simp
    from Cons.IH [OF this] show ?thesis using * l2 Cons.prems assms(2,6,7) by auto
  qed
qed auto

section \<open>Properties\<close>

text \<open>
  C39: pool exhaustion, on any session. When the call returns it holds exactly the
  transactions it began and has ended none of them: as many as it was told to hold, or fewer if
  the last thing the session did was to refuse another one. The release then ends each of
  them exactly once, in order, and nothing stays held.
\<close>

theorem pool_exhaustion_balanced:
  assumes "PoolExhaustion_Inject (logged sess) f (s, []) = (Returned r, tm, f', s1, l1)" "txs f = []"
    and "PoolExhaustion_release (logged sess) f' (s1, l1) = (f'', s2, l2)"
  shows "r = None \<and> begun l1 = txs f' \<and> ended l1 = [] \<and> length (txs f') \<le> nat (HoldConnections f)
    \<and> (length (txs f') < nat (HoldConnections f) \<longrightarrow> (\<exists>err m. l1 = m @ [CBegin (BeginError err)]))
    \<and> begun l2 = txs f' \<and> ended l2 = txs f' \<and> txs f'' = []"
proof -
  obtain fin held s' l' where h: "hold_loop (logged sess) (nat (HoldConnections f)) [] (s, []) = (fin, held, s', l')"
    by (metis prod.exhaust)
  with assms(1,2) have i: "fin" "r = None" "f' = f\<lparr>txs := held\<rparr>" "s1 = s'" "l1 = l'"
    by (auto simp: PoolExhaustion_Inject_def split: if_splits)
  from hold_loop_log [of sess _ "[]" s "[]"] h i(1) have "begun l1 = txs f'" "ended l1 = []" "length (txs f') \<le> nat (HoldConnections f)"
    "length (txs f') < nat (HoldConnections f) \<longrightarrow> (\<exists>err m. l1 = m @ [CBegin (BeginError err)])"
    unfolding i by fastforce+
  with rollbacks_log [of sess s1 l1 "txs f'" s2 l2] assms(3) i(2) show ?thesis
    by (auto simp: PoolExhaustion_release_def)
qed

text \<open>An example of a session: a pool with a number of free connections, whose locks are always granted.\<close>

definition ex_session_of :: "exec_outcome \<Rightarrow> nat DBSession" where
  "ex_session_of x =
     \<lparr>s_Exec = (\<lambda>q args n. (x, n)), s_Begin = (\<lambda>n. case n of 0 \<Rightarrow> (BeginError ''exhausted'', 0) | Suc m \<Rightarrow> (Began m, m)),
      s_PoolStats = (\<lambda>n. \<lparr>ps_InUse = 0, ps_Idle = int n, ps_Max = int n\<rparr>),
      tx_Exec = (\<lambda>tx q args n. (x, n)), tx_Commit = (\<lambda>tx n. (None, Suc n)), tx_Rollback = (\<lambda>tx n. (None, Suc n))\<rparr>"

definition ex_pool_fault :: "int \<Rightarrow> PoolExhaustionFault" where
  "ex_pool_fault n = \<lparr>HoldConnections = n, pe_HoldFor = 0, txs = []\<rparr>"

theorem pool_exhaustion_balanced_witness:
  "\<exists>f' l1 f'' l2. PoolExhaustion_Inject (logged (ex_session_of (Completed None))) (ex_pool_fault 5) (2, []) = (Returned None, None, f', 0, l1)
     \<and> PoolExhaustion_release (logged (ex_session_of (Completed None))) f' (0, l1) = (f'', 2, l2)
     \<and> txs f' = [1, 0] \<and> ended l2 = [1, 0]"
proof -
  let ?S = "logged (ex_session_of (Completed None))"
  have h: "PoolExhaustion_Inject ?S (ex_pool_fault 5) (2, []) = (Returned None, None, (ex_pool_fault 5)\<lparr>txs := [1, 0]\<rparr>, 0,
      [CBegin (Began 1), CExec 1 ''SELECT 1'' [] (Completed None), CBegin (Began 0), CExec 0 ''SELECT 1'' [] (Completed None),
       CBegin (BeginError ''exhausted'')])" by code_simp
  obtain f'' l2 where r: "PoolExhaustion_release ?S ((ex_pool_fault 5)\<lparr>txs := [1, 0]\<rparr>) (0,
      [CBegin (Began 1), CExec 1 ''SELECT 1'' [] (Completed None), CBegin (Began 0), CExec 0 ''SELECT 1'' [] (Completed None),
       CBegin (BeginError ''exhausted'')]) = (f'', 2, l2)"
    by (simp add: PoolExhaustion_release_def ex_session_of_def ex_pool_fault_def)
  have "txs (ex_pool_fault 5) = []" by (simp add: ex_pool_fault_def)
  from pool_exhaustion_balanced [OF h this r] h r show ?thesis by auto
qed

text \<open>
  C40: the deadlock fault, on any session and under any schedule of its two goroutines. When
  the call returns after both transactions were begun (as two different ones), the first has locked its row A before it
  asked for row B, the second row B before row A; a goroutine whose first lock failed asked for no
  second. The call reports that no deadlock was produced exactly when no statement failed, and
  otherwise succeeds. Both transactions are rolled back at the end, and only there. If a
  transaction cannot be begun, this is reported and the one begun before is rolled back.
\<close>

theorem deadlock_protocol:
  assumes "Deadlock_Inject (logged sess) sched f (s, []) = (Returned r, s', l)"
  shows "(\<exists>err. r = Some (BeginFailed ''deadlock: begin txA'' err) \<and> begun l = [] \<and> ended l = [])
    \<or> (\<exists>err a. r = Some (BeginFailed ''deadlock: begin txB'' err) \<and> begun l = [a] \<and> ended l = [a])
    \<or> (\<exists>a b m x y. l = [CBegin (Began a), CBegin (Began b)] @ m @ [CRollback a x, CRollback b y]
         \<and> only_locks (lock_query (dl_Table f) (dl_KeyColumn f)) a b m
         \<and> (a \<noteq> b \<longrightarrow>
              (\<exists>ra. progress (KeyA f) (KeyB f) (GSent ra) (statements a m))
              \<and> (\<exists>rb. progress (KeyB f) (KeyA f) (GSent rb) (statements b m))
              \<and> r = (if \<forall>(args, e) \<in> set (statements a m @ statements b m). e = None then Some NoDeadlock else None)))"
proof -
  let ?q = "lock_query (dl_Table f) (dl_KeyColumn f)"
  obtain x s1 where b1: "s_Begin sess s = (x, s1)" by force
  show ?thesis
  proof (cases x)
    case (Began a)
    obtain y s2 where b2: "s_Begin sess s1 = (y, s2)" by force
    show ?thesis
    proof (cases y)
      case B: (Began b)
      let ?l0 = "[CBegin (Began a), CBegin (Began b)]"
      obtain ga gb s3 l3 where i: "interleave (logged sess) ?q a b (KeyA f) (KeyB f) sched (GFirst, GFirst, s2, ?l0) = (ga, gb, s3, l3)"
        by (metis prod.exhaust)
      from assms b1 b2 Began B i obtain ra rb where g: "ga = GSent ra" "gb = GSent rb"
        and r: "r = (if ra = None \<and> rb = None then Some NoDeadlock else None)"
        and l: "\<exists>x y. l = l3 @ [CRollback a x, CRollback b y]"
        by (auto simp: Deadlock_Inject_def split: goroutine.splits prod.splits)
      have ol: "only_locks ?q a b []" by (simp add: only_locks_def)
      have i': "interleave (logged sess) ?q a b (KeyA f) (KeyB f) sched (GFirst, GFirst, s2, ?l0 @ []) = (ga, gb, s3, l3)"
        using i by simp
      from interleave_grows [OF i' ol] obtain m where m: "l3 = ?l0 @ m" "only_locks ?q a b m" by blast
      have "progress (KeyA f) (KeyB f) (GSent ra) (statements a m) \<and> progress (KeyB f) (KeyA f) (GSent rb) (statements b m)" if "a \<noteq> b"
        using interleave_log [OF i' that _ _ ol] m(1) g by (simp add: progress_def [of _ _ GFirst])
      moreover have "r = (if \<forall>(args, e) \<in> set (statements a m @ statements b m). e = None then Some NoDeadlock else None)"
        if "progress (KeyA f) (KeyB f) (GSent ra) (statements a m)" "progress (KeyB f) (KeyA f) (GSent rb) (statements b m)"
        using that r by (auto simp: progress_def)
      ultimately show ?thesis using l m by fastforce
    next
      case (BeginError err)
      with assms b1 b2 Began show ?thesis by (auto simp: Deadlock_Inject_def split: prod.splits)
    next
      case BeginBlocked
      with assms b1 b2 Began show ?thesis by (simp add: Deadlock_Inject_def)
    qed
  next
    case (BeginError err)
    with assms b1 show ?thesis by (auto simp: Deadlock_Inject_def)
  next
    case BeginBlocked
    with assms b1 show ?thesis by (simp add: Deadlock_Inject_def)
  qed
qed

definition ex_deadlock :: DeadlockFault where
  "ex_deadlock = \<lparr>dl_Table = ''accounts'', dl_KeyColumn = ''id'', KeyA = ''1'', KeyB = ''2''\<rparr>"

theorem deadlock_protocol_witness:
  "\<exists>l. Deadlock_Inject (logged (ex_session_of (Completed (Some ''deadlock detected'')))) [True, False] ex_deadlock (2, [])
      = (Returned None, 2, l)
     \<and> begun l = [1, 0] \<and> ended l = [1, 0] \<and> statements 1 l = [([VString ''1''], Some ''deadlock detected'')]"
proof -
  let ?S = "logged (ex_session_of (Completed (Some ''deadlock detected'')))"
  have "\<exists>l. Deadlock_Inject ?S [True, False] ex_deadlock (2, []) = (Returned None, 2, l) \<and> begun l = [1, 0]
      \<and> statements 1 l = [([VString ''1''], Some ''deadlock detected'')]"
    by (simp add: Deadlock_Inject_def ex_session_of_def ex_deadlock_def go_step_def numeral_2_eq_2)
  then obtain l where l: "Deadlock_Inject ?S [True, False] ex_deadlock (2, []) = (Returned None, 2, l)" "begun l = [1, 0]"
    "statements 1 l = [([VString ''1''], Some ''deadlock detected'')]" by blast
  from deadlock_protocol [OF l(1)] l(2) have "ended l = [1, 0]" by (auto dest: only_locks_no_ends)
  with l show ?thesis by blast
qed

text \<open>Lock contention likewise ends the one transaction it begins, whenever it returns.\<close>

lemma lock_contention_balanced:
  assumes "LockContention_Inject (logged sess) (\<lambda>d (s, l). (wait d s, l)) f (s, []) = (Returned r, s', l)"
  shows "ended l = begun l"
  using assms
  by (auto simp: LockContention_Inject_def split: prod.splits begin_outcome.splits exec_outcome.splits option.splits)

text \<open>
  A successful failover leaves its transaction open: nothing ends it, so that its connection is
  not given back to the pool.
\<close>

lemma failover_leaves_tx_open:
  assumes "MidTxFailover_Inject (logged sess) (\<lambda>d (s, l). (wait d s, l)) sys fmt t f (s, []) m = (Returned None, (s', l), m')"
  shows "\<exists>tx. begun l = [tx] \<and> ended l = []"
  using assms
  by (auto simp: MidTxFailover_Inject_def Let_def split: prod.splits begin_outcome.splits exec_outcome.splits option.splits)

text \<open>
  A pool that makes callers wait when nothing is free, as one without a deadline does, makes the
  injection wait for ever: the connection it waits for is one that only its own release would
  give back.
\<close>

lemma hold_loop_add:
  "hold_loop sess k held s = (True, held', s') \<Longrightarrow> length held' = length held + k \<Longrightarrow>
     hold_loop sess (k + n) held s = hold_loop sess n held' s'"
proof (induction k arbitrary: held s)
  case (Suc k)
  obtain b s1 where b: "s_Begin sess s = (b, s1)" by force
  with Suc.prems obtain tx where tx: "b = Began tx" by (cases b) auto
  obtain x s2 where x: "tx_Exec sess tx ''SELECT 1'' [] s1 = (x, s2)" by force
  with Suc.prems b tx obtain r where "x = Completed r" by (cases x) auto
  with Suc b tx x show ?case by simp
qed simp

lemma pool_exhaustion_stuck:
  assumes "hold_loop sess k (txs f) s = (True, held, s1)" "length held = length (txs f) + k" "k < nat (HoldConnections f)"
    and "fst (s_Begin sess s1) = BeginBlocked"
  shows "fst (PoolExhaustion_Inject sess f s) = Waiting"
proof -
  obtain m where "nat (HoldConnections f) = k + Suc m" using assms(3) less_iff_Suc_add by auto
  with hold_loop_add [OF assms(1,2), of "Suc m"] assms(4) show ?thesis
    by (auto simp: PoolExhaustion_Inject_def split: prod.splits)
qed

text \<open>
  If one transaction gets both locks before the other has its first, and the other's statement
  stays blocked until the locks are given back (\<open>P\<close> holds until then), the call does not return:
  the locks are given back only after both goroutines have answered.
\<close>

lemma deadlock_serial_waits:
  assumes "s_Begin sess s = (Began a, s1)" "s_Begin sess s1 = (Began b, s2)"
    and "q = lock_query (dl_Table f) (dl_KeyColumn f)"
    and "tx_Exec sess a q [VString (KeyA f)] s2 = (Completed None, s3)" "tx_Exec sess a q [VString (KeyB f)] s3 = (Completed None, s4)"
    and "P s4" "\<And>s. P s \<Longrightarrow> \<exists>s'. tx_Exec sess b q [VString (KeyB f)] s = (Blocked, s') \<and> P s'"
  shows "fst (Deadlock_Inject sess ([True, True] @ rest) f s) = Waiting"
proof -
  have "\<exists>s'. interleave sess q a b (KeyA f) (KeyB f) sched (GSent None, GFirst, s) = (GSent None, GFirst, s')" if "P s" for sched s
    using that
  proof (induction sched arbitrary: s)
    case (Cons x sched)
    obtain s' where s': "tx_Exec sess b q [VString (KeyB f)] s = (Blocked, s')" "P s'" using assms(7) [OF Cons.prems] by blast
    from Cons.IH [OF s'(2)] Cons.IH [OF Cons.prems] s'(1) show ?case by (cases x) (simp_all add: go_step_def)
  qed simp
  from this [OF assms(6), of rest] assms(1-5) show ?thesis by (auto simp: Deadlock_Inject_def go_step_def)
qed

text \<open>
  The backup window loses exactly the writes to its table: on a store whose snapshot reads and
  whose restore sets a table, the table is as before the window and the others as after it.
\<close>

lemma backup_window_rolls_back:
  assumes "\<And>t d. SnapshotTable t d = (Inr (content d t), d)" "\<And>t r d. RestoreTable t r d = (None, put d t r)"
    and "\<And>d t r u. content (put d t r) u = (if u = t then r else content d u)"
  shows "\<exists>f' d'. BackupWindow_Inject SnapshotTable RestoreTable wait f d = (None, f', d')
    \<and> content d' (bw_Table f) = content d (bw_Table f)
    \<and> (\<forall>u. u \<noteq> bw_Table f \<longrightarrow> content d' u = content (wait (OpenFor f) d) u)"
  by (simp add: BackupWindow_Inject_def assms)

end
