(* ===== verification/Registry.thy ===== *)
theory Registry
  imports Db_Faults
begin

text \<open>
  The fault registry of a proxied node (\<^verbatim>\<open>internal/proxy/registry.go\<close>): the four
  lists of live faults, the tickers of the time-varying ones, the generation counter, and
  the connection that rebuilds its wrapper chain when the generation has changed. The
  methods hold the registry's lock, so each is one atomic step.
\<close>

section \<open>The registry\<close>

record ticker =
  tk_fault :: Fault
  tk_start :: instant

record registry =
  gen :: u64
  connFaults :: "Fault list"
  packetFaults :: "PacketFault list"
  dialFaults :: "DNSFailureFault list"
  readHooks :: "ptr list"
  tickers :: "string \<Rightarrow> ticker option"

definition NewRegistry :: registry where
  "NewRegistry = \<lparr>gen = 0, connFaults = [], packetFaults = [], dialFaults = [], readHooks = [], tickers = Map.empty\<rparr>"

text \<open>The names of a dial fault and of a read hook; each of the two interfaces has one implementation.\<close>

definition DNS_Name :: "DNSFailureFault \<Rightarrow> string" where
  "DNS_Name f = ''dns_failure''"

definition StaleRead_Name :: "ptr \<Rightarrow> string" where
  "StaleRead_Name a = ''stale_read''"

fun replaceOrAppend :: "('a \<Rightarrow> string) \<Rightarrow> 'a list \<Rightarrow> 'a \<Rightarrow> 'a list" where
  "replaceOrAppend nm [] f = [f]"
| "replaceOrAppend nm (x # xs) f = (if nm x = nm f then f # xs else x # replaceOrAppend nm xs f)"

fun filter_named :: "('a \<Rightarrow> string) \<Rightarrow> 'a list \<Rightarrow> string \<Rightarrow> bool \<Rightarrow> 'a list \<times> bool" where
  "filter_named nm [] name found = ([], found)"
| "filter_named nm (f # fs) name found =
     (if nm f = name then filter_named nm fs name True
      else (let (out, fd) = filter_named nm fs name found in (f # out, fd)))"

definition is_time_varying :: "Fault \<Rightarrow> bool" where
  "is_time_varying f = (case f of LatencyF _ \<Rightarrow> True | BurstyF _ \<Rightarrow> True | _ \<Rightarrow> False)"

definition startTickerLocked :: "Fault \<Rightarrow> instant \<Rightarrow> registry \<Rightarrow> registry" where
  "startTickerLocked tv t r = r\<lparr>tickers := (tickers r)(Fault_Name tv \<mapsto> \<lparr>tk_fault = tv, tk_start = t\<rparr>)\<rparr>"

definition stopTickerLocked :: "string \<Rightarrow> registry \<Rightarrow> registry" where
  "stopTickerLocked name r = r\<lparr>tickers := (tickers r)(name := None)\<rparr>"

definition RegisterConnFault :: "Fault \<Rightarrow> instant \<Rightarrow> registry \<Rightarrow> registry" where
  "RegisterConnFault f t r =
     (let r1 = stopTickerLocked (Fault_Name f) r;
          r2 = r1\<lparr>connFaults := replaceOrAppend Fault_Name (connFaults r1) f, gen := gen r1 + 1\<rparr>
      in if is_time_varying f then startTickerLocked f t r2 else r2)"

definition RegisterPacketFault :: "PacketFault \<Rightarrow> registry \<Rightarrow> registry" where
  "RegisterPacketFault f r =
     r\<lparr>packetFaults := replaceOrAppend Packet_Name (packetFaults r) f, gen := gen r + 1\<rparr>"

definition RegisterDialFault :: "DNSFailureFault \<Rightarrow> registry \<Rightarrow> registry" where
  "RegisterDialFault f r = r\<lparr>dialFaults := replaceOrAppend DNS_Name (dialFaults r) f, gen := gen r + 1\<rparr>"

definition RegisterReadHook :: "ptr \<Rightarrow> registry \<Rightarrow> registry" where
  "RegisterReadHook f r = r\<lparr>readHooks := replaceOrAppend StaleRead_Name (readHooks r) f, gen := gen r + 1\<rparr>"

definition Unregister :: "string \<Rightarrow> registry \<Rightarrow> bool \<times> registry" where
  "Unregister name r =
     (let (cf, f1) = filter_named Fault_Name (connFaults r) name False;
          (pf, f2) = filter_named Packet_Name (packetFaults r) name f1;
          (df, f3) = filter_named DNS_Name (dialFaults r) name f2;
          (rh, found) = filter_named StaleRead_Name (readHooks r) name f3;
          r1 = stopTickerLocked name (r\<lparr>connFaults := cf, packetFaults := pf, dialFaults := df, readHooks := rh\<rparr>)
      in (found, if found then r1\<lparr>gen := gen r1 + 1\<rparr> else r1))"

definition Clear :: "registry \<Rightarrow> registry" where
  "Clear r = \<lparr>gen = gen r + 1, connFaults = [], packetFaults = [], dialFaults = [], readHooks = [],
              tickers = Map.empty\<rparr>"

definition Get :: "registry \<Rightarrow> string \<Rightarrow> Fault option" where
  "Get r name = find (\<lambda>f. Fault_Name f = name) (connFaults r)"

definition Names :: "registry \<Rightarrow> string list" where
  "Names r = map Fault_Name (connFaults r) @ map Packet_Name (packetFaults r)
             @ map DNS_Name (dialFaults r) @ map StaleRead_Name (readHooks r)"

text \<open>The copies that the hot path works on.\<close>

definition PacketFaults :: "registry \<Rightarrow> PacketFault list" where
  [simp]: "PacketFaults r = packetFaults r"

definition DialFaults :: "registry \<Rightarrow> DNSFailureFault list" where
  [simp]: "DialFaults r = dialFaults r"

definition ReadHooks :: "registry \<Rightarrow> ptr list" where
  [simp]: "ReadHooks r = readHooks r"

text \<open>One beat of the ticker goroutine of fault \<open>name\<close>; \<open>Tick\<close> of bursty loss does nothing.\<close>

definition ticker_fire :: "string \<Rightarrow> registry \<Rightarrow> world \<Rightarrow> world" where
  "ticker_fire name r w =
     (case tickers r name of
        Some tk \<Rightarrow>
          (case tk_fault tk of
             LatencyF a \<Rightarrow>
               (case heap w a of
                  Some (OLatency f) \<Rightarrow>
                    w\<lparr>heap := (heap w)(a \<mapsto> OLatency (Latency_Tick f (time_Sub (now w) (tk_start tk))))\<rparr>
                | _ \<Rightarrow> w)
           | _ \<Rightarrow> w)
      | None \<Rightarrow> w)"

section \<open>Wrapping\<close>

primrec apply_all :: "Fault list \<Rightarrow> Direction \<Rightarrow> conn \<times> world \<Rightarrow> (conn \<times> world) option" where
  "apply_all [] dir cw = Some cw"
| "apply_all (f # fs) dir cw =
     (case Apply f dir (fst cw) (snd cw) of Some cw' \<Rightarrow> apply_all fs dir cw' | None \<Rightarrow> None)"

definition is_RST :: "Fault \<Rightarrow> bool" where
  "is_RST f = (case f of RSTF \<Rightarrow> True | _ \<Rightarrow> False)"

definition reg_wrap :: "registry \<Rightarrow> conn \<Rightarrow> Direction \<Rightarrow> world \<Rightarrow> (conn \<times> u64 \<times> world) option" where
  "reg_wrap r raw dir w =
     (case apply_all (filter is_RST (connFaults r)) dir (raw, w) of
        None \<Rightarrow> None
      | Some cw \<Rightarrow>
          (case apply_all (filter (\<lambda>f. \<not> is_RST f) (connFaults r)) dir cw of
             None \<Rightarrow> None
           | Some (c, w') \<Rightarrow> Some (c, gen r, w')))"

record liveConn =
  lc_raw :: conn_id
  lc_dir :: Direction
  lc_gen :: u64
  wrapped :: "conn option"

definition Wrap :: "conn_id \<Rightarrow> Direction \<Rightarrow> liveConn" where
  "Wrap i dir = \<lparr>lc_raw = i, lc_dir = dir, lc_gen = 0, wrapped = None\<rparr>"

definition rewrap :: "registry \<Rightarrow> liveConn \<Rightarrow> world \<Rightarrow> (liveConn \<times> world) option" where
  "rewrap r c w =
     (if wrapped c = None \<or> lc_gen c \<noteq> gen r
      then (case reg_wrap r (Raw (lc_raw c)) (lc_dir c) w of
              None \<Rightarrow> None
            | Some (ch, g, w1) \<Rightarrow> Some (c\<lparr>wrapped := Some ch, lc_gen := g\<rparr>, w1))
      else Some (c, w))"

definition liveConn_Write :: "registry \<Rightarrow> liveConn \<Rightarrow> chunk \<Rightarrow> world \<Rightarrow> write_result \<times> liveConn \<times> world" where
  "liveConn_Write r c p w =
     (case rewrap r c w of
        None \<Rightarrow> (Panicked, c, w)
      | Some (c', w1) \<Rightarrow>
          (case wrapped c' of
             None \<Rightarrow> (Panicked, c', w1)
           | Some ch \<Rightarrow> (let (res, w2) = Write ch p w1 in (res, c', w2))))"

section \<open>Keyed lists\<close>

lemma filter_named_eq:
  "filter_named nm xs name found = (filter (\<lambda>f. nm f \<noteq> name) xs, found \<or> (\<exists>f \<in> set xs. nm f = name))"
  by (induction xs arbitrary: found) auto

lemma replaceOrAppend_set:
  "distinct (map nm xs) \<Longrightarrow> set (replaceOrAppend nm xs f) = insert f {g \<in> set xs. nm g \<noteq> nm f}"
  by (induction xs) (auto simp: image_iff)

lemma replaceOrAppend_names:
  "map nm (replaceOrAppend nm xs f) = (if nm f \<in> nm ` set xs then map nm xs else map nm xs @ [nm f])"
  by (induction xs) auto

lemma replaceOrAppend_distinct: "distinct (map nm xs) \<Longrightarrow> distinct (map nm (replaceOrAppend nm xs f))"
  by (auto simp: replaceOrAppend_names)

text \<open>
  The contract of a fault table: what registering and unregistering do to the list of live
  faults of one interface. \<open>find\<close> on that list is how a fault is looked up by name.
\<close>

locale fault_table =
  fixes nm :: "'a \<Rightarrow> string"
    and put :: "'a \<Rightarrow> 't \<Rightarrow> 't"
    and remove :: "string \<Rightarrow> 't \<Rightarrow> 't"
    and items :: "'t \<Rightarrow> 'a list"
  assumes items_put: "distinct (map nm (items t)) \<Longrightarrow> set (items (put f t)) = insert f {g \<in> set (items t). nm g \<noteq> nm f}"
    and distinct_put: "distinct (map nm (items t)) \<Longrightarrow> distinct (map nm (items (put f t)))"
    and items_remove: "items (remove n t) = filter (\<lambda>g. nm g \<noteq> n) (items t)"
begin

lemma find_iff:
  "distinct (map nm xs) \<Longrightarrow> find (\<lambda>g. nm g = n) xs = Some f \<longleftrightarrow> f \<in> set xs \<and> nm f = n"
  by (induction xs) (auto simp: image_iff)

lemma find_None: "find (\<lambda>g. nm g = n) xs = None \<longleftrightarrow> n \<notin> nm ` set xs"
  by (auto simp: find_None_iff)

lemma find_put:
  assumes "distinct (map nm (items t))"
  shows "find (\<lambda>g. nm g = n) (items (put f t)) = (if n = nm f then Some f else find (\<lambda>g. nm g = n) (items t))"
proof -
  have *: "find (\<lambda>g. nm g = n) (items (put f t)) = Some h \<longleftrightarrow>
    (if n = nm f then Some f else find (\<lambda>g. nm g = n) (items t)) = Some h" for h
    using assms by (auto simp: find_iff distinct_put items_put)
  show ?thesis
    by (cases "find (\<lambda>g. nm g = n) (items (put f t))";
        cases "if n = nm f then Some f else find (\<lambda>g. nm g = n) (items t)") (metis * option.distinct(1))+
qed

lemma distinct_remove: "distinct (map nm (items t)) \<Longrightarrow> distinct (map nm (items (remove n t)))"
  by (simp add: items_remove distinct_map_filter)

lemma find_remove:
  "find (\<lambda>g. nm g = m) (items (remove n t)) = (if m = n then None else find (\<lambda>g. nm g = m) (items t))"
proof -
  have "find (\<lambda>g. nm g = m) (filter (\<lambda>g. nm g \<noteq> n) xs) = (if m = n then None else find (\<lambda>g. nm g = m) xs)" for xs
    by (induction xs) auto
  then show ?thesis by (simp add: items_remove)
qed

lemma put_remove_find:
  "distinct (map nm (items t)) \<Longrightarrow>
     find (\<lambda>g. nm g = m) (items (remove (nm f) (put f t))) = find (\<lambda>g. nm g = m) (items (remove (nm f) t))"
  by (simp add: find_remove find_put)

end

section \<open>What the operations do to each field\<close>

lemma register_conn_fields [simp]:
  "connFaults (RegisterConnFault f t r) = replaceOrAppend Fault_Name (connFaults r) f"
  "packetFaults (RegisterConnFault f t r) = packetFaults r"
  "dialFaults (RegisterConnFault f t r) = dialFaults r"
  "readHooks (RegisterConnFault f t r) = readHooks r"
  "gen (RegisterConnFault f t r) = gen r + 1"
  "tickers (RegisterConnFault f t r) = (tickers r)(Fault_Name f :=
     (if is_time_varying f then Some \<lparr>tk_fault = f, tk_start = t\<rparr> else None))"
  by (simp_all add: RegisterConnFault_def startTickerLocked_def stopTickerLocked_def Let_def)

lemma unregister_found:
  "fst (Unregister n r) \<longleftrightarrow> n \<in> set (Names r)"
  by (auto simp: Unregister_def Names_def filter_named_eq Let_def)

lemma unregister_fields [simp]:
  "connFaults (snd (Unregister n r)) = filter (\<lambda>f. Fault_Name f \<noteq> n) (connFaults r)"
  "packetFaults (snd (Unregister n r)) = filter (\<lambda>f. Packet_Name f \<noteq> n) (packetFaults r)"
  "dialFaults (snd (Unregister n r)) = filter (\<lambda>f. DNS_Name f \<noteq> n) (dialFaults r)"
  "readHooks (snd (Unregister n r)) = filter (\<lambda>f. StaleRead_Name f \<noteq> n) (readHooks r)"
  "tickers (snd (Unregister n r)) = (tickers r)(n := None)"
  by (simp_all add: Unregister_def stopTickerLocked_def filter_named_eq Let_def)

lemma unregister_gen: "gen (snd (Unregister n r)) = (if n \<in> set (Names r) then gen r + 1 else gen r)"
proof -
  have "gen (snd (Unregister n r)) = (if fst (Unregister n r) then gen r + 1 else gen r)"
    by (simp add: Unregister_def stopTickerLocked_def filter_named_eq Let_def)
  then show ?thesis by (simp add: unregister_found)
qed

interpretation connTab: fault_table Fault_Name "\<lambda>f. RegisterConnFault f t" "\<lambda>n r. snd (Unregister n r)" connFaults for t
  by unfold_locales (auto simp: replaceOrAppend_set replaceOrAppend_distinct)

interpretation packetTab: fault_table Packet_Name RegisterPacketFault "\<lambda>n r. snd (Unregister n r)" packetFaults
  by unfold_locales (auto simp: RegisterPacketFault_def replaceOrAppend_set replaceOrAppend_distinct)

interpretation dialTab: fault_table DNS_Name RegisterDialFault "\<lambda>n r. snd (Unregister n r)" dialFaults
  by unfold_locales (auto simp: RegisterDialFault_def replaceOrAppend_set replaceOrAppend_distinct)

interpretation hookTab: fault_table StaleRead_Name RegisterReadHook "\<lambda>n r. snd (Unregister n r)" readHooks
  by unfold_locales (auto simp: RegisterReadHook_def replaceOrAppend_set replaceOrAppend_distinct)

section \<open>Sequences of registry operations\<close>

datatype reg_op =
    RegConn Fault
  | RegPacket PacketFault
  | RegDial DNSFailureFault
  | RegHook ptr
  | Unreg string
  | ClearAll

primrec reg_apply :: "reg_op \<Rightarrow> instant \<Rightarrow> registry \<Rightarrow> registry" where
  "reg_apply (RegConn f) t r = RegisterConnFault f t r"
| "reg_apply (RegPacket f) t r = RegisterPacketFault f r"
| "reg_apply (RegDial f) t r = RegisterDialFault f r"
| "reg_apply (RegHook a) t r = RegisterReadHook a r"
| "reg_apply (Unreg n) t r = snd (Unregister n r)"
| "reg_apply ClearAll t r = Clear r"

definition reg_run :: "(reg_op \<times> instant) list \<Rightarrow> registry \<Rightarrow> registry" where
  "reg_run ops r = foldl (\<lambda>r (op, t). reg_apply op t r) r ops"

text \<open>
  The invariant: within a list names are unique, and the running tickers are exactly those
  of the registered time-varying connection faults.
\<close>

definition reg_ok :: "registry \<Rightarrow> bool" where
  "reg_ok r \<longleftrightarrow>
     distinct (map Fault_Name (connFaults r)) \<and> distinct (map Packet_Name (packetFaults r))
     \<and> distinct (map DNS_Name (dialFaults r)) \<and> distinct (map StaleRead_Name (readHooks r))
     \<and> (\<forall>n. map_option tk_fault (tickers r n) = find (\<lambda>f. Fault_Name f = n) (filter is_time_varying (connFaults r)))"

lemma find_filter_named:
  "find (\<lambda>f. nm f = n) (filter P xs) = (case find (\<lambda>f. nm f = n) xs of Some f \<Rightarrow> if P f then Some f else None | None \<Rightarrow> None)"
  if "distinct (map nm xs)"
  using that
proof (induction xs)
  case (Cons x xs)
  have "find (\<lambda>f. nm f = nm x) xs = None" using Cons.prems by (auto simp: find_None_iff image_iff)
  with Cons show ?case by (auto split: option.splits)
qed simp

lemma reg_ok_alt:
  "reg_ok r \<longleftrightarrow>
     distinct (map Fault_Name (connFaults r)) \<and> distinct (map Packet_Name (packetFaults r))
     \<and> distinct (map DNS_Name (dialFaults r)) \<and> distinct (map StaleRead_Name (readHooks r))
     \<and> (\<forall>n. map_option tk_fault (tickers r n) =
          (case find (\<lambda>f. Fault_Name f = n) (connFaults r) of Some f \<Rightarrow> if is_time_varying f then Some f else None | None \<Rightarrow> None))"
  by (auto simp: reg_ok_def find_filter_named)

lemma reg_ok_apply:
  assumes "reg_ok r"
  shows "reg_ok (reg_apply op t r)"
proof (cases op)
  case (RegConn f)
  with assms show ?thesis
    using connTab.find_put [of r _ f t] connTab.distinct_put [of r f t] by (auto simp: reg_ok_alt)
next
  case (RegPacket f)
  with assms show ?thesis using packetTab.distinct_put [of r f] by (simp add: reg_ok_alt RegisterPacketFault_def)
next
  case (RegDial f)
  with assms show ?thesis using dialTab.distinct_put [of r f] by (simp add: reg_ok_alt RegisterDialFault_def)
next
  case (RegHook f)
  with assms show ?thesis using hookTab.distinct_put [of r f] by (simp add: reg_ok_alt RegisterReadHook_def)
next
  case (Unreg n)
  with assms show ?thesis using connTab.find_remove [of _ n r] by (auto simp: reg_ok_alt distinct_map_filter)
next
  case ClearAll
  then show ?thesis by (simp add: reg_ok_def Clear_def)
qed

lemma reg_ok_new: "reg_ok NewRegistry"
  by (simp add: reg_ok_def NewRegistry_def)

lemma reg_ok_run: "reg_ok r \<Longrightarrow> reg_ok (reg_run ops r)"
  by (induction ops arbitrary: r) (auto simp: reg_run_def reg_ok_apply split: prod.splits)

section \<open>The abstract registry: a map from interface and name to the live fault\<close>

datatype entry = EConn Fault | EPacket PacketFault | EDial DNSFailureFault | EHook ptr

datatype table = ConnT | PacketT | DialT | HookT

definition reg_abs :: "registry \<Rightarrow> table \<times> string \<Rightarrow> entry option" where
  "reg_abs r = (\<lambda>(k, n). case k of
       ConnT \<Rightarrow> map_option EConn (find (\<lambda>f. Fault_Name f = n) (connFaults r))
     | PacketT \<Rightarrow> map_option EPacket (find (\<lambda>f. Packet_Name f = n) (packetFaults r))
     | DialT \<Rightarrow> map_option EDial (find (\<lambda>f. DNS_Name f = n) (dialFaults r))
     | HookT \<Rightarrow> map_option EHook (find (\<lambda>f. StaleRead_Name f = n) (readHooks r)))"

primrec spec_apply :: "reg_op \<Rightarrow> (table \<times> string \<Rightarrow> entry option) \<Rightarrow> table \<times> string \<Rightarrow> entry option" where
  "spec_apply (RegConn f) m = m((ConnT, Fault_Name f) \<mapsto> EConn f)"
| "spec_apply (RegPacket f) m = m((PacketT, Packet_Name f) \<mapsto> EPacket f)"
| "spec_apply (RegDial f) m = m((DialT, DNS_Name f) \<mapsto> EDial f)"
| "spec_apply (RegHook a) m = m((HookT, StaleRead_Name a) \<mapsto> EHook a)"
| "spec_apply (Unreg n) m = (\<lambda>(k, x). if x = n then None else m (k, x))"
| "spec_apply ClearAll m = Map.empty"

lemma reg_apply_refines:
  assumes "reg_ok r"
  shows "reg_abs (reg_apply op t r) = spec_apply op (reg_abs r)"
proof -
  have ok: "distinct (map Fault_Name (connFaults r))" "distinct (map Packet_Name (packetFaults r))"
    "distinct (map DNS_Name (dialFaults r))" "distinct (map StaleRead_Name (readHooks r))"
    using assms by (simp_all add: reg_ok_def)
  have "reg_abs (reg_apply op t r) (k, n) = spec_apply op (reg_abs r) (k, n)" for k n
    using connTab.find_put [OF ok(1), of n _ t] packetTab.find_put [OF ok(2), of n]
      dialTab.find_put [OF ok(3), of n] hookTab.find_put [OF ok(4), of n]
      connTab.find_remove [of n _ r] packetTab.find_remove [of n _ r]
      dialTab.find_remove [of n _ r] hookTab.find_remove [of n _ r]
    by (cases op; cases k)
      (simp_all add: reg_abs_def Clear_def RegisterPacketFault_def RegisterDialFault_def RegisterReadHook_def)
  then show ?thesis by (intro ext) (metis surj_pair)
qed

section \<open>Properties\<close>

text \<open>
  C18: the registry implements a map. After any sequence of operations on a new registry
  the fault found under an interface and a name is the one the map specification gives:
  registering overwrites the entry of that interface and name only, unregistering a name
  clears it in all four interfaces, clearing empties the map.
\<close>

theorem registry_refines_map:
  "reg_abs (reg_run ops NewRegistry) = foldl (\<lambda>m (op, t). spec_apply op m) Map.empty ops"
proof -
  have "reg_ok r \<Longrightarrow> reg_abs (reg_run ops r) = foldl (\<lambda>m (op, t). spec_apply op m) (reg_abs r) ops" for r
    by (induction ops arbitrary: r) (auto simp: reg_run_def reg_apply_refines reg_ok_apply split: prod.splits)
  moreover have "reg_abs NewRegistry = Map.empty"
    by (auto simp: reg_abs_def NewRegistry_def fun_eq_iff split: table.splits)
  ultimately show ?thesis using reg_ok_new by simp
qed

text \<open>
  C19: no fault is registered twice under a name, and the tickers are exactly those of the
  registered time-varying connection faults: a ticker drives a fault that is registered
  under its name, and neither a replaced nor an unregistered fault has one.
\<close>

theorem registry_tickers_exact:
  "distinct (map Fault_Name (connFaults (reg_run ops NewRegistry)))
   \<and> (\<forall>n. map_option tk_fault (tickers (reg_run ops NewRegistry) n) =
        (case Get (reg_run ops NewRegistry) n of
           Some f \<Rightarrow> if is_time_varying f then Some f else None
         | None \<Rightarrow> None))"
  using reg_ok_run [OF reg_ok_new, of ops] by (simp add: reg_ok_alt Get_def)

section \<open>The chain a wrap builds\<close>

text \<open>The layers of a chain, innermost first, and the layers a list of faults asks for.\<close>

datatype layer =
    LLatency ptr
  | LThrottle ptr
  | LReorder int real
  | LDup real int
  | LBlackhole
  | LBursty ptr

primrec layers :: "conn \<Rightarrow> layer list" where
  "layers (Raw i) = []"
| "layers (LatencyConn c a) = layers c @ [LLatency a]"
| "layers (ThrottleConn c a) = layers c @ [LThrottle a]"
| "layers (ReorderConn c b s q) = layers c @ [LReorder s q]"
| "layers (DupConn c q m) = layers c @ [LDup q m]"
| "layers (BlackholeConn c) = layers c @ [LBlackhole]"
| "layers (BurstyLossConn c a) = layers c @ [LBursty a]"

definition layer_of :: "Direction \<Rightarrow> Fault \<Rightarrow> layer list" where
  "layer_of dir f =
     (case f of
        LatencyF a \<Rightarrow> [LLatency a]
      | ThrottleF a \<Rightarrow> [LThrottle a]
      | ReorderF r \<Rightarrow> [LReorder (BufferSize r) (ro_Probability r)]
      | DuplicationF d \<Rightarrow> [LDup (dup_Probability d) (MaxExtraCopies d)]
      | AsymmetricF a \<Rightarrow> (if dir = BlockDirection a then [LBlackhole] else [])
      | RSTF \<Rightarrow> []
      | DNSF d \<Rightarrow> []
      | BurstyF a \<Rightarrow> [LBursty a])"

definition expected_layers :: "Direction \<Rightarrow> Fault list \<Rightarrow> layer list" where
  "expected_layers dir fs = concat (map (layer_of dir) fs)"

definition buildable :: "Fault \<Rightarrow> bool" where
  "buildable f = (case f of ReorderF r \<Rightarrow> 0 \<le> BufferSize r | _ \<Rightarrow> True)"

text \<open>What building a chain leaves alone: the wires, the clock, and the buffers already given out.\<close>

definition wrap_frame :: "world \<Rightarrow> world \<Rightarrow> bool" where
  "wrap_frame w w' \<longleftrightarrow> wire w' = wire w \<and> heap w' = heap w \<and> now w' = now w \<and> next_buf w \<le> next_buf w'
     \<and> linger0 w \<subseteq> linger0 w' \<and> (\<forall>b < next_buf w. bufs w' b = bufs w b)"

definition fresh_bufs :: "world \<Rightarrow> conn \<Rightarrow> world \<Rightarrow> bool" where
  "fresh_bufs w c w' \<longleftrightarrow> (\<forall>b \<in> bufs_of c. next_buf w \<le> b \<and> b < next_buf w' \<and> bufs w' b = [])"

lemma apply_one:
  assumes "Apply f dir c w1 = Some (c', w')" "wrap_frame w w1" "fresh_bufs w c w1"
  shows "layers c' = layers c @ layer_of dir f \<and> raw_of c' = raw_of c \<and> wrap_frame w w' \<and> fresh_bufs w c' w'"
  using assms
  by (cases f)
    (auto simp: Apply_def layer_of_def wrap_frame_def fresh_bufs_def less_Suc_eq split: if_splits conn.splits)

lemma apply_all_layers:
  assumes "apply_all fs dir (c, w1) = Some (c', w')" "wrap_frame w w1" "fresh_bufs w c w1"
  shows "layers c' = layers c @ expected_layers dir fs \<and> raw_of c' = raw_of c \<and> wrap_frame w w' \<and> fresh_bufs w c' w'"
  using assms
proof (induction fs arbitrary: c w1)
  case (Cons f fs)
  then obtain c2 w2 where 2: "Apply f dir c w1 = Some (c2, w2)" by (auto split: option.splits)
  from Cons.IH [of c2 w2] apply_one [OF 2 Cons.prems(2,3)] Cons.prems(1) 2 show ?case
    by (simp add: expected_layers_def)
qed (simp add: expected_layers_def)

lemma apply_all_buildable:
  "\<forall>f \<in> set fs. buildable f \<Longrightarrow> \<exists>cw'. apply_all fs dir cw = Some cw'"
proof (induction fs arbitrary: cw)
  case (Cons f fs)
  then have "\<exists>cw'. Apply f dir (fst cw) (snd cw) = Some cw'"
    by (cases f) (auto simp: Apply_def buildable_def)
  with Cons show ?case by auto
qed simp

lemma apply_rst:
  "\<forall>f \<in> set fs. is_RST f \<Longrightarrow> apply_all fs dir (Raw i, w) = Some (Raw i, w\<lparr>linger0 := linger0 w \<union> (if fs = [] then {} else {i})\<rparr>)"
  by (induction fs arbitrary: w) (auto simp: is_RST_def Apply_def split: Fault.splits)

lemma expected_layers_RST: "expected_layers dir (filter (\<lambda>f. \<not> is_RST f) fs) = expected_layers dir fs"
  by (induction fs) (auto simp: expected_layers_def layer_of_def is_RST_def split: Fault.splits)

lemma frame_refl: "wrap_frame w w" "fresh_bufs w (Raw i) w"
  by (simp_all add: wrap_frame_def fresh_bufs_def)

lemma reg_wrap_layers:
  assumes "reg_wrap r (Raw i) dir w = Some (c, g, w')"
  shows "layers c = expected_layers dir (connFaults r) \<and> raw_of c = i \<and> g = gen r
    \<and> wrap_frame w w' \<and> fresh_bufs w c w' \<and> (RSTF \<in> set (connFaults r) \<longrightarrow> i \<in> linger0 w')"
proof -
  let ?rst = "filter is_RST (connFaults r)"
  define w1 where "w1 = w\<lparr>linger0 := linger0 w \<union> (if ?rst = [] then {} else {i})\<rparr>"
  have 1: "apply_all ?rst dir (Raw i, w) = Some (Raw i, w1)" using apply_rst [of ?rst dir i w] by (simp add: w1_def)
  then have 2: "apply_all (filter (\<lambda>f. \<not> is_RST f) (connFaults r)) dir (Raw i, w1) = Some (c, w')" and g: "g = gen r"
    using assms by (auto simp: reg_wrap_def split: option.splits)
  have w1: "wrap_frame w w1" "fresh_bufs w (Raw i) w1" by (auto simp: wrap_frame_def fresh_bufs_def w1_def)
  note l = apply_all_layers [OF 2 w1]
  have "?rst \<noteq> []" if "RSTF \<in> set (connFaults r)"
    using that by (auto simp: filter_empty_conv is_RST_def intro!: bexI [of _ RSTF])
  then have "RSTF \<in> set (connFaults r) \<longrightarrow> i \<in> linger0 w1" by (auto simp: w1_def)
  moreover have "linger0 w1 \<subseteq> linger0 w'" using apply_all_layers [OF 2 frame_refl]
    by (auto simp: wrap_frame_def)
  ultimately show ?thesis using l g by (auto simp: expected_layers_RST)
qed

lemma reg_wrap_total: "\<forall>f \<in> set (connFaults r). buildable f \<Longrightarrow> \<exists>x. reg_wrap r c dir w = Some x"
proof -
  assume b: "\<forall>f \<in> set (connFaults r). buildable f"
  obtain cw where 1: "apply_all (filter is_RST (connFaults r)) dir (c, w) = Some cw"
    using apply_all_buildable [of "filter is_RST (connFaults r)"] b by fastforce
  obtain cw' where 2: "apply_all (filter (\<lambda>f. \<not> is_RST f) (connFaults r)) dir cw = Some cw'"
    using apply_all_buildable [of "filter (\<lambda>f. \<not> is_RST f) (connFaults r)"] b by fastforce
  from 1 2 show ?thesis by (auto simp: reg_wrap_def split: prod.splits)
qed

section \<open>Live updates\<close>

text \<open>A connection in use: the registry is changed and chunks are written, in any order.\<close>

datatype conn_event = Mutate reg_op instant | Send chunk

primrec live_step :: "conn_event \<Rightarrow> registry \<times> liveConn \<times> world \<Rightarrow> registry \<times> liveConn \<times> world" where
  "live_step (Mutate op t) s = (case s of (r, c, w) \<Rightarrow> (reg_apply op t r, c, w))"
| "live_step (Send p) s = (case s of (r, c, w) \<Rightarrow> (r, snd (liveConn_Write r c p w)))"

definition live_run :: "conn_event list \<Rightarrow> registry \<times> liveConn \<times> world \<Rightarrow> registry \<times> liveConn \<times> world" where
  "live_run es s = foldl (\<lambda>s e. live_step e s) s es"

lemma reg_apply_gen:
  "gen (reg_apply op t r) = gen r + 1 \<or> (gen (reg_apply op t r) = gen r \<and> connFaults (reg_apply op t r) = connFaults r)"
proof (cases op)
  case (Unreg n)
  have "filter (\<lambda>f. Fault_Name f \<noteq> n) (connFaults r) = connFaults r" if "n \<notin> set (Names r)"
    using that by (auto simp: Names_def filter_id_conv)
  with Unreg show ?thesis by (simp add: unregister_gen)
qed (simp_all add: RegisterPacketFault_def RegisterDialFault_def RegisterReadHook_def Clear_def)

text \<open>
  The chain was built \<open>k\<close> generations ago, at most \<open>n\<close>; if \<open>k = 0\<close> it is the chain of the
  current faults.
\<close>

definition in_sync :: "nat \<Rightarrow> registry \<Rightarrow> liveConn \<Rightarrow> bool" where
  "in_sync n r c \<longleftrightarrow>
     (\<forall>ch. wrapped c = Some ch \<longrightarrow>
        (\<exists>k \<le> n. gen r = lc_gen c + of_nat k
           \<and> (k = 0 \<longrightarrow> layers ch = expected_layers (lc_dir c) (connFaults r) \<and> raw_of ch = lc_raw c)))"

lemma in_sync_mono: "in_sync n r c \<Longrightarrow> n \<le> m \<Longrightarrow> in_sync m r c"
  by (meson in_sync_def order_trans)

lemma in_sync_mutate:
  assumes "in_sync n r c"
  shows "in_sync (Suc n) (reg_apply op t r) c"
  unfolding in_sync_def
proof (intro allI impI)
  fix ch assume "wrapped c = Some ch"
  with assms obtain k where k: "k \<le> n" "gen r = lc_gen c + of_nat k"
    "k = 0 \<longrightarrow> layers ch = expected_layers (lc_dir c) (connFaults r) \<and> raw_of ch = lc_raw c"
    by (auto simp: in_sync_def)
  from reg_apply_gen [of op t r]
  show "\<exists>k \<le> Suc n. gen (reg_apply op t r) = lc_gen c + of_nat k
      \<and> (k = 0 \<longrightarrow> layers ch = expected_layers (lc_dir c) (connFaults (reg_apply op t r)) \<and> raw_of ch = lc_raw c)"
  proof
    assume "gen (reg_apply op t r) = gen r + 1"
    with k show ?thesis by (intro exI [of _ "Suc k"]) simp
  next
    assume "gen (reg_apply op t r) = gen r \<and> connFaults (reg_apply op t r) = connFaults r"
    with k show ?thesis by (intro exI [of _ k]) auto
  qed
qed

lemma rewrap_in_sync:
  assumes "in_sync n r c" "n < 2 ^ 64" "rewrap r c w = Some (c', w')"
  shows "\<exists>ch. wrapped c' = Some ch \<and> layers ch = expected_layers (lc_dir c) (connFaults r) \<and> raw_of ch = lc_raw c
    \<and> lc_gen c' = gen r \<and> lc_dir c' = lc_dir c \<and> lc_raw c' = lc_raw c"
proof (cases "wrapped c = None \<or> lc_gen c \<noteq> gen r")
  case True
  with assms(3) obtain ch g where 1: "reg_wrap r (Raw (lc_raw c)) (lc_dir c) w = Some (ch, g, w')"
    and 2: "c' = c\<lparr>wrapped := Some ch, lc_gen := g\<rparr>" by (auto simp: rewrap_def split: option.splits)
  from reg_wrap_layers [OF 1] 2 show ?thesis by simp
next
  case False
  then obtain ch where ch: "wrapped c = Some ch" "lc_gen c = gen r" by auto
  with assms(1) obtain k where k: "k \<le> n" "gen r = lc_gen c + of_nat k"
    "k = 0 \<longrightarrow> layers ch = expected_layers (lc_dir c) (connFaults r) \<and> raw_of ch = lc_raw c"
    by (auto simp: in_sync_def)
  have "(of_nat k :: u64) = 0" using k(2) ch(2) by simp
  then have "2 ^ 64 dvd k" by (simp add: word_of_nat_eq_0_iff)
  with k(1) assms(2) have "k = 0" by (metis dvd_imp_le le_less_trans not_gr_zero not_le)
  with k(3) ch False assms(3) show ?thesis by (auto simp: rewrap_def)
qed

lemma write_in_sync:
  assumes "in_sync n r c" "n < 2 ^ 64"
  shows "in_sync n r (fst (snd (liveConn_Write r c p w)))"
proof (cases "rewrap r c w")
  case None
  with assms show ?thesis by (simp add: liveConn_Write_def)
next
  case (Some cw)
  then obtain c' w' where cw: "rewrap r c w = Some (c', w')" by (cases cw) auto
  from rewrap_in_sync [OF assms cw] obtain ch where ch: "wrapped c' = Some ch"
    "layers ch = expected_layers (lc_dir c) (connFaults r)" "raw_of ch = lc_raw c" "lc_gen c' = gen r"
    "lc_dir c' = lc_dir c" "lc_raw c' = lc_raw c" by blast
  have "fst (snd (liveConn_Write r c p w)) = c'" using cw ch(1) by (simp add: liveConn_Write_def split: prod.splits)
  moreover have "in_sync n r c'" unfolding in_sync_def using ch by (intro allI impI exI [of _ 0]) simp
  ultimately show ?thesis by simp
qed

lemma live_run_in_sync:
  assumes "live_run es s = (r, c, w)" "in_sync n (fst s) (fst (snd s))" "n + length es < 2 ^ 64"
  shows "in_sync (n + length es) r c"
  using assms
proof (induction es arbitrary: s n)
  case (Cons e es)
  obtain r0 c0 w0 where s: "s = (r0, c0, w0)" by (cases s)
  have "in_sync (Suc n) (fst (live_step e s)) (fst (snd (live_step e s)))"
  proof (cases e)
    case (Mutate op t)
    with Cons.prems(2) s show ?thesis by (simp add: in_sync_mutate)
  next
    case (Send p)
    have "in_sync n r0 (fst (snd (liveConn_Write r0 c0 p w0)))"
      using Cons.prems(2,3) s by (intro write_in_sync) simp_all
    from in_sync_mono [OF this, of "Suc n"] show ?thesis using Send s by simp
  qed
  from Cons.IH [OF _ this] Cons.prems(1,3) show ?case by (simp add: live_run_def)
qed (simp add: live_run_def)

lemma live_run_frame: "lc_dir (fst (snd (live_run es s))) = lc_dir (fst (snd s)) \<and> lc_raw (fst (snd (live_run es s))) = lc_raw (fst (snd s))"
proof (induction es arbitrary: s)
  case (Cons e es)
  obtain r c w where s: "s = (r, c, w)" by (cases s)
  have "lc_dir (fst (snd (live_step e s))) = lc_dir c \<and> lc_raw (fst (snd (live_step e s))) = lc_raw c"
    by (cases e) (auto simp: s liveConn_Write_def rewrap_def split: option.splits prod.splits if_splits)
  with Cons [of "live_step e s"] s show ?case by (simp add: live_run_def)
qed (simp add: live_run_def)

text \<open>
  C20: faults take effect on open connections. However the registry has been changed and
  the connection been used before (in fewer than \<open>2 ^ 64\<close> steps, so that the generation
  counter cannot come round), the next write goes through a chain over the raw connection
  whose layers are those of the faults registered now, in registration order; it does not
  panic in building it when no reorder buffer has a negative size.
\<close>

theorem live_update:
  assumes "live_run es (r0, Wrap i dir, w0) = (r, c, w)" "length es < 2 ^ 64"
    and "\<forall>f \<in> set (connFaults r). buildable f"
  shows "\<exists>ch c' w1. wrapped c' = Some ch \<and> raw_of ch = i \<and> layers ch = expected_layers dir (connFaults r)
    \<and> wire w1 = wire w
    \<and> liveConn_Write r c p w = (fst (Write ch p w1), c', snd (Write ch p w1))"
proof -
  have "in_sync (0 + length es) r c"
    using live_run_in_sync [OF assms(1), of 0] assms(2) by (simp add: in_sync_def Wrap_def)
  moreover have fr: "lc_dir c = dir" "lc_raw c = i"
    using live_run_frame [of es "(r0, Wrap i dir, w0)"] assms(1) by (simp_all add: Wrap_def)
  moreover obtain x where "reg_wrap r (Raw (lc_raw c)) (lc_dir c) w = Some x" using reg_wrap_total [OF assms(3)] by blast
  then have "\<exists>cw. rewrap r c w = Some cw" by (cases x) (simp add: rewrap_def)
  then obtain c' w' where cw: "rewrap r c w = Some (c', w')" by auto
  ultimately obtain ch where ch: "wrapped c' = Some ch" "layers ch = expected_layers dir (connFaults r)" "raw_of ch = i"
    using rewrap_in_sync [OF _ _ cw] assms(2) by fastforce
  have "wire w' = wire w"
    using cw reg_wrap_layers [of r "lc_raw c" "lc_dir c" w]
    by (auto simp: rewrap_def wrap_frame_def split: if_splits option.splits)
  with ch cw show ?thesis
    by (intro exI [of _ ch] exI [of _ c'] exI [of _ w']) (simp add: liveConn_Write_def split: prod.splits)
qed

theorem live_update_witness:
  "\<exists>ch c' w1. wrapped c' = Some ch \<and> layers ch = [LThrottle 5, LLatency 6]
     \<and> liveConn_Write (reg_run [(RegConn (ThrottleF 5), 0), (RegConn (LatencyF 4), 0), (RegConn (LatencyF 6), 0)] NewRegistry)
         (Wrap 1 DirectionClientToUpstream) [9] (ex_world Map.empty)
       = (fst (Write ch [9] w1), c', snd (Write ch [9] w1))"
  using live_update [of "[Mutate (RegConn (ThrottleF 5)) 0, Mutate (RegConn (LatencyF 4)) 0, Mutate (RegConn (LatencyF 6)) 0]"
      NewRegistry 1 DirectionClientToUpstream "ex_world Map.empty" _ _ _ "[9]"]
  by (auto simp: live_run_def reg_run_def NewRegistry_def RegisterConnFault_def is_time_varying_def buildable_def
      startTickerLocked_def stopTickerLocked_def Let_def expected_layers_def layer_of_def)

text \<open>
  A reset fault works wherever it stands in the list: wrapping a raw connection sets
  its linger time to zero, so that closing it sends RST, whatever other faults wrap it.
\<close>

theorem rst_reaches_raw_conn:
  assumes "RSTF \<in> set (connFaults r)" "reg_wrap r (Raw i) dir w = Some (c, g, w')"
  shows "i \<in> linger0 w'"
  using reg_wrap_layers [OF assms(2)] assms(1) by simp

theorem rst_reaches_raw_conn_witness:
  "\<exists>c g w'. reg_wrap (NewRegistry\<lparr>connFaults := [LatencyF 3, RSTF]\<rparr>) (Raw 8) DirectionUpstreamToClient (ex_world Map.empty)
     = Some (c, g, w') \<and> 8 \<in> linger0 w'"
proof -
  let ?r = "NewRegistry\<lparr>connFaults := [LatencyF 3, RSTF]\<rparr>"
  obtain c g w' where w: "reg_wrap ?r (Raw 8) DirectionUpstreamToClient (ex_world Map.empty) = Some (c, g, w')"
    using reg_wrap_total [of ?r "Raw 8" DirectionUpstreamToClient "ex_world Map.empty"] by (auto simp: buildable_def)
  from rst_reaches_raw_conn [OF _ w] w show ?thesis by auto
qed

text \<open>
  Rebuilding the chain loses what a reorder wrapper held back. When the registry has
  changed since the chain was built, the next write uses buffers that are new and empty;
  the old ones keep their chunks but belong to no chain any more, and a write sends nothing
  but its own chunk and what the buffers of its chain hold.
\<close>

theorem rewrap_abandons_held_chunks:
  assumes "wrapped c = Some old" "lc_gen c \<noteq> gen r" "\<forall>b \<in> bufs_of old. b < next_buf w"
    and "rewrap r c w = Some (c', w')"
  shows "\<exists>ch. wrapped c' = Some ch \<and> bufs_of ch \<inter> bufs_of old = {} \<and> (\<forall>b \<in> bufs_of ch. bufs w' b = [])
    \<and> wire w' = wire w \<and> (\<forall>b \<in> bufs_of old. bufs w' b = bufs w b)"
proof -
  from assms(1,2,4) obtain ch g where 1: "reg_wrap r (Raw (lc_raw c)) (lc_dir c) w = Some (ch, g, w')"
    and 2: "c' = c\<lparr>wrapped := Some ch, lc_gen := g\<rparr>" by (auto simp: rewrap_def split: option.splits)
  from reg_wrap_layers [OF 1] 2 assms(3) show ?thesis
    by (fastforce simp: fresh_bufs_def wrap_frame_def)
qed

definition ex_held :: "liveConn \<times> world" where
  "ex_held = (Wrap 1 DirectionClientToUpstream\<lparr>wrapped := Some (ReorderConn (Raw 1) 0 2 1)\<rparr>,
              ex_world Map.empty\<lparr>bufs := (\<lambda>_. [])(0 := [[42]]), next_buf := 1\<rparr>)"

theorem rewrap_abandons_held_chunks_witness:
  "\<exists>c' w'. rewrap (RegisterReadHook 0 NewRegistry) (fst ex_held) (snd ex_held) = Some (c', w')
     \<and> wire w' 1 = [] \<and> bufs w' 0 = [[42]]"
proof -
  let ?r = "RegisterReadHook 0 NewRegistry"
  obtain c' w' where w: "rewrap ?r (fst ex_held) (snd ex_held) = Some (c', w')"
    by (simp add: rewrap_def ex_held_def Wrap_def RegisterReadHook_def NewRegistry_def reg_wrap_def)
  from rewrap_abandons_held_chunks [OF _ _ _ w, of "ReorderConn (Raw 1) 0 2 1"] w show ?thesis
    by (auto simp: ex_held_def Wrap_def RegisterReadHook_def NewRegistry_def ex_world_def)
qed

text \<open>Writes to a connection one after the other, while the registry stays as it is; \<open>None\<close> when one fails.\<close>

fun live_seq :: "registry \<Rightarrow> liveConn \<Rightarrow> chunk list \<Rightarrow> world \<Rightarrow> (liveConn \<times> world) option" where
  "live_seq r c [] w = Some (c, w)"
| "live_seq r c (p # ps) w =
     (case liveConn_Write r c p w of
        (Written _, c', w') \<Rightarrow> live_seq r c' ps w'
      | _ \<Rightarrow> None)"

text \<open>A connection whose only wrapper reorders, with the invariant of its buffer; \<open>given\<close> is what was written to it.\<close>

definition reorders :: "registry \<Rightarrow> ReorderFault \<Rightarrow> conn_id \<Rightarrow> nat \<Rightarrow> liveConn \<Rightarrow> chunk multiset \<Rightarrow> world \<Rightarrow> bool" where
  "reorders r f i b c given w \<longleftrightarrow>
     lc_raw c = i \<and> lc_gen c = gen r \<and> wrapped c = Some (ReorderConn (Raw i) b (BufferSize f) (ro_Probability f))
     \<and> b < next_buf w \<and> mset (wire w i) + mset (bufs w b) = given \<and> int (length (bufs w b)) < max 1 (BufferSize f)"

lemma reorders_write:
  assumes "reorders r f i b c given w" "liveConn_Write r c p w = (Written k, c', w')"
  shows "reorders r f i b c' (add_mset p given) w'"
proof -
  have c: "wrapped c = Some (ReorderConn (Raw i) b (BufferSize f) (ro_Probability f))" "lc_gen c = gen r"
    using assms(1) by (simp_all add: reorders_def)
  then have "c' = c" and w: "Write (ReorderConn (Raw i) b (BufferSize f) (ro_Probability f)) p w = (Written k, w')"
    using assms(2) by (auto simp: liveConn_Write_def rewrap_def simp del: Write.simps split: prod.splits)
  with assms(1) reorder_write_mset [OF w] reorder_write_bound [OF w] reorder_write_next_buf [OF w] show ?thesis
    by (simp add: reorders_def)
qed

lemma reorders_seq:
  "reorders r f i b c given w \<Longrightarrow> live_seq r c ps w = Some (c', w') \<Longrightarrow> reorders r f i b c' (given + mset ps) w'"
proof (induction ps arbitrary: c given w)
  case (Cons p ps)
  obtain k c1 w1 where 1: "liveConn_Write r c p w = (Written k, c1, w1)" and 2: "live_seq r c1 ps w1 = Some (c', w')"
    using Cons.prems(2) by (auto split: prod.splits write_result.splits)
  from Cons.IH [OF reorders_write [OF Cons.prems(1) 1] 2] show ?case by simp
qed simp

lemma reorders_first:
  assumes "connFaults r = [ReorderF f]" "liveConn_Write r (Wrap i dir) p w = (Written k, c, w')"
  shows "reorders r f i (next_buf w) c (add_mset p (mset (wire w i))) w'"
proof -
  let ?ch = "ReorderConn (Raw i) (next_buf w) (BufferSize f) (ro_Probability f)"
  let ?w = "w\<lparr>bufs := (bufs w)(next_buf w := []), next_buf := Suc (next_buf w)\<rparr>"
  have "rewrap r (Wrap i dir) w = (if BufferSize f < 0 then None else Some (Wrap i dir\<lparr>wrapped := Some ?ch, lc_gen := gen r\<rparr>, ?w))"
    using assms(1) by (simp add: rewrap_def Wrap_def reg_wrap_def is_RST_def Apply_def)
  with assms(2) have c: "c = Wrap i dir\<lparr>wrapped := Some ?ch, lc_gen := gen r\<rparr>" and w: "Write ?ch p ?w = (Written k, w')"
    by (auto simp: liveConn_Write_def simp del: Write.simps split: if_splits prod.splits)
  from reorder_write_mset [OF w] reorder_write_bound [OF w] reorder_write_next_buf [OF w] show ?thesis
    by (simp add: reorders_def c Wrap_def)
qed

text \<open>After a change of the registry the old buffer is out of reach: only the new chunk can arrive.\<close>

lemma rebuilt_forgets:
  assumes "gen r' \<noteq> lc_gen c" "liveConn_Write r' c p w = (res, c', w')" "res \<noteq> Panicked"
  shows "\<exists>ch ext. wrapped c' = Some ch \<and> wire w' (lc_raw c) = wire w (lc_raw c) @ ext \<and> set ext \<subseteq> {p}
    \<and> (\<forall>b \<in> bufs_of ch. set (bufs w' b) \<subseteq> {p})"
proof -
  from assms obtain ch w1 where 1: "reg_wrap r' (Raw (lc_raw c)) (lc_dir c) w = Some (ch, gen r', w1)"
    and 2: "wrapped c' = Some ch" "Write ch p w1 = (res, w')"
    by (auto simp: liveConn_Write_def rewrap_def reg_wrap_def simp del: Write.simps split: option.splits prod.splits)
  note l = reg_wrap_layers [OF 1]
  have "holds_only {p} (bufs_of ch) w1" using l by (auto simp: holds_only_def fresh_bufs_def)
  from safe_writerD [OF Write_safe [OF order.refl] _ this 2(2)] l 2(1) show ?thesis
    by (auto simp: grows_def holds_only_def wrap_frame_def)
qed

text \<open>
  C15: what reordering keeps and what a change of the faults loses. On a connection whose only
  fault is reordering, as long as the registry does not change and no write fails, every
  chunk written is either on the wire or held by the wrapper, as multisets, and the wrapper
  holds fewer chunks than its buffer has room for. When the registry has changed, the next
  write puts nothing but its own chunk on the wire or into a buffer of the rebuilt chain: the
  chunks held until then never arrive.
\<close>

theorem reorder_conserves:
  assumes "connFaults r = [ReorderF f]" "live_seq r (Wrap i dir) (p # ps) w = Some (c, w')"
  shows "\<exists>b. wrapped c = Some (ReorderConn (Raw i) b (BufferSize f) (ro_Probability f))
    \<and> mset (wire w' i) + mset (bufs w' b) = mset (wire w i) + mset (p # ps)
    \<and> int (length (bufs w' b)) < max 1 (BufferSize f)
    \<and> (\<forall>r' x res c2 w2. gen r' \<noteq> gen r \<and> liveConn_Write r' c x w' = (res, c2, w2) \<and> res \<noteq> Panicked \<longrightarrow>
         (\<exists>ch ext. wrapped c2 = Some ch \<and> wire w2 i = wire w' i @ ext \<and> set ext \<subseteq> {x} \<and> (\<forall>b' \<in> bufs_of ch. set (bufs w2 b') \<subseteq> {x})))"
proof -
  obtain k c1 w1 where 1: "liveConn_Write r (Wrap i dir) p w = (Written k, c1, w1)" and 2: "live_seq r c1 ps w1 = Some (c, w')"
    using assms(2) by (auto split: prod.splits write_result.splits)
  from reorders_seq [OF reorders_first [OF assms(1) 1] 2]
  have o: "reorders r f i (next_buf w) c (mset (wire w i) + mset (p # ps)) w'" by simp
  have "\<exists>ch ext. wrapped c2 = Some ch \<and> wire w2 i = wire w' i @ ext \<and> set ext \<subseteq> {x} \<and> (\<forall>b' \<in> bufs_of ch. set (bufs w2 b') \<subseteq> {x})"
    if "gen r' \<noteq> gen r" "liveConn_Write r' c x w' = (res, c2, w2)" "res \<noteq> Panicked" for r' x res c2 w2
    using rebuilt_forgets [of r' c x w' res c2 w2] that o by (simp add: reorders_def)
  with o show ?thesis by (auto simp: reorders_def)
qed

definition ex_reorder :: registry where
  "ex_reorder = NewRegistry\<lparr>connFaults := [ReorderF \<lparr>BufferSize = 2, ro_Probability = 1\<rparr>]\<rparr>"

theorem reorder_conserves_witness:
  "\<exists>c w' b. live_seq ex_reorder (Wrap 7 DirectionClientToUpstream) [[1], [2], [3]] (ex_world Map.empty) = Some (c, w')
     \<and> mset (wire w' 7) + mset (bufs w' b) = {#[1], [2], [3]#} \<and> length (bufs w' b) = 1"
proof -
  have "\<exists>c w'. live_seq ex_reorder (Wrap 7 DirectionClientToUpstream) [[1], [2], [3]] (ex_world Map.empty) = Some (c, w')
      \<and> length (wire w' 7) = 2"
    by (simp add: ex_reorder_def NewRegistry_def liveConn_Write_def rewrap_def reg_wrap_def is_RST_def Apply_def Wrap_def
        ex_world_def reorder_hold_def Float64_def Shuffle_def swap_def Intn_def raw_write_def Let_def frac_def)
  then obtain c w' where w: "live_seq ex_reorder (Wrap 7 DirectionClientToUpstream) [[1], [2], [3]] (ex_world Map.empty) = Some (c, w')"
    "length (wire w' 7) = 2" by blast
  from reorder_conserves [OF _ w(1)] obtain b where "mset (wire w' 7) + mset (bufs w' b) = {#[1], [2], [3]#}"
    by (auto simp: ex_reorder_def ex_world_def)
  moreover from this have "size (mset (wire w' 7) + mset (bufs w' b)) = 3" by simp
  then have "length (bufs w' b) = 1" using w(2) by simp
  ultimately show ?thesis using w(1) by blast
qed

end
