(* ===== verification/Topology.thy ===== *)
theory Topology
  imports Node_Faults
begin

text \<open>
  Topology faults (\<^verbatim>\<open>internal/faults/topology.go\<close>): the in-memory cluster view with its
  roles and reachability groups, and the faults that act on it or on the voters' drivers.
  A Go map lookup that misses gives the zero value. Where the code ranges over a map, the
  order is an argument.
\<close>

section \<open>The cluster view\<close>

record InMemoryClusterView =
  view_nodes :: "string list"
  realRoles :: "string \<rightharpoonup> string"
  overrides :: "string \<rightharpoonup> string"
  groups_of :: "string \<rightharpoonup> string"

definition map_get :: "(string \<rightharpoonup> string) \<Rightarrow> string \<Rightarrow> string" where
  "map_get m k = (case m k of Some v \<Rightarrow> v | None \<Rightarrow> [])"

definition NewInMemoryClusterView :: "string list \<Rightarrow> InMemoryClusterView" where
  "NewInMemoryClusterView ns =
     \<lparr>view_nodes = ns, realRoles = Map.empty, overrides = Map.empty,
      groups_of = foldl (\<lambda>g n. g(n \<mapsto> ''default'')) Map.empty ns\<rparr>"

definition view_Nodes :: "InMemoryClusterView \<Rightarrow> string list" where
  [simp]: "view_Nodes v = view_nodes v"

definition SetRealRole :: "string \<Rightarrow> string \<Rightarrow> InMemoryClusterView \<Rightarrow> InMemoryClusterView" where
  "SetRealRole n role v = v\<lparr>realRoles := (realRoles v)(n \<mapsto> role)\<rparr>"

definition RoleOf :: "InMemoryClusterView \<Rightarrow> string \<Rightarrow> string" where
  "RoleOf v n = (case overrides v n of Some r \<Rightarrow> r | None \<Rightarrow> map_get (realRoles v) n)"

definition SetRoleOverride :: "string \<Rightarrow> string \<Rightarrow> InMemoryClusterView \<Rightarrow> InMemoryClusterView" where
  "SetRoleOverride n role v = v\<lparr>overrides := (overrides v)(n \<mapsto> role)\<rparr>"

definition ClearRoleOverride :: "string \<Rightarrow> InMemoryClusterView \<Rightarrow> InMemoryClusterView" where
  "ClearRoleOverride n v = v\<lparr>overrides := (overrides v)(n := None)\<rparr>"

definition Allowed :: "InMemoryClusterView \<Rightarrow> string \<Rightarrow> string \<Rightarrow> bool" where
  "Allowed v fromNode toNode \<longleftrightarrow> map_get (groups_of v) fromNode = map_get (groups_of v) toNode"

definition setGroup :: "string \<Rightarrow> string \<Rightarrow> InMemoryClusterView \<Rightarrow> InMemoryClusterView" where
  "setGroup n g v = v\<lparr>groups_of := (groups_of v)(n \<mapsto> g)\<rparr>"

definition groupSnapshot :: "InMemoryClusterView \<Rightarrow> string \<rightharpoonup> string" where
  "groupSnapshot v = groups_of v"

definition restoreGroups :: "(string \<rightharpoonup> string) \<Rightarrow> InMemoryClusterView \<Rightarrow> InMemoryClusterView" where
  "restoreGroups snap v = v\<lparr>groups_of := groups_of v ++ snap\<rparr>"

text \<open>The dynamic type of a \<open>ClusterView\<close> as \<open>PartitionFault\<close> tests it.\<close>

datatype cluster_view = InMemory InMemoryClusterView | OtherView

datatype topo_error =
    WrongView
  | NoDriver string
  | CannotIsolate string
  | IsolateFailed string driver_error

section \<open>Partition\<close>

record PartitionFault =
  pf_Groups :: "(string \<times> string list) list"
  preSnapshot :: "(string \<rightharpoonup> string) option"

definition place_group :: "InMemoryClusterView \<Rightarrow> string \<times> string list \<Rightarrow> InMemoryClusterView" where
  "place_group v gm = foldl (\<lambda>v n. setGroup n (fst gm) v) v (snd gm)"

primrec Partition_Inject ::
  "PartitionFault \<Rightarrow> cluster_view \<Rightarrow> topo_error option \<times> PartitionFault \<times> cluster_view" where
  "Partition_Inject f OtherView = (Some WrongView, f, OtherView)"
| "Partition_Inject f (InMemory v) =
     (None, f\<lparr>preSnapshot := Some (groupSnapshot v)\<rparr>, InMemory (foldl place_group v (pf_Groups f)))"

primrec Partition_Revert :: "PartitionFault \<Rightarrow> cluster_view \<Rightarrow> topo_error option \<times> cluster_view" where
  "Partition_Revert f OtherView = (Some WrongView, OtherView)"
| "Partition_Revert f (InMemory v) =
     (None, InMemory (case preSnapshot f of None \<Rightarrow> v | Some snap \<Rightarrow> restoreGroups snap v))"

section \<open>Split brain\<close>

record SplitBrainFault =
  sb_Leaders :: "string list"
  previous :: "string \<rightharpoonup> string"

fun claim_leader :: "string list \<Rightarrow> (string \<rightharpoonup> string) \<Rightarrow> InMemoryClusterView \<Rightarrow> (string \<rightharpoonup> string) \<times> InMemoryClusterView" where
  "claim_leader [] prev v = (prev, v)"
| "claim_leader (n # ns) prev v = claim_leader ns (prev(n \<mapsto> RoleOf v n)) (SetRoleOverride n ''leader'' v)"

definition SplitBrain_Inject :: "SplitBrainFault \<Rightarrow> InMemoryClusterView \<Rightarrow> SplitBrainFault \<times> InMemoryClusterView" where
  "SplitBrain_Inject f v =
     (let (prev, v') = claim_leader (sb_Leaders f) Map.empty v in (f\<lparr>previous := prev\<rparr>, v'))"

definition SplitBrain_Revert :: "SplitBrainFault \<Rightarrow> InMemoryClusterView \<Rightarrow> InMemoryClusterView" where
  "SplitBrain_Revert f v = foldl (\<lambda>v n. ClearRoleOverride n v) v (sb_Leaders f)"

section \<open>Quorum loss\<close>

record QuorumLossFault =
  VoterNodes :: "string list"
  NodesToBlock :: int
  ql_Drivers :: "string \<rightharpoonup> NodeDriver"
  blockedSet :: "string set"

definition isolator :: "QuorumLossFault \<Rightarrow> string \<Rightarrow> topo_error + DockerDriver" where
  "isolator f n =
     (case ql_Drivers f n of
        None \<Rightarrow> Inl (NoDriver n)
      | Some (Docker d) \<Rightarrow> Inr d
      | Some d \<Rightarrow> Inl (CannotIsolate (Describe d)))"

fun block_voters ::
  "'s system \<Rightarrow> QuorumLossFault \<Rightarrow> string list \<Rightarrow> int \<Rightarrow> 's \<Rightarrow> topo_error option \<times> QuorumLossFault \<times> 's" where
  "block_voters sys f [] blocked s = (None, f, s)"
| "block_voters sys f (v # vs) blocked s =
     (if blocked \<ge> NodesToBlock f then (None, f, s)
      else case isolator f v of
             Inl e \<Rightarrow> (Some e, f, s)
           | Inr d \<Rightarrow>
               (case Driver_Isolate sys d s of
                  (Some e, s') \<Rightarrow> (Some (IsolateFailed v e), f, s')
                | (None, s') \<Rightarrow> block_voters sys (f\<lparr>blockedSet := insert v (blockedSet f)\<rparr>) vs (blocked + 1) s'))"

definition QuorumLoss_Inject :: "'s system \<Rightarrow> QuorumLossFault \<Rightarrow> 's \<Rightarrow> topo_error option \<times> QuorumLossFault \<times> 's" where
  "QuorumLoss_Inject sys f s = block_voters sys (f\<lparr>blockedSet := {}\<rparr>) (VoterNodes f) 0 s"

text \<open>\<open>order\<close> lists the blocked voters as the range over the map gives them.\<close>

definition QuorumLoss_Revert :: "'s system \<Rightarrow> QuorumLossFault \<Rightarrow> string list \<Rightarrow> 's \<Rightarrow> QuorumLossFault \<times> 's" where
  "QuorumLoss_Revert sys f order s =
     (f\<lparr>blockedSet := {}\<rparr>,
      foldl (\<lambda>s v. case isolator f v of Inr d \<Rightarrow> snd (Driver_Reconnect sys d s) | Inl _ \<Rightarrow> s) s order)"

definition IsBlocked :: "QuorumLossFault \<Rightarrow> string \<Rightarrow> bool" where
  "IsBlocked f n \<longleftrightarrow> n \<in> blockedSet f"

section \<open>Leader election storm\<close>

definition defaultProbe :: "InMemoryClusterView \<Rightarrow> string" where
  "defaultProbe v = (case find (\<lambda>n. RoleOf v n = ''leader'') (view_Nodes v) of Some n \<Rightarrow> n | None \<Rightarrow> [])"

text \<open>One beat of the storm's loop; the probe's answer is \<open>None\<close> when it fails.\<close>

definition storm_beat :: "'s system \<Rightarrow> (string \<rightharpoonup> NodeDriver) \<Rightarrow> string option \<Rightarrow> 's \<Rightarrow> 's" where
  "storm_beat sys drivers leader s =
     (case leader of
        None \<Rightarrow> s
      | Some n \<Rightarrow>
          if n = [] then s
          else (case drivers n of Some d \<Rightarrow> snd (driver_do sys d (OpSignal SIGTERM) s) | None \<Rightarrow> s))"

text \<open>
  The fault with its probe, if one is set, its times and its drivers. The loop is given the views
  it finds at the ticks, which come at the multiples of the interval; it ends with its context,
  at \<open>deadline\<close> after the injection: when the duration is over or \<open>Revert\<close> cancels it.
\<close>

record LeaderElectionStormFault =
  LeaderProbe :: "(InMemoryClusterView \<Rightarrow> string option) option"
  storm_Interval :: duration
  storm_Duration :: duration
  storm_Drivers :: "string \<rightharpoonup> NodeDriver"
  storm_cancel :: bool

definition storm_probe :: "LeaderElectionStormFault \<Rightarrow> InMemoryClusterView \<Rightarrow> string option" where
  "storm_probe f = (case LeaderProbe f of Some probe \<Rightarrow> probe | None \<Rightarrow> (\<lambda>v. Some (defaultProbe v)))"

fun storm_loop :: "'s system \<Rightarrow> LeaderElectionStormFault \<Rightarrow> duration \<Rightarrow> duration \<Rightarrow> InMemoryClusterView list \<Rightarrow> 's \<Rightarrow> 's" where
  "storm_loop sys f deadline elapsed [] s = s"
| "storm_loop sys f deadline elapsed (v # vs) s =
     (let tick = elapsed + storm_Interval f
      in if deadline \<le> tick then s
         else storm_loop sys f deadline tick vs (storm_beat sys (storm_Drivers f) (storm_probe f v) s))"

text \<open>
  \<open>Inject\<close> keeps the loop's cancel function and starts the loop, with the duration as its
  deadline; \<^verbatim>\<open>time.NewTicker\<close> panics on an interval that is not positive (\<open>None\<close>). \<open>Revert\<close>,
  \<open>t\<close> after the injection, calls the cancel function if there is one.
\<close>

definition Storm_Inject :: "LeaderElectionStormFault \<Rightarrow> (LeaderElectionStormFault \<times> duration) option" where
  "Storm_Inject f =
     (if storm_Interval f \<le> 0 then None else Some (f\<lparr>storm_cancel := True\<rparr>, storm_Duration f))"

definition Storm_Revert :: "LeaderElectionStormFault \<Rightarrow> duration \<Rightarrow> duration \<Rightarrow> duration" where
  "Storm_Revert f t deadline = (if storm_cancel f then min t deadline else deadline)"

text \<open>
  Before the deadline there are finitely many ticks, so that the loop looks at no more views than
  fit; after \<open>Revert\<close> it looks at none that comes later.
\<close>

lemma storm_loop_bound:
  assumes "0 < storm_Interval f"
  shows "storm_loop sys f deadline elapsed vs s
    = storm_loop sys f deadline elapsed (take (nat ((deadline - elapsed - 1) div storm_Interval f)) vs) s"
proof (induction vs arbitrary: elapsed s)
  case (Cons v vs)
  let ?i = "storm_Interval f"
  show ?case
  proof (cases "deadline \<le> elapsed + ?i")
    case True
    then have "(deadline - elapsed - 1) div ?i \<le> 0"
      using assms zdiv_mono1 [of "deadline - elapsed - 1" "?i - 1" ?i] by simp
    with True show ?thesis by simp
  next
    case False
    have "(deadline - elapsed - 1) div ?i = (deadline - (elapsed + ?i) - 1) div ?i + 1"
      using assms div_add_self2 [of ?i "deadline - (elapsed + ?i) - 1"] by (simp add: algebra_simps)
    moreover have "0 \<le> (deadline - (elapsed + ?i) - 1) div ?i"
      using False assms by (simp add: pos_imp_zdiv_nonneg_iff)
    ultimately have "nat ((deadline - elapsed - 1) div ?i) = Suc (nat ((deadline - (elapsed + ?i) - 1) div ?i))"
      by simp
    with False Cons.IH [of "elapsed + ?i"] show ?thesis by (simp add: Let_def)
  qed
qed simp

lemma storm_reverted_early:
  assumes "Storm_Inject f = Some (f', deadline)" "t \<le> storm_Interval f"
  shows "storm_loop sys f' (Storm_Revert f' t deadline) 0 vs s = s"
  using assms by (cases vs) (auto simp: Storm_Inject_def Storm_Revert_def Let_def min_def split: if_splits)

text \<open>Without a probe of its own the storm acts only while some node reports itself as leader, and then stops that node.\<close>

lemma storm_without_leader:
  assumes "LeaderProbe f = None" "\<forall>v \<in> set vs. \<forall>n \<in> set (view_nodes v). RoleOf v n \<noteq> ''leader''"
  shows "storm_loop sys f deadline elapsed vs s = s"
  using assms(2)
proof (induction vs arbitrary: elapsed s)
  case (Cons v vs)
  then have "find (\<lambda>n. RoleOf v n = ''leader'') (view_nodes v) = None" by (simp add: find_None_iff)
  with Cons assms(1) show ?case by (simp add: storm_probe_def storm_beat_def defaultProbe_def Let_def)
qed simp

lemma storm_stops_leader:
  assumes "LeaderProbe f = None" "defaultProbe v = n" "n \<noteq> []" "storm_Drivers f n = Some d"
  shows "storm_beat sys (storm_Drivers f) (storm_probe f v) s = snd (driver_do sys d (OpSignal SIGTERM) s)"
  using assms by (simp add: storm_beat_def storm_probe_def)

section \<open>The interface the role faults rely on\<close>

text \<open>What \<open>ClusterView\<close> promises about roles and overrides.\<close>

locale role_view =
  fixes role :: "'v \<Rightarrow> string \<Rightarrow> string" and base :: "'v \<Rightarrow> string \<Rightarrow> string"
    and set_over :: "string \<Rightarrow> string \<Rightarrow> 'v \<Rightarrow> 'v" and clear_over :: "string \<Rightarrow> 'v \<Rightarrow> 'v"
  assumes role_set: "role (set_over n r v) m = (if m = n then r else role v m)"
    and role_clear: "role (clear_over n v) m = (if m = n then base v m else role v m)"
    and base_set: "base (set_over n r v) = base v"
    and base_clear: "base (clear_over n v) = base v"
begin

lemma base_clear_all: "base (foldl (\<lambda>v n. clear_over n v) v ns) = base v"
  by (induction ns arbitrary: v) (simp_all add: base_clear)

lemma role_clear_all: "role (foldl (\<lambda>v n. clear_over n v) v ns) m = (if m \<in> set ns then base v m else role v m)"
  by (induction ns arbitrary: v) (auto simp: role_clear base_clear)

lemma role_set_all: "role (foldl (\<lambda>v n. set_over n r v) v ns) m = (if m \<in> set ns then r else role v m)"
  by (induction ns arbitrary: v) (auto simp: role_set)

lemma base_set_all: "base (foldl (\<lambda>v n. set_over n r v) v ns) = base v"
  by (induction ns arbitrary: v) (simp_all add: base_set)

end

interpretation imv: role_view RoleOf "\<lambda>v. map_get (realRoles v)" SetRoleOverride ClearRoleOverride
  by unfold_locales (auto simp: RoleOf_def SetRoleOverride_def ClearRoleOverride_def split: option.split)

lemma claim_leader_view: "snd (claim_leader ns prev v) = foldl (\<lambda>v n. SetRoleOverride n ''leader'' v) v ns"
  by (induction ns arbitrary: prev v) simp_all

lemma SplitBrain_Inject_view:
  "snd (SplitBrain_Inject f v) = foldl (\<lambda>v n. SetRoleOverride n ''leader'' v) v (sb_Leaders f)"
  "sb_Leaders (fst (SplitBrain_Inject f v)) = sb_Leaders f"
  using claim_leader_view [of "sb_Leaders f" Map.empty v]
  by (cases "claim_leader (sb_Leaders f) Map.empty v"; simp add: SplitBrain_Inject_def)+

section \<open>Groups\<close>

lemma place_group_eq: "groups_of (place_group v (g, ns)) = (\<lambda>n. if n \<in> set ns then Some g else groups_of v n)"
  unfolding place_group_def
  by (induction ns arbitrary: v) (auto simp: setGroup_def fun_eq_iff)

lemma place_groups_eq:
  assumes "\<forall>(g, ns) \<in> set gs. n \<in> set ns \<longrightarrow> g = h"
  shows "groups_of (foldl place_group v gs) n = (if \<exists>(g, ns) \<in> set gs. n \<in> set ns then Some h else groups_of v n)"
  using assms
proof (induction gs arbitrary: v)
  case (Cons gn gs)
  obtain g ns where gn: "gn = (g, ns)" by (cases gn)
  from Cons.IH [of "place_group v gn"] Cons.prems show ?case by (auto simp: gn place_group_eq)
qed simp

section \<open>Properties\<close>

text \<open>
  Split brain. After injection every named node reports leader and no other role
  changes; after reverting, the named nodes report their real role, so that the roles are
  those of before if they had no override then.
\<close>

theorem split_brain_roles:
  assumes "SplitBrain_Inject f v = (f', v')"
  shows "(\<forall>n. RoleOf v' n = (if n \<in> set (sb_Leaders f) then ''leader'' else RoleOf v n))
    \<and> (\<forall>n. RoleOf (SplitBrain_Revert f' v') n =
         (if n \<in> set (sb_Leaders f) then map_get (realRoles v) n else RoleOf v n))
    \<and> ((\<forall>n \<in> set (sb_Leaders f). overrides v n = None) \<longrightarrow> RoleOf (SplitBrain_Revert f' v') = RoleOf v)"
proof -
  have v': "v' = foldl (\<lambda>v n. SetRoleOverride n ''leader'' v) v (sb_Leaders f)" and f': "sb_Leaders f' = sb_Leaders f"
    using SplitBrain_Inject_view [of f v] assms by simp_all
  have r: "RoleOf (SplitBrain_Revert f' v') n =
         (if n \<in> set (sb_Leaders f) then map_get (realRoles v) n else RoleOf v n)" for n
    using imv.role_clear_all [of v' "sb_Leaders f" n] imv.base_set_all [of "''leader''" v "sb_Leaders f"]
    by (auto simp: SplitBrain_Revert_def f' v' imv.role_set_all)
  moreover have "RoleOf (SplitBrain_Revert f' v') = RoleOf v" if "\<forall>n \<in> set (sb_Leaders f). overrides v n = None"
    using that r by (auto simp: RoleOf_def [of v] fun_eq_iff)
  ultimately show ?thesis by (auto simp: v' imv.role_set_all)
qed

definition ex_view :: InMemoryClusterView where
  "ex_view = SetRealRole ''a'' ''leader'' (SetRealRole ''b'' ''follower'' (NewInMemoryClusterView [''a'', ''b'', ''c'']))"

theorem split_brain_roles_witness:
  "\<exists>f' v'. SplitBrain_Inject \<lparr>sb_Leaders = [''a'', ''b''], previous = Map.empty\<rparr> ex_view = (f', v')
     \<and> RoleOf v' ''b'' = ''leader'' \<and> RoleOf (SplitBrain_Revert f' v') ''b'' = ''follower''"
proof -
  let ?f = "\<lparr>sb_Leaders = [''a'', ''b''], previous = Map.empty\<rparr>"
  obtain f' v' where s: "SplitBrain_Inject ?f ex_view = (f', v')" by (cases "SplitBrain_Inject ?f ex_view")
  have "map_get (realRoles ex_view) ''b'' = ''follower''" by (simp add: ex_view_def SetRealRole_def map_get_def)
  with split_brain_roles [OF s] have "RoleOf v' ''b'' = ''leader''" "RoleOf (SplitBrain_Revert f' v') ''b'' = ''follower''"
    by simp_all
  with s show ?thesis by blast
qed

text \<open>
  C7: partitions. If no node is listed in two groups, then after injection two listed nodes
  can talk exactly when they are listed in the same group, whatever order the groups are
  visited in; after reverting, any two nodes that the view knew before are connected as
  they were before.
\<close>

theorem partition_allowed:
  assumes "\<forall>(g, ns) \<in> set (pf_Groups f). \<forall>(h, ms) \<in> set (pf_Groups f). set ns \<inter> set ms \<noteq> {} \<longrightarrow> g = h"
    and "Partition_Inject f (InMemory v) = (e, f', InMemory v')"
    and "(g, ns) \<in> set (pf_Groups f)" "(h, ms) \<in> set (pf_Groups f)" "a \<in> set ns" "b \<in> set ms"
    and "x \<in> dom (groups_of v)" "y \<in> dom (groups_of v)"
  shows "e = None \<and> (Allowed v' a b \<longleftrightarrow> g = h)
    \<and> (\<exists>v2. Partition_Revert f' (InMemory v') = (None, InMemory v2) \<and> (Allowed v2 x y \<longleftrightarrow> Allowed v x y))"
proof -
  have v': "v' = foldl place_group v (pf_Groups f)" and f': "preSnapshot f' = Some (groups_of v)" and e: "e = None"
    using assms(2) by (auto simp: groupSnapshot_def)
  have grp: "groups_of v' n = Some k" if "(k, ks) \<in> set (pf_Groups f)" "n \<in> set ks" for k ks n
  proof -
    have "\<forall>(g, ns) \<in> set (pf_Groups f). n \<in> set ns \<longrightarrow> g = k" using assms(1) that by blast
    from place_groups_eq [OF this, of v] that show ?thesis by (auto simp: v')
  qed
  have "Allowed v' a b \<longleftrightarrow> g = h" using grp [OF assms(3,5)] grp [OF assms(4,6)] by (simp add: Allowed_def map_get_def)
  moreover have "Allowed (restoreGroups (groups_of v) v') x y \<longleftrightarrow> Allowed v x y"
    using assms(7,8) by (auto simp: Allowed_def map_get_def restoreGroups_def map_add_def split: option.splits)
  ultimately show ?thesis using e f' by simp
qed

theorem partition_allowed_witness:
  "\<exists>f' v'. Partition_Inject \<lparr>pf_Groups = [(''g1'', [''a'']), (''g2'', [''b'', ''c''])], preSnapshot = None\<rparr> (InMemory ex_view)
       = (None, f', InMemory v')
     \<and> \<not> Allowed v' ''a'' ''b''"
proof -
  let ?f = "\<lparr>pf_Groups = [(''g1'', [''a'']), (''g2'', [''b'', ''c''])], preSnapshot = None\<rparr>"
  obtain f' v' where s: "Partition_Inject ?f (InMemory ex_view) = (None, f', InMemory v')" by simp
  have d: "''a'' \<in> dom (groups_of ex_view)" by (simp add: ex_view_def SetRealRole_def NewInMemoryClusterView_def)
  from partition_allowed [OF _ s, of "''g1''" "[''a'']" "''g2''" "[''b'', ''c'']" "''a''" "''b''" "''a''" "''a''"] d s
  show ?thesis by auto
qed

section \<open>Losing the quorum\<close>

text \<open>Disconnecting all of \<open>vs\<close> in order; \<open>None\<close> when one has no docker driver or docker refuses.\<close>

fun isolate_all :: "'s system \<Rightarrow> (string \<rightharpoonup> NodeDriver) \<Rightarrow> string list \<Rightarrow> 's \<Rightarrow> 's option" where
  "isolate_all sys drivers [] s = Some s"
| "isolate_all sys drivers (v # vs) s =
     (case drivers v of
        Some (Docker d) \<Rightarrow> (case Driver_Isolate sys d s of (None, s') \<Rightarrow> isolate_all sys drivers vs s' | _ \<Rightarrow> None)
      | _ \<Rightarrow> None)"

lemma block_voters_prefix:
  "block_voters sys f vs b s = (err, f', s') \<Longrightarrow>
     \<exists>k s1. isolate_all sys (ql_Drivers f) (take k vs) s = Some s1 \<and> blockedSet f' = blockedSet f \<union> set (take k vs)
       \<and> (case err of
            None \<Rightarrow> k = min (nat (NodesToBlock f - b)) (length vs) \<and> s' = s1
          | Some e \<Rightarrow> k < min (nat (NodesToBlock f - b)) (length vs) \<and> isolate_all sys (ql_Drivers f) (take (Suc k) vs) s = None)"
proof (induction vs arbitrary: f b s)
  case (Cons v vs)
  show ?case
  proof (cases "b \<ge> NodesToBlock f")
    case True
    with Cons.prems show ?thesis by auto
  next
    case False
    then have n: "nat (NodesToBlock f - b) = Suc (nat (NodesToBlock f - (b + 1)))" by simp
    show ?thesis
    proof (cases "\<exists>d s2. ql_Drivers f v = Some (Docker d) \<and> Driver_Isolate sys d s = (None, s2)")
      case True
      then obtain d s2 where d: "ql_Drivers f v = Some (Docker d)" "Driver_Isolate sys d s = (None, s2)" by blast
      let ?f = "f\<lparr>blockedSet := insert v (blockedSet f)\<rparr>"
      have "block_voters sys ?f vs (b + 1) s2 = (err, f', s')"
        using Cons.prems False d by (simp add: isolator_def)
      from Cons.IH [OF this] obtain k s1 where k: "isolate_all sys (ql_Drivers f) (take k vs) s2 = Some s1"
        "blockedSet f' = insert v (blockedSet f) \<union> set (take k vs)"
        "case err of
            None \<Rightarrow> k = min (nat (NodesToBlock f - (b + 1))) (length vs) \<and> s' = s1
          | Some e \<Rightarrow> k < min (nat (NodesToBlock f - (b + 1))) (length vs) \<and> isolate_all sys (ql_Drivers f) (take (Suc k) vs) s2 = None"
        by (elim exE conjE, intro that) (simp_all cong: option.case_cong)
      with d n show ?thesis by (intro exI [of _ "Suc k"] exI [of _ s1]) (auto split: option.splits)
    next
      case False2: False
      with Cons.prems False obtain e where "err = Some e" "blockedSet f' = blockedSet f"
        by (auto simp: isolator_def split: option.splits NodeDriver.splits prod.splits)
      moreover have "isolate_all sys (ql_Drivers f) [v] s = None"
        using False2 by (auto split: option.splits NodeDriver.splits prod.splits)
      ultimately show ?thesis using n by (intro exI [of _ 0] exI [of _ s]) simp
    qed
  qed
qed auto

lemma filter_not_taken: "distinct xs \<Longrightarrow> filter (\<lambda>v. v \<notin> set (take n xs)) xs = drop n xs"
proof -
  assume "distinct xs"
  then have "distinct (take n xs @ drop n xs)" by simp
  then have "set (take n xs) \<inter> set (drop n xs) = {}" by (simp only: distinct_append)
  then have "filter (\<lambda>v. v \<notin> set (take n xs)) (take n xs @ drop n xs) = drop n xs"
    by (simp only: filter_append) (auto simp: filter_id_conv filter_empty_conv)
  then show ?thesis by (simp only: append_take_drop_id)
qed

text \<open>
  C26: quorum loss. Whatever docker does, the nodes reported as blocked are the voters, from
  the first on, whose disconnection succeeded. Without an error these are the first
  \<open>NodesToBlock\<close> voters (or all, if there are fewer), and if that is at least half of the voters,
  those that remain are no majority. With an error the next voter has no docker driver or could
  not be disconnected, and fewer are blocked than asked for.
\<close>

theorem quorum_loss_blocks:
  assumes "QuorumLoss_Inject sys f s = (err, f', s')" "distinct (VoterNodes f)"
  shows "\<exists>k s1. isolate_all sys (ql_Drivers f) (take k (VoterNodes f)) s = Some s1
    \<and> {v. IsBlocked f' v} = set (take k (VoterNodes f))
    \<and> (case err of
         None \<Rightarrow> k = min (nat (NodesToBlock f)) (length (VoterNodes f)) \<and> s' = s1
           \<and> (int (length (VoterNodes f)) \<le> 2 * NodesToBlock f \<longrightarrow>
                length (filter (\<lambda>v. \<not> IsBlocked f' v) (VoterNodes f)) < length (VoterNodes f) div 2 + 1)
       | Some e \<Rightarrow> k < min (nat (NodesToBlock f)) (length (VoterNodes f))
           \<and> isolate_all sys (ql_Drivers f) (take (Suc k) (VoterNodes f)) s = None)"
proof -
  let ?V = "VoterNodes f"
  from block_voters_prefix [OF assms(1) [unfolded QuorumLoss_Inject_def]]
  obtain k s1 where k: "isolate_all sys (ql_Drivers f) (take k ?V) s = Some s1" "blockedSet f' = set (take k ?V)"
    "case err of None \<Rightarrow> k = min (nat (NodesToBlock f)) (length ?V) \<and> s' = s1
       | Some e \<Rightarrow> k < min (nat (NodesToBlock f)) (length ?V) \<and> isolate_all sys (ql_Drivers f) (take (Suc k) ?V) s = None"
    by (elim exE conjE, intro that) (simp_all cong: option.case_cong)
  have "length (filter (\<lambda>v. \<not> IsBlocked f' v) ?V) = length ?V - k"
    using filter_not_taken [OF assms(2), of k] by (simp add: IsBlocked_def k(2))
  moreover have "length ?V - min (nat (NodesToBlock f)) (length ?V) < length ?V div 2 + 1"
    if "int (length ?V) \<le> 2 * NodesToBlock f" using that by linarith
  ultimately show ?thesis using k by (intro exI [of _ k] exI [of _ s1]) (auto simp: IsBlocked_def split: option.splits)
qed

definition ex_quorum :: QuorumLossFault where
  "ex_quorum = \<lparr>VoterNodes = [''a'', ''b'', ''c''], NodesToBlock = 2,
     ql_Drivers = (\<lambda>v. Some (Docker \<lparr>dd_Container = v, dd_Network = [], dd_Exec = None\<rparr>)), blockedSet = {}\<rparr>"

text \<open>An example in which only a container that is connected can be disconnected; the state lists them.\<close>

definition ex_bridge :: "string list system" where
  "ex_bridge argv s =
     (if take 4 argv = [''docker'', ''network'', ''disconnect'', ''bridge''] \<and> argv ! 4 \<in> set s
      then ((True, []), remove1 (argv ! 4) s) else ((False, ''not connected''), s))"

theorem quorum_loss_blocks_witness:
  "(\<exists>f'. QuorumLoss_Inject ex_bridge ex_quorum [''a'', ''b'', ''c''] = (None, f', [''c'']) \<and> {v. IsBlocked f' v} = {''a'', ''b''})
   \<and> (\<exists>e f' s'. QuorumLoss_Inject ex_bridge ex_quorum [''a'', ''c''] = (Some e, f', s') \<and> {v. IsBlocked f' v} = {''a''})"
proof (intro conjI)
  have d: "distinct (VoterNodes ex_quorum)" by (simp add: ex_quorum_def)
  note ev = ex_quorum_def ex_bridge_def Driver_Isolate_def docker_def docker_network_def run_ok_def executor_def local_Run_def
  obtain f' where 1: "QuorumLoss_Inject ex_bridge ex_quorum [''a'', ''b'', ''c''] = (None, f', [''c''])"
    by (simp add: QuorumLoss_Inject_def isolator_def ev)
  from quorum_loss_blocks [OF 1 d] have "{v. IsBlocked f' v} = {''a'', ''b''}"
    by (auto simp: ex_quorum_def numeral_2_eq_2)
  with 1 show "\<exists>f'. QuorumLoss_Inject ex_bridge ex_quorum [''a'', ''b'', ''c''] = (None, f', [''c'']) \<and> {v. IsBlocked f' v} = {''a'', ''b''}"
    by blast
  obtain e f' s' where 2: "QuorumLoss_Inject ex_bridge ex_quorum [''a'', ''c''] = (Some e, f', s')"
    by (simp add: QuorumLoss_Inject_def isolator_def ev)
  obtain k where k: "{v. IsBlocked f' v} = set (take k (VoterNodes ex_quorum))" "k < 2"
    "isolate_all ex_bridge (ql_Drivers ex_quorum) (take (Suc k) (VoterNodes ex_quorum)) [''a'', ''c''] = None"
    using quorum_loss_blocks [OF 2 d] by (auto simp: ex_quorum_def)
  have "k \<noteq> 0"
  proof
    assume "k = 0"
    with k(3) show False by (simp add: ev)
  qed
  then have "k = 1" using k(2) by simp
  with k(1) 2 show "\<exists>e f' s'. QuorumLoss_Inject ex_bridge ex_quorum [''a'', ''c''] = (Some e, f', s') \<and> {v. IsBlocked f' v} = {''a''}"
    by (auto simp: ex_quorum_def)
qed

end
