(* ===== verification/Proxy.thy ===== *)
theory Proxy
  imports Registry Topology
begin

text \<open>
  The TCP proxy in front of one node (\<^verbatim>\<open>internal/proxy/proxy.go\<close>): its partition and
  crash flags, reachability, the life of a proxied connection, and the pump that passes each
  chunk through the packet faults, the read hooks and the wrapped destination. Sockets are
  numbers; which of them are open is part of the state. Dialling is an argument, as is the
  instant at which a session's context gets cancelled while a fault sleeps.
\<close>

section \<open>State\<close>

record proxy =
  p_Name :: string
  p_ListenAddr :: string
  p_UpstreamAddr :: string
  partitioned :: bool
  crashed :: bool
  p_reg :: registry
  p_Stream :: StreamType
  p_View :: "InMemoryClusterView option"
  FromNode :: string
  ToNode :: string
  listener :: "string option"
  active :: int
  conns :: "(conn_id \<times> nat) list"

text \<open>What proxies share: the network and fault objects, the read hooks, open sockets, cancelled sessions.\<close>

record net_state =
  net :: world
  hooks :: "ptr \<Rightarrow> StaleReadFault option"
  open_conns :: "conn_id set"
  cancelled :: "nat set"

definition proxy_New :: "string \<Rightarrow> string \<Rightarrow> string \<Rightarrow> proxy" where
  "proxy_New name listenAddr upstreamAddr =
     \<lparr>p_Name = name, p_ListenAddr = listenAddr, p_UpstreamAddr = upstreamAddr, partitioned = False, crashed = False,
      p_reg = NewRegistry, p_Stream = ClientQueryStream, p_View = None, FromNode = [], ToNode = [],
      listener = None, active = 0, conns = []\<rparr>"

definition severed :: "proxy \<Rightarrow> bool" where
  "severed p \<longleftrightarrow> partitioned p \<or> crashed p"

definition severConns :: "proxy \<Rightarrow> net_state \<Rightarrow> net_state" where
  "severConns p s =
     foldl (\<lambda>s (c, sess). s\<lparr>cancelled := insert sess (cancelled s), open_conns := open_conns s - {c}\<rparr>) s (conns p)"

definition SetLatency :: "int \<Rightarrow> proxy \<Rightarrow> net_state \<Rightarrow> proxy \<times> net_state" where
  "SetLatency ms p s =
     (if ms \<le> 0 then (p\<lparr>p_reg := snd (Unregister ''latency'' (p_reg p))\<rparr>, s)
      else (let (a, w) = alloc (OLatency (NewLatencyInjectionFault (wrap64 (ms * Millisecond)) 0)) (net s)
            in (p\<lparr>p_reg := RegisterConnFault (LatencyF a) (now w) (p_reg p)\<rparr>, s\<lparr>net := w\<rparr>)))"

definition uniform_loss :: "real \<Rightarrow> BurstyLossFault" where
  "uniform_loss rate = \<lparr>BaselineLoss = rate, BurstLoss = rate, BurstEvery = 0, BurstFor = 0,
     inBurst = False, burstEnds = 0, lastCheck = 0\<rparr>"

definition SetDrop :: "int \<Rightarrow> proxy \<Rightarrow> net_state \<Rightarrow> proxy \<times> net_state" where
  "SetDrop percent p s =
     (if percent \<le> 0 then (p\<lparr>p_reg := snd (Unregister ''bursty_loss'' (p_reg p))\<rparr>, s)
      else (let (a, w) = alloc (OBursty (uniform_loss (of_int percent / 100))) (net s)
            in (p\<lparr>p_reg := RegisterConnFault (BurstyF a) (now w) (p_reg p)\<rparr>, s\<lparr>net := w\<rparr>)))"

definition SetPartitioned :: "bool \<Rightarrow> proxy \<Rightarrow> net_state \<Rightarrow> proxy \<times> net_state" where
  "SetPartitioned v p s =
     (let p1 = p\<lparr>partitioned := v\<rparr> in (p1, if v then severConns p1 s else s))"

definition SetCrashed :: "bool \<Rightarrow> proxy \<Rightarrow> net_state \<Rightarrow> proxy \<times> net_state" where
  "SetCrashed v p s =
     (let p1 = p\<lparr>crashed := v\<rparr> in (p1, if v then severConns p1 s else s))"

definition proxy_Heal :: "proxy \<Rightarrow> proxy" where
  "proxy_Heal p = p\<lparr>partitioned := False, crashed := False, p_reg := Clear (p_reg p)\<rparr>"

definition Listen :: "(string \<Rightarrow> string option) \<Rightarrow> proxy \<Rightarrow> bool \<times> proxy" where
  "Listen bind p =
     (case bind (p_ListenAddr p) of None \<Rightarrow> (False, p) | Some addr \<Rightarrow> (True, p\<lparr>listener := Some addr\<rparr>))"

definition Addr :: "proxy \<Rightarrow> string" where
  "Addr p = (case listener p of None \<Rightarrow> p_ListenAddr p | Some a \<Rightarrow> a)"

definition allowed :: "proxy \<Rightarrow> bool" where
  "allowed p \<longleftrightarrow>
     \<not> severed p
     \<and> \<not> (case p_View p of None \<Rightarrow> False | Some v \<Rightarrow> FromNode p \<noteq> [] \<and> \<not> Allowed v (FromNode p) (ToNode p))"

section \<open>Status\<close>

record proxy_Status =
  st_Name :: string
  st_ListenAddr :: string
  st_UpstreamAddr :: string
  st_Stream :: string
  st_LatencyMs :: int
  st_DropPercent :: int
  st_Partitioned :: bool
  st_Crashed :: bool
  ActiveFaults :: "string list"
  ActiveClients :: int

text \<open>Go's integer division truncates.\<close>

definition go_div :: "int \<Rightarrow> int \<Rightarrow> int" where
  "go_div a b = sgn a * sgn b * (\<bar>a\<bar> div \<bar>b\<bar>)"

definition reported_latency :: "registry \<Rightarrow> world \<Rightarrow> int \<times> world" where
  "reported_latency r w =
     (case Get r ''latency'' of
        Some (LatencyF a) \<Rightarrow>
          (case heap w a of
             Some (OLatency f) \<Rightarrow> (let (d, w') = CurrentDelay f w in (go_div d Millisecond, w'))
           | _ \<Rightarrow> (0, w))
      | _ \<Rightarrow> (0, w))"

definition reported_drop :: "registry \<Rightarrow> world \<Rightarrow> int \<times> world" where
  "reported_drop r w =
     (case Get r ''bursty_loss'' of
        Some (BurstyF a) \<Rightarrow>
          (case heap w a of
             Some (OBursty f) \<Rightarrow>
               (let (rate, f') = currentLossRate f (now w)
                in (trunc_real (rate * 100 + 1 / 2), w\<lparr>heap := (heap w)(a \<mapsto> OBursty f')\<rparr>))
           | _ \<Rightarrow> (0, w))
      | _ \<Rightarrow> (0, w))"

definition proxy_status :: "proxy \<Rightarrow> world \<Rightarrow> proxy_Status \<times> world" where
  "proxy_status p w =
     (let (lat, w1) = reported_latency (p_reg p) w; (dp, w2) = reported_drop (p_reg p) w1
      in (\<lparr>st_Name = p_Name p, st_ListenAddr = p_ListenAddr p, st_UpstreamAddr = p_UpstreamAddr p,
           st_Stream = (if p_Stream p = ReplicationStream then ''replication'' else ''query''),
           st_LatencyMs = lat, st_DropPercent = dp, st_Partitioned = partitioned p, st_Crashed = crashed p,
           ActiveFaults = Names (p_reg p), ActiveClients = active p\<rparr>, w2))"

section \<open>Connections\<close>

definition track :: "conn_id \<Rightarrow> nat \<Rightarrow> proxy \<Rightarrow> proxy" where
  "track c sess p = p\<lparr>conns := (c, sess) # filter (\<lambda>x. fst x \<noteq> c) (conns p)\<rparr>"

definition untrack :: "conn_id \<Rightarrow> proxy \<Rightarrow> proxy" where
  "untrack c p = p\<lparr>conns := filter (\<lambda>x. fst x \<noteq> c) (conns p)\<rparr>"

definition close_conn :: "conn_id \<Rightarrow> net_state \<Rightarrow> net_state" where
  "close_conn c s = s\<lparr>open_conns := open_conns s - {c}\<rparr>"

definition cancel :: "nat \<Rightarrow> net_state \<Rightarrow> net_state" where
  "cancel sess s = s\<lparr>cancelled := insert sess (cancelled s)\<rparr>"

text \<open>\<^verbatim>\<open>net.SplitHostPort\<close>, the host part; \<open>None\<close> for its errors.\<close>

definition SplitHost :: "string \<Rightarrow> string option" where
  "SplitHost hp =
     (let colon = CHR '':''; before = rev (tl (dropWhile (\<lambda>c. c \<noteq> colon) (rev hp)));
          port = rev (takeWhile (\<lambda>c. c \<noteq> colon) (rev hp))
      in if colon \<notin> set hp then None
         else if hd hp = CHR ''[''
         then (let inside = takeWhile (\<lambda>c. c \<noteq> CHR '']'') (tl hp); rest = drop (length inside + 1) (tl hp)
               in if CHR '']'' \<notin> set hp then None
                  else if rest = colon # port \<and> CHR ''['' \<notin> set (tl hp) \<and> CHR '']'' \<notin> set rest then Some inside
                  else None)
         else if colon \<in> set before \<or> CHR ''['' \<in> set hp \<or> CHR '']'' \<in> set hp then None
         else Some before)"

definition upstream_host :: "proxy \<Rightarrow> string" where
  "upstream_host p = (case SplitHost (p_UpstreamAddr p) of Some h \<Rightarrow> h | None \<Rightarrow> p_UpstreamAddr p)"

record session =
  sess_id :: nat
  s_client :: conn_id
  s_upstream :: conn_id
  lastQuery :: chunk
  toUpstream :: liveConn
  toClient :: liveConn

datatype handle_result = DialFaulted | DialFailed | Unreachable | Serving session

text \<open>
  \<open>handle\<close> up to the start of the pumps. \<open>dialled\<close> is the new upstream socket, or
  \<open>None\<close> if the dial fails.
\<close>

definition handle_open ::
  "conn_id \<Rightarrow> nat \<Rightarrow> conn_id option \<Rightarrow> proxy \<Rightarrow> net_state \<Rightarrow> handle_result \<times> proxy \<times> net_state" where
  "handle_open client sess dialled p s =
     (if list_ex (\<lambda>d. BeforeDial d (upstream_host p) (now (net s))) (DialFaults (p_reg p))
      then (DialFaulted, p, close_conn client (cancel sess s))
      else case dialled of
        None \<Rightarrow> (DialFailed, p, close_conn client (cancel sess s))
      | Some up \<Rightarrow>
          (let s1 = s\<lparr>open_conns := insert up (open_conns s)\<rparr>; p1 = track up sess (track client sess p)
           in if \<not> allowed p1
              then (Unreachable, untrack client (untrack up p1), close_conn client (cancel sess (close_conn up s1)))
              else (Serving \<lparr>sess_id = sess, s_client = client, s_upstream = up, lastQuery = [],
                             toUpstream = Wrap up DirectionClientToUpstream,
                             toClient = Wrap client DirectionUpstreamToClient\<rparr>,
                    p1\<lparr>active := active p1 + 1\<rparr>, s1)))"

text \<open>The deferred calls of \<open>handle\<close>, once both pumps have returned.\<close>

definition handle_close :: "session \<Rightarrow> proxy \<Rightarrow> net_state \<Rightarrow> proxy \<times> net_state" where
  "handle_close ss p s =
     (untrack (s_client ss) (untrack (s_upstream ss) (p\<lparr>active := active p - 1\<rparr>)),
      close_conn (s_client ss) (cancel (sess_id ss) (close_conn (s_upstream ss) s)))"

text \<open>One turn of \<open>Serve\<close> on an accepted socket.\<close>

definition Serve_accept ::
  "conn_id \<Rightarrow> nat \<Rightarrow> conn_id option \<Rightarrow> proxy \<Rightarrow> net_state \<Rightarrow> handle_result \<times> proxy \<times> net_state" where
  "Serve_accept conn sess dialled p s =
     (if \<not> allowed p then (Unreachable, p, close_conn conn s) else handle_open conn sess dialled p s)"

section \<open>The pump\<close>

text \<open>\<open>None\<close>: the context was cancelled under a fault.\<close>

fun packet_loop :: "PacketFault list \<Rightarrow> instant option \<Rightarrow> StreamType \<Rightarrow> chunk \<Rightarrow> world \<Rightarrow> chunk option \<times> world" where
  "packet_loop [] ctx stream chunk w = (Some chunk, w)"
| "packet_loop (pf # pfs) ctx stream chunk w =
     (case Packet_Apply pf ctx chunk stream w of
        None \<Rightarrow> (None, w)
      | Some (chunk', w') \<Rightarrow>
          if ctx_done ctx w' then (None, w')
          else if chunk' = [] then (Some [], w')
          else packet_loop pfs ctx stream chunk' w')"

fun hook_loop :: "ptr list \<Rightarrow> chunk \<Rightarrow> chunk \<Rightarrow> net_state \<Rightarrow> chunk \<times> net_state" where
  "hook_loop [] q chunk s = (chunk, s)"
| "hook_loop (a # as) q chunk s =
     (case hooks s a of
        None \<Rightarrow> hook_loop as q chunk s
      | Some f \<Rightarrow>
          (let (chunk', f', w') = MaybeServeStale f q chunk (net s)
           in hook_loop as q chunk' (s\<lparr>hooks := (hooks s)(a \<mapsto> f'), net := w'\<rparr>)))"

datatype pump_result = PumpReturns | PumpGoesOn

definition pump_write :: "proxy \<Rightarrow> Direction \<Rightarrow> chunk \<Rightarrow> session \<Rightarrow> net_state \<Rightarrow> pump_result \<times> session \<times> net_state" where
  "pump_write p dir chunk ss s =
     (if chunk = [] then (PumpGoesOn, ss, s)
      else (let lc = (if dir = DirectionClientToUpstream then toUpstream ss else toClient ss);
                (res, lc', w') = liveConn_Write (p_reg p) lc chunk (net s);
                ss' = (if dir = DirectionClientToUpstream then ss\<lparr>toUpstream := lc'\<rparr> else ss\<lparr>toClient := lc'\<rparr>)
            in (case res of Written _ \<Rightarrow> PumpGoesOn | _ \<Rightarrow> PumpReturns, ss', s\<lparr>net := w'\<rparr>)))"

definition pump_chunk ::
  "proxy \<Rightarrow> Direction \<Rightarrow> instant option \<Rightarrow> chunk \<Rightarrow> session \<Rightarrow> net_state \<Rightarrow> pump_result \<times> session \<times> net_state" where
  "pump_chunk p dir ctx data ss s =
     (if \<not> allowed p then (PumpReturns, ss, s)
      else case packet_loop (PacketFaults (p_reg p)) ctx (p_Stream p) data (net s) of
        (None, w) \<Rightarrow> (PumpReturns, ss, s\<lparr>net := w\<rparr>)
      | (Some chunk, w) \<Rightarrow>
          (case dir of
             DirectionClientToUpstream \<Rightarrow> pump_write p dir chunk (ss\<lparr>lastQuery := chunk\<rparr>) (s\<lparr>net := w\<rparr>)
           | DirectionUpstreamToClient \<Rightarrow>
               (let (chunk', s') = hook_loop (ReadHooks (p_reg p)) (lastQuery ss) chunk (s\<lparr>net := w\<rparr>)
                in pump_write p dir chunk' ss s')))"

text \<open>The loop over the reads of the source; a read has its bytes and whether it reported an error.\<close>

fun pump ::
  "proxy \<Rightarrow> Direction \<Rightarrow> instant option \<Rightarrow> (chunk \<times> bool) list \<Rightarrow> session \<Rightarrow> net_state \<Rightarrow> session \<times> net_state" where
  "pump p dir ctx [] ss s = (ss, s)"
| "pump p dir ctx ((data, err) # reads) ss s =
     (case (if data = [] then (PumpGoesOn, ss, s) else pump_chunk p dir ctx data ss s) of
        (PumpReturns, ss', s') \<Rightarrow> (ss', s')
      | (PumpGoesOn, ss', s') \<Rightarrow> if err then (ss', s') else pump p dir ctx reads ss' s')"

section \<open>Severing\<close>

lemma severConns_eq:
  "severConns p s = s\<lparr>cancelled := cancelled s \<union> snd ` set (conns p), open_conns := open_conns s - fst ` set (conns p)\<rparr>"
proof -
  have "foldl (\<lambda>s (c, sess). s\<lparr>cancelled := insert sess (cancelled s), open_conns := open_conns s - {c}\<rparr>) s cs
      = s\<lparr>cancelled := cancelled s \<union> snd ` set cs, open_conns := open_conns s - fst ` set cs\<rparr>" for cs s
    by (induction cs arbitrary: s) (auto intro!: net_state.equality split: prod.splits)
  then show ?thesis by (simp add: severConns_def)
qed

lemma not_allowed_severed: "partitioned p \<or> crashed p \<Longrightarrow> \<not> allowed p"
  by (auto simp: allowed_def severed_def)

lemma pump_not_allowed: "\<not> allowed p \<Longrightarrow> pump p dir ctx reads ss s = (ss, s)"
  by (induction reads arbitrary: ss s) (auto simp: pump_chunk_def)

section \<open>A proxy without faults\<close>

definition no_faults :: "registry \<Rightarrow> bool" where
  "no_faults r \<longleftrightarrow> connFaults r = [] \<and> packetFaults r = [] \<and> dialFaults r = [] \<and> readHooks r = []"

definition plain_lc :: "registry \<Rightarrow> liveConn \<Rightarrow> bool" where
  "plain_lc r lc \<longleftrightarrow> wrapped lc = None \<or> lc_gen lc \<noteq> gen r \<or> wrapped lc = Some (Raw (lc_raw lc))"

lemma plain_write:
  assumes "connFaults r = []" "plain_lc r lc" "\<forall>k. \<not> fails w k"
  shows "\<exists>lc' w'. liveConn_Write r lc p w = (Written (length p), lc', w') \<and> plain_lc r lc' \<and> lc_raw lc' = lc_raw lc
    \<and> wire w' = (wire w)(lc_raw lc := wire w (lc_raw lc) @ [p]) \<and> (\<forall>k. \<not> fails w' k)"
proof -
  have wrap: "reg_wrap r (Raw i) dir w = Some (Raw i, gen r, w)" for i dir w
    using assms(1) by (simp add: reg_wrap_def)
  then have "rewrap r lc w = Some (lc\<lparr>wrapped := Some (Raw (lc_raw lc)), lc_gen := gen r\<rparr>, w)
      \<or> (wrapped lc = Some (Raw (lc_raw lc)) \<and> rewrap r lc w = Some (lc, w))"
    using assms(2) by (auto simp: rewrap_def plain_lc_def)
  then show ?thesis using assms(2,3)
    by (auto simp: liveConn_Write_def raw_write_def Let_def plain_lc_def)
qed

definition dest_lc :: "Direction \<Rightarrow> session \<Rightarrow> liveConn" where
  "dest_lc dir ss = (if dir = DirectionClientToUpstream then toUpstream ss else toClient ss)"

lemma plain_pump_chunk:
  assumes "no_faults (p_reg p)" "allowed p" "plain_lc (p_reg p) (dest_lc dir ss)" "\<forall>k. \<not> fails (net s) k" "data \<noteq> []"
  shows "\<exists>ss' s'. pump_chunk p dir ctx data ss s = (PumpGoesOn, ss', s') \<and> plain_lc (p_reg p) (dest_lc dir ss')
    \<and> lc_raw (dest_lc dir ss') = lc_raw (dest_lc dir ss) \<and> (\<forall>k. \<not> fails (net s') k)
    \<and> wire (net s') = (wire (net s))(lc_raw (dest_lc dir ss) := wire (net s) (lc_raw (dest_lc dir ss)) @ [data])"
proof -
  obtain lc' w' where w: "liveConn_Write (p_reg p) (dest_lc dir ss) data (net s) = (Written (length data), lc', w')"
    "plain_lc (p_reg p) lc'" "lc_raw lc' = lc_raw (dest_lc dir ss)" "\<forall>k. \<not> fails w' k"
    "wire w' = (wire (net s))(lc_raw (dest_lc dir ss) := wire (net s) (lc_raw (dest_lc dir ss)) @ [data])"
    using plain_write [of "p_reg p" "dest_lc dir ss" "net s" data] assms(1,3,4) by (auto simp: no_faults_def)
  show ?thesis
  proof (cases dir)
    case DirectionClientToUpstream
    with w assms(1,2,5) show ?thesis by (simp add: pump_chunk_def pump_write_def no_faults_def dest_lc_def)
  next
    case DirectionUpstreamToClient
    with w assms(1,2,5) show ?thesis by (simp add: pump_chunk_def pump_write_def no_faults_def dest_lc_def)
  qed
qed

lemma plain_pump:
  assumes "no_faults (p_reg p)" "allowed p" "plain_lc (p_reg p) (dest_lc dir ss)" "\<forall>k. \<not> fails (net s) k"
    and "\<forall>r \<in> set reads. \<not> snd r" "pump p dir ctx reads ss s = (ss', s')"
  shows "wire (net s') = (wire (net s))(lc_raw (dest_lc dir ss) :=
    wire (net s) (lc_raw (dest_lc dir ss)) @ filter (\<lambda>c. c \<noteq> []) (map fst reads))"
  using assms(3-)
proof (induction reads arbitrary: ss s)
  case (Cons r reads)
  obtain data where r: "r = (data, False)" using Cons.prems(3) by (cases r) auto
  show ?case
  proof (cases "data = []")
    case True
    with Cons r show ?thesis by auto
  next
    case False
    from plain_pump_chunk [OF assms(1,2) Cons.prems(1,2) False, of ctx]
    obtain ss1 s1 where 1: "pump_chunk p dir ctx data ss s = (PumpGoesOn, ss1, s1)" "plain_lc (p_reg p) (dest_lc dir ss1)"
      "lc_raw (dest_lc dir ss1) = lc_raw (dest_lc dir ss)" "\<forall>k. \<not> fails (net s1) k"
      "wire (net s1) = (wire (net s))(lc_raw (dest_lc dir ss) := wire (net s) (lc_raw (dest_lc dir ss)) @ [data])" by blast
    from Cons.prems(4) r False 1(1) have "pump p dir ctx reads ss1 s1 = (ss', s')" by simp
    from Cons.IH [OF 1(2,4) _ this] Cons.prems(3) 1(3,5) False r show ?thesis by (simp add: fun_eq_iff)
  qed
qed auto

section \<open>The sessions of a proxy\<close>

text \<open>
  The proxy between events: connections are accepted and end, flags are set and healed, the
  registry is changed. The third component lists the sessions being served, with their two
  sockets; a new socket is one that no session uses.
\<close>

definition socks :: "(conn_id \<times> conn_id \<times> nat) list \<Rightarrow> conn_id list" where
  "socks L = concat (map (\<lambda>(c, u, i). [c, u]) L)"

inductive proxy_reach :: "proxy \<Rightarrow> net_state \<Rightarrow> (conn_id \<times> conn_id \<times> nat) list \<Rightarrow> bool" where
  start: "proxy_reach (proxy_New nm la ua) s []"
| serve: "proxy_reach p s L \<Longrightarrow> Serve_accept c i (Some u) p s = (Serving ss, p', s') \<Longrightarrow>
     distinct (c # u # socks L) \<Longrightarrow> proxy_reach p' s' ((c, u, i) # L)"
| refuse: "proxy_reach p s L \<Longrightarrow> Serve_accept c i d p s = (r, p', s') \<Longrightarrow> (\<And>ss. r \<noteq> Serving ss) \<Longrightarrow>
     c \<notin> set (socks L) \<Longrightarrow> (\<And>u. d = Some u \<Longrightarrow> u \<notin> set (socks L)) \<Longrightarrow> proxy_reach p' s' L"
| finish: "proxy_reach p s L \<Longrightarrow> (s_client ss, s_upstream ss, sess_id ss) \<in> set L \<Longrightarrow> handle_close ss p s = (p', s') \<Longrightarrow>
     proxy_reach p' s' (remove1 (s_client ss, s_upstream ss, sess_id ss) L)"
| partition: "proxy_reach p s L \<Longrightarrow> SetPartitioned v p s = (p', s') \<Longrightarrow> proxy_reach p' s' L"
| crash: "proxy_reach p s L \<Longrightarrow> SetCrashed v p s = (p', s') \<Longrightarrow> proxy_reach p' s' L"
| heal: "proxy_reach p s L \<Longrightarrow> proxy_reach (proxy_Heal p) s L"
| retune: "proxy_reach p s L \<Longrightarrow> proxy_reach (p\<lparr>p_reg := reg_apply op t (p_reg p)\<rparr>) s L"
| traffic: "proxy_reach p s L \<Longrightarrow> proxy_reach p (s\<lparr>net := w, hooks := h\<rparr>) L"

definition tracks :: "proxy \<Rightarrow> (conn_id \<times> conn_id \<times> nat) list \<Rightarrow> bool" where
  "tracks p L \<longleftrightarrow> active p = int (length L) \<and> distinct (socks L)
     \<and> (\<forall>a i. (a, i) \<in> set (conns p) \<longleftrightarrow> (\<exists>c u. (c, u, i) \<in> set L \<and> (a = c \<or> a = u)))"

lemma socks_Cons [simp]: "socks [] = []" "socks ((c, u, i) # L) = c # u # socks L"
  by (simp_all add: socks_def)

lemma socks_iff: "x \<in> set (socks L) \<longleftrightarrow> (\<exists>c u i. (c, u, i) \<in> set L \<and> (x = c \<or> x = u))"
proof (induction L)
  case (Cons y L)
  then show ?case by (cases y) (simp, blast)
qed simp

lemma tracks_socks:
  assumes "tracks p L"
  shows "fst ` set (conns p) = set (socks L)"
proof -
  have "a \<in> fst ` set (conns p) \<longleftrightarrow> (\<exists>i. (a, i) \<in> set (conns p))" for a by force
  then have "a \<in> fst ` set (conns p) \<longleftrightarrow> a \<in> set (socks L)" for a
    using assms unfolding tracks_def socks_iff by blast
  then show ?thesis by blast
qed

lemma untracked_filter: "c \<notin> fst ` set xs \<Longrightarrow> filter (\<lambda>x. fst x \<noteq> c) xs = xs"
  by (force simp: filter_id_conv)

lemma tracks_serve:
  assumes "tracks p L" "Serve_accept c i (Some u) p s = (Serving ss, p', s')" "distinct (c # u # socks L)"
  shows "tracks p' ((c, u, i) # L)"
proof -
  have "c \<notin> fst ` set (conns p)" "u \<notin> fst ` set (conns p)" using assms(3) tracks_socks [OF assms(1)] by auto
  moreover from this have "conns p' = (u, i) # (c, i) # conns p" "active p' = active p + 1"
    using assms(2,3) by (auto simp: Serve_accept_def handle_open_def track_def untracked_filter Let_def split: if_splits)
  ultimately show ?thesis using assms(1,3) by (auto simp: tracks_def)
qed

lemma tracks_refuse:
  assumes "tracks p L" "Serve_accept c i d p s = (r, p', s')" "\<And>ss. r \<noteq> Serving ss" "c \<notin> set (socks L)"
    "\<And>u. d = Some u \<Longrightarrow> u \<notin> set (socks L)"
  shows "tracks p' L"
proof -
  have c: "c \<notin> fst ` set (conns p)" and u: "\<And>u. d = Some u \<Longrightarrow> u \<notin> fst ` set (conns p)"
    using assms(4,5) tracks_socks [OF assms(1)] by auto
  have "conns p' = conns p \<and> active p' = active p"
    using assms(2,3) c u
    by (auto simp: Serve_accept_def handle_open_def track_def untrack_def untracked_filter Let_def
        split: if_splits option.splits)
  with assms(1) show ?thesis by (simp add: tracks_def)
qed

lemma distinct_socks: "distinct (socks L) \<Longrightarrow> distinct L"
proof (induction L)
  case (Cons y L)
  then show ?case by (cases y) (auto simp: socks_iff)
qed simp

lemma distinct_socks_remove: "distinct (socks L) \<Longrightarrow> distinct (socks (remove1 x L))"
proof (induction L)
  case (Cons y L)
  have "set (socks (remove1 x L)) \<subseteq> set (socks L)" using set_remove1_subset [of x L] unfolding subset_iff socks_iff by blast
  with Cons show ?case by (cases y) auto
qed simp

lemma sockets_unique:
  assumes "distinct (socks L)" "(c, u, i) \<in> set L" "(c', u', i') \<in> set L" "{c, u} \<inter> {c', u'} \<noteq> {}"
  shows "(c, u, i) = (c', u', i')"
  using assms
proof (induction L)
  case (Cons y L)
  obtain a b k where y: "y = (a, b, k)" by (cases y)
  have "\<And>c u i. (c, u, i) \<in> set L \<Longrightarrow> {a, b} \<inter> {c, u} = {}"
    using Cons.prems(1) unfolding y socks_Cons distinct.simps set_simps insert_iff socks_iff by blast
  with Cons y show ?case by auto
qed simp

lemma tracks_finish:
  assumes "tracks p L" "(s_client ss, s_upstream ss, sess_id ss) \<in> set L" "handle_close ss p s = (p', s')"
  shows "tracks p' (remove1 (s_client ss, s_upstream ss, sess_id ss) L)"
proof -
  let ?x = "(s_client ss, s_upstream ss, sess_id ss)"
  have d: "distinct (socks L)" using assms(1) by (simp add: tracks_def)
  have L': "set (remove1 ?x L) = set L - {?x}" using distinct_socks [OF d] by (rule set_remove1_eq)
  have "active p' = active p - 1" and cs: "set (conns p') = {x \<in> set (conns p). fst x \<noteq> s_client ss \<and> fst x \<noteq> s_upstream ss}"
    using assms(3) by (auto simp: handle_close_def untrack_def)
  moreover have "length L = Suc (length (remove1 ?x L))" using assms(2) length_pos_if_in_set [OF assms(2)] by (simp add: length_remove1)
  moreover have "(a, i) \<in> set (conns p') \<longleftrightarrow> (\<exists>c u. (c, u, i) \<in> set L - {?x} \<and> (a = c \<or> a = u))" for a i
  proof -
    have L: "(a, i) \<in> set (conns p) \<longleftrightarrow> (\<exists>c u. (c, u, i) \<in> set L \<and> (a = c \<or> a = u))"
      using assms(1) by (simp add: tracks_def)
    have u: "(c, u, i) \<in> set L \<Longrightarrow> a = c \<or> a = u \<Longrightarrow> a \<noteq> s_client ss \<and> a \<noteq> s_upstream ss \<longleftrightarrow> (c, u, i) \<noteq> ?x" for c u
      using sockets_unique [OF d _ assms(2), of c u i] by auto
    show ?thesis unfolding cs mem_Collect_eq fst_conv L Diff_iff singleton_iff using u by blast
  qed
  ultimately show ?thesis using assms(1) distinct_socks_remove [OF d] by (simp add: tracks_def L')
qed

lemma tracks_keep: "tracks p L \<Longrightarrow> conns p' = conns p \<Longrightarrow> active p' = active p \<Longrightarrow> tracks p' L"
  by (simp add: tracks_def)

lemma proxy_reach_tracks: "proxy_reach p s L \<Longrightarrow> tracks p L"
proof (induction rule: proxy_reach.induct)
  case (start nm la ua s)
  then show ?case by (simp add: tracks_def proxy_New_def socks_def)
next
  case (serve p s L c i u ss p' s')
  then show ?case by (intro tracks_serve)
next
  case (refuse p s L c i d r p' s')
  show ?case by (rule tracks_refuse [OF refuse.IH refuse.hyps(2-)])
next
  case (finish p s L ss p' s')
  then show ?case by (intro tracks_finish)
qed (auto simp: SetPartitioned_def SetCrashed_def proxy_Heal_def Let_def elim!: tracks_keep)

section \<open>Properties\<close>

text \<open>
  C27: a partitioned or crashed node is unreachable. Setting either flag closes exactly the
  proxied sockets and cancels their sessions; while it is set a new connection is closed
  unserved, and a pump that still reads something forwards nothing.
\<close>

theorem severed_node_unreachable:
  assumes "(p', s') = SetPartitioned True p s \<or> (p', s') = SetCrashed True p s"
  shows "open_conns s' = open_conns s - fst ` set (conns p)
    \<and> snd ` set (conns p) \<subseteq> cancelled s'
    \<and> Serve_accept c i d p' s2 = (Unreachable, p', s2\<lparr>open_conns := open_conns s2 - {c}\<rparr>)
    \<and> pump p' dir ctx reads ss s2 = (ss, s2)"
proof -
  have na: "\<not> allowed p'"
    using assms by (intro not_allowed_severed) (auto simp: SetPartitioned_def SetCrashed_def Let_def)
  have "open_conns s' = open_conns s - fst ` set (conns p) \<and> snd ` set (conns p) \<subseteq> cancelled s'"
    using assms by (elim disjE) (simp_all add: SetPartitioned_def SetCrashed_def severConns_eq Let_def)
  with na pump_not_allowed [OF na] show ?thesis by (simp add: Serve_accept_def close_conn_def)
qed

definition ex_net :: net_state where
  "ex_net = \<lparr>net = ex_world Map.empty, hooks = Map.empty, open_conns = {1, 2, 3}, cancelled = {}\<rparr>"

theorem severed_node_unreachable_witness:
  "open_conns (snd (SetCrashed True (track 2 0 (track 1 0 (proxy_New ''a'' [] []))) ex_net)) = {3}"
  using severed_node_unreachable [of "fst (SetCrashed True (track 2 0 (track 1 0 (proxy_New ''a'' [] []))) ex_net)"
      "snd (SetCrashed True (track 2 0 (track 1 0 (proxy_New ''a'' [] []))) ex_net)" "track 2 0 (track 1 0 (proxy_New ''a'' [] []))" ex_net]
  by (auto simp: track_def proxy_New_def ex_net_def)

text \<open>
  A healed proxy is transparent, also for connections that were open while it was
  faulty: what the pump reads arrives at the destination unchanged, complete and in order,
  and no other connection gets anything.
\<close>

theorem healed_proxy_transparent:
  assumes "p = proxy_Heal p0" "p_View p0 = None" "lc_gen (dest_lc dir ss) \<noteq> gen (p_reg p) \<or> wrapped (dest_lc dir ss) = None"
    and "\<forall>k. \<not> fails (net s) k" "\<forall>r \<in> set reads. \<not> snd r" "pump p dir ctx reads ss s = (ss', s')"
  shows "wire (net s') (lc_raw (dest_lc dir ss)) =
       wire (net s) (lc_raw (dest_lc dir ss)) @ filter (\<lambda>c. c \<noteq> []) (map fst reads)
     \<and> (\<forall>j. j \<noteq> lc_raw (dest_lc dir ss) \<longrightarrow> wire (net s') j = wire (net s) j)"
proof -
  have "no_faults (p_reg p)" "allowed p"
    using assms(1,2) by (simp_all add: proxy_Heal_def no_faults_def Clear_def allowed_def severed_def)
  moreover have "plain_lc (p_reg p) (dest_lc dir ss)" using assms(3) by (auto simp: plain_lc_def)
  ultimately show ?thesis using plain_pump [OF _ _ _ assms(4-6)] by simp
qed

definition ex_session :: session where
  "ex_session = \<lparr>sess_id = 0, s_client = 1, s_upstream = 2, lastQuery = [],
     toUpstream = Wrap 2 DirectionClientToUpstream, toClient = Wrap 1 DirectionUpstreamToClient\<rparr>"

theorem healed_proxy_transparent_witness:
  "wire (net (snd (pump (proxy_Heal (proxy_New ''a'' [] [])) DirectionClientToUpstream None [([1, 2], False), ([], False), ([3], False)]
      ex_session ex_net))) 2 = [[1, 2], [3]]"
proof -
  let ?p = "proxy_Heal (proxy_New ''a'' [] [])"
  let ?r = "[([1, 2], False), ([], False), ([3], False)] :: (chunk \<times> bool) list"
  obtain ss' s' where e: "pump ?p DirectionClientToUpstream None ?r ex_session ex_net = (ss', s')"
    by (cases "pump ?p DirectionClientToUpstream None ?r ex_session ex_net")
  have "lc_raw (dest_lc DirectionClientToUpstream ex_session) = 2" "wrapped (dest_lc DirectionClientToUpstream ex_session) = None"
    by (simp_all add: dest_lc_def ex_session_def Wrap_def)
  with healed_proxy_transparent [OF refl _ _ _ _ e] show ?thesis
    by (simp only: e) (simp add: proxy_New_def ex_net_def ex_world_def)
qed

text \<open>
  Session accounting. At every point of a proxy's life the reported number of active
  clients is the number of sessions being served, and the tracked sockets, those a partition
  or crash will close, are exactly the two sockets of each such session.
\<close>

theorem sessions_accounted:
  assumes "proxy_reach p s L"
  shows "ActiveClients (fst (proxy_status p (net s))) = int (length L)
    \<and> fst ` set (conns p) = set (socks L) \<and> distinct (socks L)"
  using proxy_reach_tracks [OF assms] tracks_socks [OF proxy_reach_tracks [OF assms]]
  by (simp add: tracks_def proxy_status_def split: prod.splits)

theorem sessions_accounted_witness:
  "\<exists>p s. proxy_reach p s [(1, 2, 0)] \<and> ActiveClients (fst (proxy_status p (net s))) = 1"
proof -
  let ?p = "proxy_New ''a'' [] ''db:5432''"
  obtain ss p' s' where h: "Serve_accept 1 0 (Some 2) ?p ex_net = (Serving ss, p', s')"
    by (simp add: Serve_accept_def handle_open_def allowed_def severed_def track_def proxy_New_def NewRegistry_def Let_def)
  have "proxy_reach p' s' [(1, 2, 0)]" by (rule serve [OF start h]) simp
  from sessions_accounted [OF this] this show ?thesis by auto
qed

end
