(* ===== verification/Engine.thy ===== *)
theory Engine
  imports Proxy
begin

text \<open>
  The scenario engine (\<^verbatim>\<open>internal/scenario/scenario.go\<close>): fault steps become state
  flags, registered faults or node faults, with timers for their \<open>for_ms\<close> windows, and a
  scenario is a timed sequence of steps. The map of proxies is listed in the order a range
  over it visits them; a timer (\<^verbatim>\<open>time.AfterFunc\<close>) is its due instant with the action it
  runs. \<open>machine\<close> is the state of the machines that drivers act on.
\<close>

section \<open>State\<close>

record injectedNodeFault =
  inj_fault :: NodeFault
  inj_node :: string
  inj_driver :: NodeDriver

datatype timer_action =
    TUnregister string string
  | TUnpartition string
  | TUncrash string
  | TRevert string

record 's engine =
  Proxies :: "(string \<times> proxy) list"
  e_cfg :: "Config option"
  e_drivers :: "string \<rightharpoonup> NodeDriver"
  injected :: "injectedNodeFault list"
  timers :: "(instant \<times> timer_action) list"
  e_net :: net_state
  machine :: 's

datatype engine_error =
    UnknownTarget string
  | BadPercent int
  | UnknownDirection string
  | UnknownSignal string
  | UnknownKind string
  | NoConfig string
  | NoSuchNode string string
  | NoTarget string string
  | BadDriver string string config_error
  | InjectFailed node_error
  | Cancelled

definition engine_New :: "(string \<times> proxy) list \<Rightarrow> Config option \<Rightarrow> net_state \<Rightarrow> 's \<Rightarrow> 's engine" where
  "engine_New ps cfg ns m =
     \<lparr>Proxies = ps, e_cfg = cfg, e_drivers = Map.empty, injected = [], timers = [], e_net = ns, machine = m\<rparr>"

definition clock :: "'s engine \<Rightarrow> instant" where
  "clock e = now (net (e_net e))"

definition on_proxy :: "(proxy \<Rightarrow> proxy) \<Rightarrow> string \<Rightarrow> 's engine \<Rightarrow> 's engine" where
  "on_proxy g n e = e\<lparr>Proxies := map (\<lambda>(k, p). (k, if k = n then g p else p)) (Proxies e)\<rparr>"

definition on_proxy_net :: "(proxy \<Rightarrow> net_state \<Rightarrow> proxy \<times> net_state) \<Rightarrow> string \<Rightarrow> 's engine \<Rightarrow> 's engine" where
  "on_proxy_net g n e =
     (case map_of (Proxies e) n of
        None \<Rightarrow> e
      | Some p \<Rightarrow> (case g p (e_net e) of (p', ns) \<Rightarrow> (on_proxy (\<lambda>_. p') n e)\<lparr>e_net := ns\<rparr>))"

definition on_registry :: "(registry \<Rightarrow> registry) \<Rightarrow> string \<Rightarrow> 's engine \<Rightarrow> 's engine" where
  "on_registry g = on_proxy (\<lambda>p. p\<lparr>p_reg := g (p_reg p)\<rparr>)"

definition targets :: "'s engine \<Rightarrow> string \<Rightarrow> engine_error + string list" where
  "targets e node =
     (if node = ''*'' then Inr (map fst (Proxies e))
      else if node \<in> fst ` set (Proxies e) then Inr [node] else Inl (UnknownTarget node))"

section \<open>Timers\<close>

definition expire :: "FaultStep \<Rightarrow> timer_action \<Rightarrow> 's engine \<Rightarrow> 's engine" where
  "expire step act e = (if For step > 0 then e\<lparr>timers := timers e @ [(clock e + For step, act)]\<rparr> else e)"

section \<open>Node faults\<close>

definition driverFor :: "string \<Rightarrow> Node \<Rightarrow> 's engine \<Rightarrow> (engine_error + NodeDriver) \<times> 's engine" where
  "driverFor kind n e =
     (case e_drivers e (Name n) of
        Some d \<Rightarrow> (Inr d, e)
      | None \<Rightarrow>
          (case Target n of
             None \<Rightarrow> (Inl (NoTarget kind (Name n)), e)
           | Some t \<Rightarrow>
               (case NewDriver (toSpec t) of
                  Inl err \<Rightarrow> (Inl (BadDriver kind (Name n) err), e)
                | Inr d \<Rightarrow> (Inr d, e\<lparr>e_drivers := (e_drivers e)(Name n \<mapsto> d)\<rparr>))))"

fun inject_nodes ::
  "'s system \<Rightarrow> (instant \<Rightarrow> string) \<Rightarrow> FaultStep \<Rightarrow> NodeFault \<Rightarrow> Node list \<Rightarrow> 's engine \<Rightarrow> engine_error option \<times> 's engine" where
  "inject_nodes sys fmt step nf [] e = (None, e)"
| "inject_nodes sys fmt step nf (n # ns) e =
     (case driverFor (Kind step) n e of
        (Inl err, e1) \<Rightarrow> (Some err, e1)
      | (Inr d, e1) \<Rightarrow>
          (case Inject sys fmt (clock e1) nf d (machine e1) of
             (Some err, m) \<Rightarrow> (Some (InjectFailed err), e1\<lparr>machine := m\<rparr>)
           | (None, m) \<Rightarrow>
               (let e2 = e1\<lparr>machine := m, injected := injected e1 @ [\<lparr>inj_fault = nf, inj_node = Name n, inj_driver = d\<rparr>]\<rparr>
                in inject_nodes sys fmt step nf ns (expire step (TRevert (Name n)) e2))))"

definition runNodeFault ::
  "'s system \<Rightarrow> (instant \<Rightarrow> string) \<Rightarrow> FaultStep \<Rightarrow> NodeFault \<Rightarrow> 's engine \<Rightarrow> engine_error option \<times> 's engine" where
  "runNodeFault sys fmt step nf e =
     (case e_cfg e of
        None \<Rightarrow> (Some (NoConfig (Kind step)), e)
      | Some cfg \<Rightarrow>
          if step_Node step = ''*'' then inject_nodes sys fmt step nf (Nodes cfg) e
          else (case FindNode cfg (step_Node step) of
                  Some n \<Rightarrow> inject_nodes sys fmt step nf [n] e
                | None \<Rightarrow> (Some (NoSuchNode (Kind step) (step_Node step)), e)))"

definition revert_all ::
  "'s system \<Rightarrow> (instant \<Rightarrow> string) \<Rightarrow> instant \<Rightarrow> injectedNodeFault list \<Rightarrow> 's \<Rightarrow> 's" where
  "revert_all sys fmt t injs m = foldl (\<lambda>m inj. snd (Revert sys fmt t (inj_fault inj) (inj_driver inj) m)) m injs"

definition revertNodeFaults ::
  "'s system \<Rightarrow> (instant \<Rightarrow> string) \<Rightarrow> (string \<Rightarrow> bool) \<Rightarrow> 's engine \<Rightarrow> 's engine" where
  "revertNodeFaults sys fmt match e =
     e\<lparr>injected := filter (\<lambda>i. \<not> match (inj_node i)) (injected e),
       machine := revert_all sys fmt (clock e) (filter (\<lambda>i. match (inj_node i)) (injected e)) (machine e)\<rparr>"

definition ownsNode :: "string \<Rightarrow> string \<Rightarrow> bool" where
  "ownsNode step_node node \<longleftrightarrow> step_node = ''*'' \<or> step_node = node"

section \<open>Registering faults\<close>

definition registerConn :: "FaultStep \<Rightarrow> string list \<Rightarrow> Fault \<Rightarrow> 's engine \<Rightarrow> 's engine" where
  "registerConn step ns f e =
     foldl (\<lambda>e n. expire step (TUnregister n (Fault_Name f)) (on_registry (RegisterConnFault f (clock e)) n e)) e ns"

definition registerPacket :: "FaultStep \<Rightarrow> string list \<Rightarrow> PacketFault \<Rightarrow> 's engine \<Rightarrow> 's engine" where
  "registerPacket step ns f e =
     foldl (\<lambda>e n. expire step (TUnregister n (Packet_Name f)) (on_registry (RegisterPacketFault f) n e)) e ns"

definition registerHook :: "FaultStep \<Rightarrow> string list \<Rightarrow> StaleReadFault \<Rightarrow> 's engine \<Rightarrow> 's engine" where
  "registerHook step ns f e =
     (let a = next_ptr (net (e_net e));
          e1 = e\<lparr>e_net := (e_net e)\<lparr>hooks := (hooks (e_net e))(a \<mapsto> f),
                                  net := (net (e_net e))\<lparr>next_ptr := Suc a\<rparr>\<rparr>\<rparr>
      in foldl (\<lambda>e n. expire step (TUnregister n (StaleRead_Name a)) (on_registry (RegisterReadHook a) n e)) e1 ns)"

definition registerDNS :: "FaultStep \<Rightarrow> string list \<Rightarrow> 's engine \<Rightarrow> 's engine" where
  "registerDNS step ns e =
     foldl (\<lambda>e n. expire step (TUnregister n ''dns_failure'')
       (on_proxy (\<lambda>p.
          let window = (if For step \<le> 0 then 24 * 3600 * Second else For step);
              f = Trigger \<lparr>ServiceName = StringParam step ''service'' (upstream_host p), dns_active = False, dns_until = 0\<rparr>
                    window (clock e)
          in p\<lparr>p_reg := RegisterDialFault f (p_reg p)\<rparr>) n e)) e ns"

text \<open>Allocating a fault object and registering it on every target: the targets share it.\<close>

definition registerObj :: "FaultStep \<Rightarrow> string list \<Rightarrow> (ptr \<Rightarrow> Fault) \<Rightarrow> conn_obj \<Rightarrow> 's engine \<Rightarrow> 's engine" where
  "registerObj step ns mk ob e =
     (case alloc ob (net (e_net e)) of
        (a, w) \<Rightarrow> registerConn step ns (mk a) (e\<lparr>e_net := (e_net e)\<lparr>net := w\<rparr>\<rparr>))"

section \<open>Applying a step\<close>

definition latency_of :: "FaultStep \<Rightarrow> LatencyInjectionFault" where
  "latency_of step =
     (NewLatencyInjectionFault (DurationParam step ''delay'' (wrap64 (LatencyMs step * Millisecond)))
        (DurationParam step ''jitter'' 0))
     \<lparr>RampTo := DurationParam step ''ramp_to'' 0, RampOver := DurationParam step ''ramp_over'' 0\<rparr>"

definition bursty_of :: "FaultStep \<Rightarrow> BurstyLossFault" where
  "bursty_of step =
     \<lparr>BaselineLoss = FloatParam step ''baseline_loss'' (1 / 100), BurstLoss = FloatParam step ''burst_loss'' (4 / 10),
      BurstEvery = DurationParam step ''burst_every'' (30 * Second), BurstFor = DurationParam step ''burst_for'' (5 * Second),
      inBurst = False, burstEnds = 0, lastCheck = 0\<rparr>"

definition direction_of :: "string \<Rightarrow> Direction option" where
  "direction_of d =
     (if d \<in> {''client_to_upstream'', ''outbound''} then Some DirectionClientToUpstream
      else if d \<in> {''upstream_to_client'', ''inbound''} then Some DirectionUpstreamToClient
      else None)"

definition signal_of :: "string \<Rightarrow> Signal option" where
  "signal_of s =
     (if s \<in> {''SIGKILL'', ''KILL''} then Some SIGKILL
      else if s \<in> {''SIGTERM'', ''TERM''} then Some SIGTERM
      else None)"

definition apply_drop :: "FaultStep \<Rightarrow> string list \<Rightarrow> 's engine \<Rightarrow> engine_error option \<times> 's engine" where
  "apply_drop step ns e =
     (let percent = IntParam step ''drop_percent'' (DropPercent step)
      in if percent < 0 \<or> percent > 100 then (Some (BadPercent percent), e)
         else if percent = 0
         then (None, foldl (\<lambda>e n. on_registry (\<lambda>r. snd (Unregister ''bursty_loss'' r)) n e) e ns)
         else (None, registerObj step ns BurstyF (OBursty (uniform_loss (of_int percent / 100))) e))"

definition apply_flag ::
  "(bool \<Rightarrow> proxy \<Rightarrow> net_state \<Rightarrow> proxy \<times> net_state) \<Rightarrow> (string \<Rightarrow> timer_action) \<Rightarrow> FaultStep \<Rightarrow> string list \<Rightarrow> 's engine \<Rightarrow> 's engine" where
  "apply_flag setf undo step ns e = foldl (\<lambda>e n. expire step (undo n) (on_proxy_net (setf True) n e)) e ns"

definition apply_heal :: "'s system \<Rightarrow> (instant \<Rightarrow> string) \<Rightarrow> FaultStep \<Rightarrow> string list \<Rightarrow> 's engine \<Rightarrow> 's engine" where
  "apply_heal sys fmt step ns e =
     revertNodeFaults sys fmt (ownsNode (step_Node step)) (foldl (\<lambda>e n. on_proxy proxy_Heal n e) e ns)"

text \<open>The switch of \<open>Apply\<close> over the kinds, once the targets are known.\<close>

definition apply_kind ::
  "'s system \<Rightarrow> (instant \<Rightarrow> string) \<Rightarrow> FaultStep \<Rightarrow> string list \<Rightarrow> 's engine \<Rightarrow> engine_error option \<times> 's engine" where
  "apply_kind sys fmt step ns e =
     (let k = Kind step
      in if k = ''partition'' then (None, apply_flag SetPartitioned TUnpartition step ns e)
         else if k = ''crash'' then (None, apply_flag SetCrashed TUncrash step ns e)
         else if k = ''heal'' then (None, apply_heal sys fmt step ns e)
         else if k = ''latency'' then (None, registerObj step ns LatencyF (OLatency (latency_of step)) e)
         else if k = ''drop'' then apply_drop step ns e
         else if k = ''bursty_loss'' then (None, registerObj step ns BurstyF (OBursty (bursty_of step)) e)
         else if k = ''bandwidth_throttle'' then
           (None, registerObj step ns ThrottleF
              (OThrottle (NewBandwidthThrottleFault (Int64Param step ''rate_bytes_per_sec'' 65536)
                 (Int64Param step ''burst_bytes'' 65536) (clock e))) e)
         else if k = ''reorder'' then
           (None, registerConn step ns
              (ReorderF \<lparr>BufferSize = IntParam step ''buffer_size'' 5, ro_Probability = FloatParam step ''probability'' (1 / 10)\<rparr>) e)
         else if k = ''duplication'' then
           (None, registerConn step ns
              (DuplicationF \<lparr>dup_Probability = FloatParam step ''probability'' (5 / 100),
                             MaxExtraCopies = IntParam step ''max_extra_copies'' 1\<rparr>) e)
         else if k = ''asymmetric_partition'' then
           (case direction_of (StringParam step ''block_direction'' ''client_to_upstream'') of
              Some d \<Rightarrow> (None, registerConn step ns (AsymmetricF \<lparr>BlockDirection = d\<rparr>) e)
            | None \<Rightarrow> (Some (UnknownDirection (StringParam step ''block_direction'' ''client_to_upstream'')), e))
         else if k = ''tcp_rst'' then (None, registerConn step ns RSTF e)
         else if k = ''dns_failure'' then (None, registerDNS step ns e)
         else if k = ''replica_lag'' then
           (None, registerPacket step ns
              (ReplicaLagP \<lparr>rl_Delay = DurationParam step ''delay'' (2 * Second), rl_Jitter = DurationParam step ''jitter'' 0\<rparr>) e)
         else if k = ''wal_delay'' then
           (None, registerPacket step ns (WALDelayP \<lparr>FlushDelay = DurationParam step ''flush_delay'' Second\<rparr>) e)
         else if k = ''wal_corruption'' then
           (None, registerPacket step ns
              (WALCorruptionP \<lparr>wc_Probability = FloatParam step ''probability'' (1 / 100),
                               wc_BytesToFlip = IntParam step ''bytes_to_flip'' 1\<rparr>) e)
         else if k = ''query_corruption'' then
           (None, registerPacket step ns
              (QueryCorruptionP \<lparr>qc_Probability = FloatParam step ''probability'' (1 / 100),
                                 qc_BytesToFlip = IntParam step ''bytes_to_flip'' 1\<rparr>) e)
         else if k = ''stale_read'' then
           (None, registerHook step ns
              (NewStaleReadFault (FloatParam step ''probability'' (3 / 10)) (DurationParam step ''max_age'' (10 * Second))) e)
         else if k = ''node_crash'' then
           (case signal_of (StringParam step ''signal'' ''SIGKILL'') of
              Some sig \<Rightarrow> runNodeFault sys fmt step (CrashFault sig) e
            | None \<Rightarrow> (Some (UnknownSignal (StringParam step ''signal'' ''SIGKILL'')), e))
         else if k = ''clock_skew'' then
           runNodeFault sys fmt step (ClockSkewFault (DurationParam step ''offset'' (60 * Second))) e
         else if k = ''cpu_throttle'' then runNodeFault sys fmt step (CPUThrottleFault (FloatParam step ''cpu_quota'' (1 / 10))) e
         else if k = ''oom'' then runNodeFault sys fmt step (OOMFault (Int64Param step ''limit_bytes'' (50 * 1024 * 1024))) e
         else if k = ''zombie'' then runNodeFault sys fmt step ZombieFault e
         else (Some (UnknownKind k), e))"

definition engine_Apply ::
  "'s system \<Rightarrow> (instant \<Rightarrow> string) \<Rightarrow> FaultStep \<Rightarrow> 's engine \<Rightarrow> engine_error option \<times> 's engine" where
  "engine_Apply sys fmt step e =
     (case targets e (step_Node step) of
        Inl err \<Rightarrow> (Some err, e)
      | Inr ns \<Rightarrow> apply_kind sys fmt step ns e)"

section \<open>Removing and healing\<close>

text \<open>\<open>Status\<close> of a proxy draws a jittered delay and moves the burst schedule on.\<close>

definition after_status :: "proxy \<Rightarrow> 's engine \<Rightarrow> 's engine" where
  "after_status p e = e\<lparr>e_net := (e_net e)\<lparr>net := snd (proxy_status p (net (e_net e)))\<rparr>\<rparr>"

definition remove_on :: "string \<Rightarrow> bool \<times> 's engine \<Rightarrow> string \<Rightarrow> bool \<times> 's engine" where
  "remove_on name re n =
     (case map_of (Proxies (snd re)) n of
        None \<Rightarrow> re
      | Some p \<Rightarrow>
          if name = ''partition'' then
            (let e1 = after_status p (snd re)
             in if partitioned p then (True, on_proxy_net (SetPartitioned False) n e1) else (fst re, e1))
          else if name = ''crash'' then
            (let e1 = after_status p (snd re)
             in if crashed p then (True, on_proxy_net (SetCrashed False) n e1) else (fst re, e1))
          else (fst re \<or> fst (Unregister name (p_reg p)), on_registry (\<lambda>r. snd (Unregister name r)) n (snd re)))"

definition RemoveFault ::
  "'s system \<Rightarrow> (instant \<Rightarrow> string) \<Rightarrow> string \<Rightarrow> string \<Rightarrow> 's engine \<Rightarrow> (engine_error + bool) \<times> 's engine" where
  "RemoveFault sys fmt node name e =
     (case targets e node of
        Inl err \<Rightarrow> (Inl err, e)
      | Inr ns \<Rightarrow>
          (case foldl (remove_on name) (False, e) ns of
             (removed, e1) \<Rightarrow>
               if list_ex (\<lambda>i. NodeFault_Name (inj_fault i) = name \<and> (node = ''*'' \<or> inj_node i = node)) (injected e1)
               then (Inr True, revertNodeFaults sys fmt (ownsNode node) e1)
               else (Inr removed, e1)))"

definition Outstanding :: "'s engine \<Rightarrow> string \<Rightarrow> string list" where
  "Outstanding e node = map (\<lambda>i. NodeFault_Name (inj_fault i)) (filter (\<lambda>i. inj_node i = node) (injected e))"

definition HealAll :: "'s system \<Rightarrow> (instant \<Rightarrow> string) \<Rightarrow> 's engine \<Rightarrow> 's engine" where
  "HealAll sys fmt e =
     revertNodeFaults sys fmt (\<lambda>_. True) (foldl (\<lambda>e n. on_proxy proxy_Heal n e) e (map fst (Proxies e)))"

section \<open>Time and scenarios\<close>

definition fire :: "'s system \<Rightarrow> (instant \<Rightarrow> string) \<Rightarrow> timer_action \<Rightarrow> 's engine \<Rightarrow> 's engine" where
  "fire sys fmt act e =
     (case act of
        TUnregister n name \<Rightarrow> on_registry (\<lambda>r. snd (Unregister name r)) n e
      | TUnpartition n \<Rightarrow> on_proxy_net (SetPartitioned False) n e
      | TUncrash n \<Rightarrow> on_proxy_net (SetCrashed False) n e
      | TRevert n \<Rightarrow> revertNodeFaults sys fmt (\<lambda>m. m = n) e)"

definition set_clock :: "instant \<Rightarrow> 's engine \<Rightarrow> 's engine" where
  "set_clock t e = e\<lparr>e_net := (e_net e)\<lparr>net := (net (e_net e))\<lparr>now := max t (now (net (e_net e)))\<rparr>\<rparr>\<rparr>"

text \<open>Time passes to \<open>t\<close>; the timers due by then go off in the order of their instants.\<close>

definition advance :: "'s system \<Rightarrow> (instant \<Rightarrow> string) \<Rightarrow> instant \<Rightarrow> 's engine \<Rightarrow> 's engine" where
  "advance sys fmt t e =
     (let due = sort_key fst (filter (\<lambda>x. fst x \<le> t) (timers e));
          e1 = e\<lparr>timers := filter (\<lambda>x. \<not> fst x \<le> t) (timers e)\<rparr>
      in set_clock t (foldl (\<lambda>e (d, act). fire sys fmt act (set_clock d e)) e1 due))"

fun run_steps ::
  "'s system \<Rightarrow> (instant \<Rightarrow> string) \<Rightarrow> instant option \<Rightarrow> instant \<Rightarrow> FaultStep list \<Rightarrow> 's engine \<Rightarrow> engine_error option \<times> 's engine" where
  "run_steps sys fmt ctx start [] e = (None, e)"
| "run_steps sys fmt ctx start (step # steps) e =
     (let wait = After step - time_Sub (clock e) start; wake = clock e + wait
      in if wait > 0 \<and> (case ctx of None \<Rightarrow> False | Some t \<Rightarrow> t < wake)
         then (Some Cancelled, advance sys fmt (the ctx) e)
         else (let e1 = (if wait > 0 then advance sys fmt wake e else e)
               in case engine_Apply sys fmt step e1 of
                    (Some err, e2) \<Rightarrow> (Some err, e2)
                  | (None, e2) \<Rightarrow> run_steps sys fmt ctx start steps e2))"

definition engine_Run ::
  "'s system \<Rightarrow> (instant \<Rightarrow> string) \<Rightarrow> instant option \<Rightarrow> Scenario \<Rightarrow> 's engine \<Rightarrow> engine_error option \<times> 's engine" where
  "engine_Run sys fmt ctx sc e = run_steps sys fmt ctx (clock e) (sort_key AfterMs (Steps sc)) e"

section \<open>Proxies under the engine\<close>

lemma on_proxy_fields [simp]:
  "map fst (Proxies (on_proxy g n e)) = map fst (Proxies e)"
  "fst ` set (Proxies (on_proxy g n e)) = fst ` set (Proxies e)"
  "timers (on_proxy g n e) = timers e" "injected (on_proxy g n e) = injected e"
  "machine (on_proxy g n e) = machine e" "e_net (on_proxy g n e) = e_net e"
  "e_cfg (on_proxy g n e) = e_cfg e" "e_drivers (on_proxy g n e) = e_drivers e"
  "clock (on_proxy g n e) = clock e"
  by (auto simp: on_proxy_def clock_def split_def image_image)

lemma map_of_on_proxy: "map_of (Proxies (on_proxy g n e)) k = (if k = n then map_option g (map_of (Proxies e) k) else map_of (Proxies e) k)"
proof -
  have "map_of (map (\<lambda>(k, p). (k, if k = n then g p else p)) ps) k = (if k = n then map_option g (map_of ps k) else map_of ps k)" for ps
    by (induction ps) auto
  then show ?thesis by (simp add: on_proxy_def)
qed

lemma expire_fields [simp]:
  "Proxies (expire step act e) = Proxies e" "injected (expire step act e) = injected e"
  "machine (expire step act e) = machine e" "e_net (expire step act e) = e_net e"
  "clock (expire step act e) = clock e"
  by (auto simp: expire_def clock_def)

lemma revertNodeFaults_fields [simp]:
  "Proxies (revertNodeFaults sys fmt m e) = Proxies e" "e_net (revertNodeFaults sys fmt m e) = e_net e"
  by (simp_all add: revertNodeFaults_def)

section \<open>Healing\<close>

definition healthy :: "proxy \<Rightarrow> bool" where
  "healthy p \<longleftrightarrow> \<not> partitioned p \<and> \<not> crashed p \<and> no_faults (p_reg p)"

lemma healthy_Heal: "healthy (proxy_Heal p)"
  by (simp add: healthy_def proxy_Heal_def no_faults_def Clear_def)

lemma heal_fold:
  "\<forall>(k, p) \<in> set (Proxies (foldl (\<lambda>e n. on_proxy proxy_Heal n e) e ns)). k \<in> set ns \<longrightarrow> healthy p"
proof (induction ns rule: rev_induct)
  case (snoc n ns)
  then show ?case by (auto simp: on_proxy_def healthy_Heal)
qed simp

lemma heal_fold_fields:
  "map fst (Proxies (foldl (\<lambda>e n. on_proxy g n e) e ns)) = map fst (Proxies e)"
  "injected (foldl (\<lambda>e n. on_proxy g n e) e ns) = injected e"
  "machine (foldl (\<lambda>e n. on_proxy g n e) e ns) = machine e"
  "clock (foldl (\<lambda>e n. on_proxy g n e) e ns) = clock e"
  by (induction ns arbitrary: e) simp_all

lemma HealAll_healthy:
  assumes "(k, p) \<in> set (Proxies (HealAll sys fmt e))"
  shows "healthy p"
proof -
  let ?e1 = "foldl (\<lambda>e n. on_proxy proxy_Heal n e) e (map fst (Proxies e))"
  have p: "(k, p) \<in> set (Proxies ?e1)" using assms by (simp add: HealAll_def)
  then have "k \<in> set (map fst (Proxies ?e1))" by force
  then have "k \<in> set (map fst (Proxies e))" by (simp only: heal_fold_fields(1))
  with heal_fold [of e "map fst (Proxies e)"] p show ?thesis by blast
qed

section \<open>Errors\<close>

text \<open>The errors that \<open>Apply\<close> reports before it has done anything.\<close>

definition early_error :: "engine_error \<Rightarrow> bool" where
  "early_error err =
     (case err of
        NoTarget _ _ \<Rightarrow> False | BadDriver _ _ _ \<Rightarrow> False | InjectFailed _ \<Rightarrow> False | _ \<Rightarrow> True)"

lemma driverFor_frame:
  "driverFor k n e = (r, e') \<Longrightarrow> Proxies e' = Proxies e \<and> injected e' = injected e \<and> e_net e' = e_net e \<and> machine e' = machine e
     \<and> timers e' = timers e"
  by (auto simp: driverFor_def split: option.splits sum.splits)

lemma driverFor_error: "driverFor k n e = (Inl err, e') \<Longrightarrow> \<not> early_error err"
  by (auto simp: driverFor_def early_error_def split: option.splits sum.splits)

lemma inject_nodes_frame:
  "inject_nodes sys fmt step nf ns e = (r, e') \<Longrightarrow> Proxies e' = Proxies e \<and> (\<forall>err. r = Some err \<longrightarrow> \<not> early_error err)"
proof (induction ns arbitrary: e)
  case (Cons n ns)
  obtain x e1 where d: "driverFor (Kind step) n e = (x, e1)" by (cases "driverFor (Kind step) n e")
  note fr = driverFor_frame [OF d]
  show ?case
  proof (cases x)
    case (Inl err)
    from Cons.prems have "r = Some err" "e' = e1" by (simp_all add: d Inl)
    with fr driverFor_error [OF d [unfolded Inl]] show ?thesis by simp
  next
    case (Inr dr)
    obtain y m where i: "Inject sys fmt (clock e1) nf dr (machine e1) = (y, m)"
      by (cases "Inject sys fmt (clock e1) nf dr (machine e1)")
    show ?thesis
    proof (cases y)
      case None
      let ?e2 = "e1\<lparr>machine := m, injected := injected e1 @ [\<lparr>inj_fault = nf, inj_node = Name n, inj_driver = dr\<rparr>]\<rparr>"
      from Cons.prems have "inject_nodes sys fmt step nf ns (expire step (TRevert (Name n)) ?e2) = (r, e')"
        by (simp add: d Inr i None)
      from Cons.IH [OF this] fr show ?thesis by simp
    next
      case (Some err)
      from Cons.prems have "r = Some (InjectFailed err)" "e' = e1\<lparr>machine := m\<rparr>" by (simp_all add: d Inr i Some)
      with fr show ?thesis by (simp add: early_error_def)
    qed
  qed
qed simp

lemma runNodeFault_frame:
  assumes "runNodeFault sys fmt step nf e = (r, e')"
  shows "Proxies e' = Proxies e \<and> (\<forall>k. r \<noteq> Some (UnknownKind k)) \<and> (\<forall>err. r = Some err \<and> early_error err \<longrightarrow> e' = e)"
proof -
  have early: "early_error (UnknownKind k)" for k by (simp add: early_error_def)
  have nodes: "?thesis" if "inject_nodes sys fmt step nf ns e = (r, e')" for ns
    using inject_nodes_frame [OF that] early by blast
  show ?thesis
  proof (cases "e_cfg e")
    case None
    with assms show ?thesis by (auto simp: runNodeFault_def)
  next
    case (Some cfg)
    show ?thesis
    proof (cases "step_Node step = ''*''")
      case True
      with assms Some have "inject_nodes sys fmt step nf (Nodes cfg) e = (r, e')" by (simp add: runNodeFault_def)
      then show ?thesis by (rule nodes)
    next
      case False
      show ?thesis
      proof (cases "FindNode cfg (step_Node step)")
        case None
        with assms Some False show ?thesis by (auto simp: runNodeFault_def)
      next
        case (Some n)
        with assms \<open>e_cfg e = Some cfg\<close> False have "inject_nodes sys fmt step nf [n] e = (r, e')"
          by (simp add: runNodeFault_def del: inject_nodes.simps)
        then show ?thesis by (rule nodes)
      qed
    qed
  qed
qed

lemma apply_kind_frame:
  assumes "apply_kind sys fmt step ns e = (Some err, e')"
  shows "Proxies e' = Proxies e \<and> (early_error err \<longrightarrow> e' = e)"
proof -
  have "(err, e') = (BadPercent (IntParam step ''drop_percent'' (DropPercent step)), e)
      \<or> (err, e') = (UnknownDirection (StringParam step ''block_direction'' ''client_to_upstream''), e)
      \<or> (err, e') = (UnknownSignal (StringParam step ''signal'' ''SIGKILL''), e)
      \<or> (err, e') = (UnknownKind (Kind step), e)
      \<or> (\<exists>nf. runNodeFault sys fmt step nf e = (Some err, e'))"
    using assms by (auto simp: apply_kind_def apply_drop_def Let_def split: if_splits option.splits)
  then show ?thesis using runNodeFault_frame [of sys fmt step _ e "Some err" e'] by auto
qed

section \<open>Windows\<close>

text \<open>The connection fault that a node's registry holds under a name.\<close>

definition fault_on :: "'s engine \<Rightarrow> string \<Rightarrow> string \<Rightarrow> Fault option" where
  "fault_on e n name = (case map_of (Proxies e) n of None \<Rightarrow> None | Some p \<Rightarrow> Get (p_reg p) name)"

definition conns_distinct :: "'s engine \<Rightarrow> string \<Rightarrow> bool" where
  "conns_distinct e n = (case map_of (Proxies e) n of None \<Rightarrow> False | Some p \<Rightarrow> distinct (map Fault_Name (connFaults (p_reg p))))"

lemma set_clock_fields [simp]:
  "Proxies (set_clock t e) = Proxies e" "timers (set_clock t e) = timers e" "clock (set_clock t e) = max t (clock e)"
  "fault_on (set_clock t e) n name = fault_on e n name" "conns_distinct (set_clock t e) n = conns_distinct e n"
  by (simp_all add: set_clock_def clock_def fault_on_def conns_distinct_def)

lemma registerConn_one:
  assumes "For step > 0"
  shows "timers (registerConn step [n] f e) = timers e @ [(clock e + For step, TUnregister n (Fault_Name f))]"
    and "clock (registerConn step [n] f e) = clock e"
  using assms by (simp_all add: registerConn_def expire_def on_registry_def) (simp add: clock_def on_proxy_def)

lemma registerConn_fault:
  assumes "conns_distinct e n"
  shows "fault_on (registerConn step [n] f e) n name = (if name = Fault_Name f then Some f else fault_on e n name)"
    and "conns_distinct (registerConn step [n] f e) n"
  using assms connTab.find_put [of _ name f "clock e"] connTab.distinct_put [of _ f "clock e"]
  by (auto simp: registerConn_def on_registry_def fault_on_def conns_distinct_def map_of_on_proxy Get_def split: option.splits)

lemma fire_unregister:
  "fault_on (fire sys fmt (TUnregister n m) e) k name = (if k = n \<and> name = m then None else fault_on e k name)"
  using connTab.find_remove [of name m]
  by (auto simp: fire_def on_registry_def fault_on_def map_of_on_proxy Get_def split: option.splits)

lemma advance_none:
  "\<forall>x \<in> set (timers e). t < fst x \<Longrightarrow> advance sys fmt t e = set_clock t e"
proof -
  assume "\<forall>x \<in> set (timers e). t < fst x"
  then have "filter (\<lambda>x. fst x \<le> t) (timers e) = []" "filter (\<lambda>x. \<not> fst x \<le> t) (timers e) = timers e"
    by (auto simp: filter_empty_conv filter_id_conv)
  then show ?thesis by (simp add: advance_def)
qed

lemma advance_first:
  assumes "timers e = (d, act) # rest" "d \<le> t" "\<forall>x \<in> set rest. t < fst x"
  shows "advance sys fmt t e = set_clock t (fire sys fmt act (set_clock d (e\<lparr>timers := rest\<rparr>)))"
proof -
  have "filter (\<lambda>x. fst x \<le> t) rest = []" "filter (\<lambda>x. \<not> fst x \<le> t) rest = rest"
    using assms(3) by (auto simp: filter_empty_conv filter_id_conv)
  with assms(1,2) show ?thesis by (simp add: advance_def Let_def)
qed

section \<open>Properties\<close>

text \<open>
  C28: healing everything. Afterwards no proxy is partitioned or crashed and none has a
  fault registered, the set of proxies is the same, no node fault is outstanding, and the
  machines are as reverting each outstanding fault once, in the order of injection, leaves
  them.
\<close>

theorem heal_all_restores:
  "list_all (\<lambda>(n, p). \<not> partitioned p \<and> \<not> crashed p \<and> Names (p_reg p) = []) (Proxies (HealAll sys fmt e))
   \<and> map fst (Proxies (HealAll sys fmt e)) = map fst (Proxies e)
   \<and> injected (HealAll sys fmt e) = [] \<and> Outstanding (HealAll sys fmt e) n = []
   \<and> machine (HealAll sys fmt e) = revert_all sys fmt (clock e) (injected e) (machine e)"
proof -
  have "list_all (\<lambda>(n, p). \<not> partitioned p \<and> \<not> crashed p \<and> Names (p_reg p) = []) (Proxies (HealAll sys fmt e))"
    using HealAll_healthy by (fastforce simp: list_all_iff healthy_def no_faults_def Names_def)
  then show ?thesis by (simp add: HealAll_def revertNodeFaults_def Outstanding_def heal_fold_fields)
qed

text \<open>
  C29: errors are clean. When applying a step fails, no proxy has changed; when it fails
  because of the step itself (unknown node, kind, direction or signal, a percentage out of
  range, no configuration), nothing at all has changed.
\<close>

theorem apply_error_clean:
  assumes "engine_Apply sys fmt step e = (Some err, e')"
  shows "Proxies e' = Proxies e \<and> (early_error err \<longrightarrow> e' = e)"
  using assms apply_kind_frame [of sys fmt step _ e err e']
  by (auto simp: engine_Apply_def targets_def split: if_splits)

definition ex_engine :: "string list list engine" where
  "ex_engine = engine_New [(''a'', proxy_New ''a'' [] ''db:5432'')] None ex_net
     []"

definition ex_fault :: "string \<Rightarrow> int \<Rightarrow> FaultStep" where
  "ex_fault kind ms = \<lparr>step_Node = ''a'', Kind = kind, LatencyMs = 100, DropPercent = 0, Params = Map.empty, AfterMs = 0, ForMs = ms\<rparr>"

theorem apply_error_clean_witness:
  "\<exists>e'. engine_Apply ex_remote (\<lambda>t. []) (ex_fault ''gremlin'' 0) ex_engine = (Some (UnknownKind ''gremlin''), e') \<and> e' = ex_engine"
proof -
  obtain e' where e: "engine_Apply ex_remote (\<lambda>t. []) (ex_fault ''gremlin'' 0) ex_engine = (Some (UnknownKind ''gremlin''), e')"
    by (simp add: engine_Apply_def targets_def ex_engine_def engine_New_def ex_fault_def apply_kind_def)
  from apply_error_clean [OF e] e show ?thesis by (simp add: early_error_def)
qed

text \<open>
  C30: a window closes on time, and cuts a later window short. A fault registered on a node
  for \<open>for_ms\<close> is there until its window has passed and gone then. But if the fault is
  registered again before that, with a window of its own, the timer of the first one still
  removes it: it is gone at the end of the first window, while the second is still open.
\<close>

theorem window_removes_by_name:
  assumes "conns_distinct e n" "timers e = []" "For step > 0" "For step' > 0" "Fault_Name f' = Fault_Name f"
    and "clock e < t'" "t' < clock e + For step" "clock e + For step \<le> t" "t < t' + For step'"
  shows "(let e1 = registerConn step [n] f e;
              e2 = registerConn step' [n] f' (advance sys fmt t' e1)
          in fault_on (advance sys fmt t' e1) n (Fault_Name f) = Some f
             \<and> fault_on (advance sys fmt t e1) n (Fault_Name f) = None
             \<and> fault_on e2 n (Fault_Name f) = Some f'
             \<and> fault_on (advance sys fmt t e2) n (Fault_Name f) = None)"
proof -
  let ?m = "Fault_Name f"
  define e1 where "e1 = registerConn step [n] f e"
  define e2 where "e2 = registerConn step' [n] f' (set_clock t' e1)"
  have 1: "timers e1 = [(clock e + For step, TUnregister n ?m)]" "clock e1 = clock e"
    using registerConn_one [OF assms(3), of n f e] assms(2) by (simp_all add: e1_def)
  have f1: "fault_on e1 n ?m = Some f" "conns_distinct e1 n"
    using registerConn_fault [OF assms(1), of step f] by (simp_all add: e1_def)
  have a: "advance sys fmt t' e1 = set_clock t' e1" using 1 assms(7) by (intro advance_none) simp
  have 2: "timers e2 = [(clock e + For step, TUnregister n ?m), (t' + For step', TUnregister n ?m)]"
    using registerConn_one(1) [OF assms(4), of n f' "set_clock t' e1"] 1 assms(5,6) by (simp add: e2_def max_def)
  have f2: "fault_on e2 n ?m = Some f'"
    using registerConn_fault(1) [of "set_clock t' e1" n step' f' ?m] f1(2) assms(5) by (simp add: e2_def)
  have g1: "fault_on (advance sys fmt t e1) n ?m = None"
    using advance_first [OF 1(1) assms(8)] by (simp add: fire_unregister)
  have g2: "fault_on (advance sys fmt t e2) n ?m = None"
    using advance_first [OF 2 assms(8)] assms(9) by (simp add: fire_unregister)
  show ?thesis unfolding Let_def e1_def [symmetric] a e2_def [symmetric] using f1(1) g1 f2 g2 by simp
qed

theorem window_removes_by_name_witness:
  "let e2 = registerConn (ex_fault ''latency'' 1000) [''a''] (LatencyF 2)
              (advance ex_remote (\<lambda>t. []) (500 * Millisecond)
                (registerConn (ex_fault ''latency'' 1000) [''a''] (LatencyF 1) ex_engine))
   in fault_on e2 ''a'' ''latency'' = Some (LatencyF 2)
      \<and> fault_on (advance ex_remote (\<lambda>t. []) (1000 * Millisecond) e2) ''a'' ''latency'' = None"
proof -
  have h: "conns_distinct ex_engine ''a''" "timers ex_engine = []" "clock ex_engine = 0"
    by (simp_all add: ex_engine_def engine_New_def conns_distinct_def proxy_New_def NewRegistry_def clock_def ex_net_def ex_world_def)
  have w: "For (ex_fault ''latency'' 1000) = 1000 * Millisecond" by (simp add: For_def ex_fault_def Millisecond_def wrap64_def)
  show ?thesis
    using window_removes_by_name [OF h(1,2), of "ex_fault ''latency'' 1000" "ex_fault ''latency'' 1000" "LatencyF 2" "LatencyF 1"
        "500 * Millisecond" "1000 * Millisecond" "ex_remote" "\<lambda>t. []"] h(3) w
    by (simp add: Millisecond_def Let_def)
qed

end
