(* ===== verification/Sessions.thy ===== *)
theory Sessions
  imports Proxy
begin

text \<open>
  The life of a proxied connection (\<open>handle\<close>, \<open>Serve\<close>, \<open>Start\<close>, \<open>Close\<close> of
  \<^verbatim>\<open>internal/proxy/proxy.go\<close>): two pumps, one per direction, run as goroutines, so that
  the reads of the two directions come in any order. A read is its direction, its bytes and
  whether it reported an error. When one pump returns, the session's context is cancelled;
  when both have, the deferred calls run.
\<close>

section \<open>The two legs\<close>

record served =
  sv_session :: session
  up_done :: bool
  down_done :: bool

definition leg_done :: "Direction \<Rightarrow> served \<Rightarrow> bool" where
  "leg_done dir v = (case dir of DirectionClientToUpstream \<Rightarrow> up_done v | DirectionUpstreamToClient \<Rightarrow> down_done v)"

definition end_leg :: "Direction \<Rightarrow> served \<Rightarrow> served" where
  "end_leg dir v =
     (case dir of DirectionClientToUpstream \<Rightarrow> v\<lparr>up_done := True\<rparr> | DirectionUpstreamToClient \<Rightarrow> v\<lparr>down_done := True\<rparr>)"

text \<open>
  The context of a session: cancelled now if it has been cancelled, otherwise at the instant
  \<open>ctx\<close>, if any, at which it will be while a fault sleeps.
\<close>

definition session_ctx :: "instant option \<Rightarrow> session \<Rightarrow> net_state \<Rightarrow> instant option" where
  "session_ctx ctx ss s = (if sess_id ss \<in> cancelled s then Some (now (net s)) else ctx)"

definition leg_read ::
  "proxy \<Rightarrow> instant option \<Rightarrow> Direction \<times> chunk \<times> bool \<Rightarrow> served \<times> net_state \<Rightarrow> served \<times> net_state" where
  "leg_read p ctx rd vs =
     (case (rd, vs) of
        ((dir, data, err), (v, s)) \<Rightarrow>
          if leg_done dir v then (v, s)
          else (case (if data = [] then (PumpGoesOn, sv_session v, s)
                      else pump_chunk p dir (session_ctx ctx (sv_session v) s) data (sv_session v) s) of
                  (res, ss', s') \<Rightarrow>
                    if res = PumpReturns \<or> err
                    then (end_leg dir (v\<lparr>sv_session := ss'\<rparr>), cancel (sess_id ss') s')
                    else (v\<lparr>sv_session := ss'\<rparr>, s')))"

definition run_legs ::
  "proxy \<Rightarrow> instant option \<Rightarrow> (Direction \<times> chunk \<times> bool) list \<Rightarrow> served \<times> net_state \<Rightarrow> served \<times> net_state" where
  "run_legs p ctx reads vs = foldl (\<lambda>vs rd. leg_read p ctx rd vs) vs reads"

definition start_legs :: "session \<Rightarrow> served" where
  "start_legs ss = \<lparr>sv_session = ss, up_done = False, down_done = False\<rparr>"

text \<open>
  \<open>handle\<close> on an accepted socket, with the reads its pumps will make while the proxy's flags and
  registry stay as they are: \<open>None\<close> when it still waits for a pump.
\<close>

definition handle ::
  "conn_id \<Rightarrow> nat \<Rightarrow> conn_id option \<Rightarrow> instant option \<Rightarrow> (Direction \<times> chunk \<times> bool) list \<Rightarrow> proxy \<Rightarrow> net_state
     \<Rightarrow> (proxy \<times> net_state) option" where
  "handle client sess dialled ctx reads p s =
     (case handle_open client sess dialled p s of
        (Serving ss, p1, s1) \<Rightarrow>
          (case run_legs p1 ctx reads (start_legs ss, s1) of
             (v, s2) \<Rightarrow> if up_done v \<and> down_done v then Some (handle_close (sv_session v) p1 s2) else None)
      | (_, p1, s1) \<Rightarrow> Some (p1, s1))"

section \<open>The listener\<close>

text \<open>What \<open>Accept\<close> delivers: a socket with the number of its session and the result of the dial, or an error.\<close>

datatype accepted = Accepted conn_id nat "conn_id option" | AcceptError

fun Serve :: "accepted list \<Rightarrow> proxy \<Rightarrow> net_state \<Rightarrow> handle_result list \<times> proxy \<times> net_state" where
  "Serve [] p s = ([], p, s)"
| "Serve (AcceptError # as) p s = ([], p, s)"
| "Serve (Accepted c i d # as) p s =
     (case Serve_accept c i d p s of
        (r, p1, s1) \<Rightarrow> (case Serve as p1 s1 of (rs, p2, s2) \<Rightarrow> (r # rs, p2, s2)))"

definition Start ::
  "(string \<Rightarrow> string option) \<Rightarrow> accepted list \<Rightarrow> proxy \<Rightarrow> net_state \<Rightarrow> bool \<times> handle_result list \<times> proxy \<times> net_state" where
  "Start bind as p s =
     (case Listen bind p of
        (False, p1) \<Rightarrow> (False, [], p1, s)
      | (True, p1) \<Rightarrow> (True, Serve as p1 s))"

text \<open>\<open>Close\<close> closes the listening socket, if there is one: whatever was to come, \<open>Accept\<close> now fails.\<close>

definition Close :: "proxy \<Rightarrow> accepted list \<Rightarrow> accepted list" where
  "Close p pending = (case listener p of Some _ \<Rightarrow> [AcceptError] | None \<Rightarrow> pending)"

lemma closed_serves_nothing: "fst (Listen bind p) \<Longrightarrow> Serve (Close (snd (Listen bind p)) pending) p' s = ([], p', s)"
  by (auto simp: Listen_def Close_def split: option.splits)

text \<open>\<open>SeverConns\<close> is exported for use after a change of the cluster view.\<close>

definition SeverConns :: "proxy \<Rightarrow> net_state \<Rightarrow> net_state" where
  "SeverConns p s = severConns p s"

text \<open>\<open>InjectRSTNow\<close> of \<^verbatim>\<open>internal/faults/network.go\<close>: closing a wrapper closes the raw connection.\<close>

definition InjectRSTNow :: "conn \<Rightarrow> net_state \<Rightarrow> net_state" where
  "InjectRSTNow c s =
     (case c of
        Raw i \<Rightarrow> close_conn i (s\<lparr>net := (net s)\<lparr>linger0 := insert i (linger0 (net s))\<rparr>\<rparr>)
      | _ \<Rightarrow> close_conn (raw_of c) s)"

section \<open>One leg alone is the pump\<close>

lemma leg_done_ignored: "leg_done dir v \<Longrightarrow> leg_read p ctx (dir, data, err) (v, s) = (v, s)"
  by (simp add: leg_read_def)

lemma legs_done_ignored: "leg_done dir v \<Longrightarrow> run_legs p ctx (map (Pair dir) reads) (v, s) = (v, s)"
  by (induction reads) (auto simp: run_legs_def leg_done_ignored)

lemma leg_done_end [simp]: "leg_done dir (end_leg dir v)" "leg_done d (v\<lparr>sv_session := ss\<rparr>) = leg_done d v"
  by (simp_all add: leg_done_def end_leg_def split: Direction.splits)

lemma hook_loop_sockets: "hook_loop as q chunk s = (c, s') \<Longrightarrow> open_conns s' = open_conns s \<and> cancelled s' = cancelled s"
  by (induction "as" q chunk s arbitrary: c s' rule: hook_loop.induct) (auto split: option.splits prod.splits)

lemma pump_write_sockets:
  "pump_write p dir chunk ss s = (r, ss', s') \<Longrightarrow>
    sess_id ss' = sess_id ss \<and> s_client ss' = s_client ss \<and> s_upstream ss' = s_upstream ss
    \<and> open_conns s' = open_conns s \<and> cancelled s' = cancelled s"
  by (auto simp: pump_write_def Let_def split: if_splits prod.splits)

text \<open>A chunk leaves the identity of its session and the sockets alone.\<close>

lemma same_session:
  assumes "pump_chunk p dir ctx data ss s = (r, ss', s')"
  shows "sess_id ss' = sess_id ss \<and> s_client ss' = s_client ss \<and> s_upstream ss' = s_upstream ss
    \<and> open_conns s' = open_conns s \<and> cancelled s' = cancelled s"
proof (cases dir)
  case DirectionClientToUpstream
  with assms show ?thesis
    by (auto simp: pump_chunk_def dest!: pump_write_sockets split: if_splits option.splits prod.splits)
next
  case DirectionUpstreamToClient
  with assms show ?thesis
    by (auto simp: pump_chunk_def dest!: pump_write_sockets hook_loop_sockets split: if_splits option.splits prod.splits)
qed

lemma end_leg_session [simp]: "sv_session (end_leg dir v) = sv_session v"
  by (cases dir) (simp_all add: end_leg_def)

text \<open>The reads of one direction do what \<open>pump\<close> does with them.\<close>

lemma pump_is_leg:
  assumes "\<not> leg_done dir v" "sess_id (sv_session v) \<notin> cancelled s"
  shows "sv_session (fst (run_legs p ctx (map (Pair dir) reads) (v, s))) = fst (pump p dir ctx reads (sv_session v) s)
    \<and> net (snd (run_legs p ctx (map (Pair dir) reads) (v, s))) = net (snd (pump p dir ctx reads (sv_session v) s))"
  using assms
proof (induction reads arbitrary: v s)
  case (Cons rd reads)
  obtain data err where rd: "rd = (data, err)" by (cases rd)
  obtain r ss1 s1 where 1: "(if data = [] then (PumpGoesOn, sv_session v, s) else pump_chunk p dir ctx data (sv_session v) s) = (r, ss1, s1)"
    by (metis prod.exhaust)
  then have k: "sess_id ss1 = sess_id (sv_session v)" "cancelled s1 = cancelled s"
    using same_session [of p dir ctx data "sv_session v" s r ss1 s1] by (auto split: if_splits)
  have step: "leg_read p ctx (dir, data, err) (v, s) =
      (if r = PumpReturns \<or> err then (end_leg dir (v\<lparr>sv_session := ss1\<rparr>), cancel (sess_id ss1) s1) else (v\<lparr>sv_session := ss1\<rparr>, s1))"
    using 1 Cons.prems by (cases "data = []") (auto simp: leg_read_def session_ctx_def)
  show ?case
  proof (cases "r = PumpReturns \<or> err")
    case True
    then have "run_legs p ctx (map (Pair dir) (rd # reads)) (v, s) = (end_leg dir (v\<lparr>sv_session := ss1\<rparr>), cancel (sess_id ss1) s1)"
      using step legs_done_ignored [of dir "end_leg dir (v\<lparr>sv_session := ss1\<rparr>)" p ctx reads "cancel (sess_id ss1) s1"]
      by (simp add: run_legs_def rd)
    with True 1 rd show ?thesis by (cases r) (simp_all add: cancel_def)
  next
    case False
    then have "run_legs p ctx (map (Pair dir) (rd # reads)) (v, s) = run_legs p ctx (map (Pair dir) reads) (v\<lparr>sv_session := ss1\<rparr>, s1)"
      using step by (simp add: run_legs_def rd)
    moreover have "pump p dir ctx (rd # reads) (sv_session v) s = pump p dir ctx reads ss1 s1"
      using False 1 by (cases r) (simp_all add: rd)
    ultimately show ?thesis using Cons.IH [of "v\<lparr>sv_session := ss1\<rparr>" s1] Cons.prems k by simp
  qed
qed (simp add: run_legs_def)

section \<open>A session on a proxy without faults\<close>

text \<open>What one direction delivers: its chunks up to its first error.\<close>

fun leg_data :: "Direction \<Rightarrow> (Direction \<times> chunk \<times> bool) list \<Rightarrow> chunk list" where
  "leg_data dir [] = []"
| "leg_data dir ((d, data, err) # rds) =
     (if d = dir then (if data = [] then [] else [data]) @ (if err then [] else leg_data dir rds)
      else leg_data dir rds)"

definition plain_session :: "proxy \<Rightarrow> session \<Rightarrow> bool" where
  "plain_session p ss \<longleftrightarrow> plain_lc (p_reg p) (toUpstream ss) \<and> plain_lc (p_reg p) (toClient ss)
     \<and> lc_raw (toUpstream ss) \<noteq> lc_raw (toClient ss)"

lemma other_leg_kept:
  assumes "pump_chunk p dir ctx data ss s = (r, ss', s')" "d \<noteq> dir"
  shows "dest_lc d ss' = dest_lc d ss \<and> sess_id ss' = sess_id ss"
  using assms
  by (cases dir; cases d)
    (auto simp: pump_chunk_def pump_write_def dest_lc_def Let_def split: if_splits option.splits prod.splits)

definition same_sockets :: "served \<times> net_state \<Rightarrow> served \<times> net_state \<Rightarrow> bool" where
  "same_sockets vs vs' \<longleftrightarrow> sess_id (sv_session (fst vs')) = sess_id (sv_session (fst vs))
     \<and> s_client (sv_session (fst vs')) = s_client (sv_session (fst vs))
     \<and> s_upstream (sv_session (fst vs')) = s_upstream (sv_session (fst vs))
     \<and> open_conns (snd vs') = open_conns (snd vs)"

lemma leg_read_sockets: "same_sockets vs (leg_read p ctx rd vs)"
proof -
  obtain dir data err v s where e: "rd = (dir, data, err)" "vs = (v, s)" by (cases rd; cases vs)
  obtain r ss1 s1 where 1: "(if data = [] then (PumpGoesOn, sv_session v, s)
      else pump_chunk p dir (session_ctx ctx (sv_session v) s) data (sv_session v) s) = (r, ss1, s1)" by (metis prod.exhaust)
  then have "sess_id ss1 = sess_id (sv_session v) \<and> s_client ss1 = s_client (sv_session v)
      \<and> s_upstream ss1 = s_upstream (sv_session v) \<and> open_conns s1 = open_conns s"
    using same_session [of p dir _ data "sv_session v" s r ss1 s1] by (auto split: if_splits)
  with 1 show ?thesis by (simp add: e same_sockets_def leg_read_def cancel_def)
qed

lemma run_legs_sockets: "same_sockets vs (run_legs p ctx reads vs)"
proof (induction reads arbitrary: vs)
  case (Cons rd reads)
  from Cons [of "leg_read p ctx rd vs"] leg_read_sockets [of vs p ctx rd] show ?case
    by (simp add: run_legs_def same_sockets_def)
qed (simp add: run_legs_def same_sockets_def)

lemma dest_lc_simps [simp]:
  "dest_lc DirectionClientToUpstream ss = toUpstream ss" "dest_lc DirectionUpstreamToClient ss = toClient ss"
  by (simp_all add: dest_lc_def)

lemma plain_session_dest: "plain_session p ss \<Longrightarrow> plain_lc (p_reg p) (dest_lc dir ss)"
  by (cases dir) (simp_all add: plain_session_def)

text \<open>One read of a live leg puts its bytes on the destination's wire and touches no other.\<close>

lemma plain_read:
  assumes "no_faults (p_reg p)" "allowed p" "plain_session p (sv_session v)" "\<forall>k. \<not> fails (net s) k"
    and "\<not> leg_done dir v" "leg_read p ctx (dir, data, err) (v, s) = (v', s')"
  shows "plain_session p (sv_session v') \<and> (\<forall>k. \<not> fails (net s') k)
    \<and> (\<forall>d. lc_raw (dest_lc d (sv_session v')) = lc_raw (dest_lc d (sv_session v)))
    \<and> leg_done dir v' = err \<and> (\<forall>d. d \<noteq> dir \<longrightarrow> leg_done d v' = leg_done d v)
    \<and> wire (net s') = (wire (net s))(lc_raw (dest_lc dir (sv_session v)) :=
         wire (net s) (lc_raw (dest_lc dir (sv_session v))) @ (if data = [] then [] else [data]))"
proof (cases "data = []")
  case True
  with assms show ?thesis
    by (cases dir; cases err) (auto simp: leg_read_def leg_done_def end_leg_def cancel_def split: Direction.splits)
next
  case False
  let ?ctx = "session_ctx ctx (sv_session v) s"
  from plain_pump_chunk [OF assms(1,2) plain_session_dest [OF assms(3)] assms(4) False, of dir ?ctx]
  obtain ss1 s1 where 1: "pump_chunk p dir ?ctx data (sv_session v) s = (PumpGoesOn, ss1, s1)"
    "plain_lc (p_reg p) (dest_lc dir ss1)" "lc_raw (dest_lc dir ss1) = lc_raw (dest_lc dir (sv_session v))" "\<forall>k. \<not> fails (net s1) k"
    "wire (net s1) = (wire (net s))(lc_raw (dest_lc dir (sv_session v)) := wire (net s) (lc_raw (dest_lc dir (sv_session v))) @ [data])"
    by blast
  have o: "\<And>d. d \<noteq> dir \<Longrightarrow> dest_lc d ss1 = dest_lc d (sv_session v)" using other_leg_kept [OF 1(1)] by blast
  have raw: "lc_raw (dest_lc d ss1) = lc_raw (dest_lc d (sv_session v))" for d using 1(3) o by (cases "d = dir") auto
  have pl: "plain_lc (p_reg p) (dest_lc d ss1)" for d
    using 1(2) o plain_session_dest [OF assms(3), of d] by (cases "d = dir") auto
  have "plain_session p ss1"
    using pl [of DirectionClientToUpstream] pl [of DirectionUpstreamToClient] raw [of DirectionClientToUpstream]
      raw [of DirectionUpstreamToClient] assms(3) by (simp add: plain_session_def)
  with 1 raw False assms(5,6) show ?thesis
    by (cases dir; cases err) (auto simp: leg_read_def leg_done_def end_leg_def cancel_def split: Direction.splits)
qed

definition leg_ends :: "Direction \<Rightarrow> (Direction \<times> chunk \<times> bool) list \<Rightarrow> bool" where
  "leg_ends dir reads \<longleftrightarrow> list_ex (\<lambda>(d, data, err). d = dir \<and> err) reads"

text \<open>Any interleaving of the two legs delivers to each side exactly what its leg read.\<close>

lemma plain_legs:
  assumes "no_faults (p_reg p)" "allowed p" "plain_session p (sv_session v)" "\<forall>k. \<not> fails (net s) k"
    and "run_legs p ctx reads (v, s) = (v', s')"
  shows "plain_session p (sv_session v')
    \<and> (\<forall>d. lc_raw (dest_lc d (sv_session v')) = lc_raw (dest_lc d (sv_session v)))
    \<and> (\<forall>d. leg_done d v' = (leg_done d v \<or> leg_ends d reads))
    \<and> (\<forall>d. wire (net s') (lc_raw (dest_lc d (sv_session v))) = wire (net s) (lc_raw (dest_lc d (sv_session v)))
          @ (if leg_done d v then [] else leg_data d reads))
    \<and> (\<forall>j. (\<forall>d. j \<noteq> lc_raw (dest_lc d (sv_session v))) \<longrightarrow> wire (net s') j = wire (net s) j)"
  using assms(3-)
proof (induction reads arbitrary: v s)
  case Nil
  then show ?case by (simp add: run_legs_def leg_ends_def)
next
  case (Cons rd reads)
  obtain dir data err where rd: "rd = (dir, data, err)" by (cases rd)
  obtain v1 s1 where 1: "leg_read p ctx (dir, data, err) (v, s) = (v1, s1)" by fastforce
  have 2: "run_legs p ctx reads (v1, s1) = (v', s')" using Cons.prems(3) 1 rd by (simp add: run_legs_def)
  have two: "d \<noteq> dir \<Longrightarrow> lc_raw (dest_lc d (sv_session v)) \<noteq> lc_raw (dest_lc dir (sv_session v))" for d
    using Cons.prems(1) by (cases d; cases dir) (auto simp: plain_session_def)
  show ?case
  proof (cases "leg_done dir v")
    case True
    then have "v1 = v" "s1 = s" using 1 by (simp_all add: leg_done_ignored)
    with Cons.IH [OF Cons.prems(1,2)] 2 True rd show ?thesis by (auto simp: leg_ends_def)
  next
    case False
    note r = plain_read [OF assms(1,2) Cons.prems(1,2) False 1]
    have d: "leg_done d v1 = (if d = dir then err else leg_done d v)" for d using r by simp
    have w: "wire (net s1) (lc_raw (dest_lc d (sv_session v))) = wire (net s) (lc_raw (dest_lc d (sv_session v)))
        @ (if d = dir \<and> data \<noteq> [] then [data] else [])" for d using r two [of d] by (cases "d = dir") auto
    have j: "(\<forall>d. j \<noteq> lc_raw (dest_lc d (sv_session v))) \<Longrightarrow> wire (net s1) j = wire (net s) j" for j using r by auto
    have ends: "leg_ends d (rd # reads) \<longleftrightarrow> d = dir \<and> err \<or> leg_ends d reads" for d by (auto simp: rd leg_ends_def)
    have raw: "lc_raw (dest_lc d (sv_session v1)) = lc_raw (dest_lc d (sv_session v))" for d using r by simp
    from Cons.IH [OF _ _ 2] r have
      "plain_session p (sv_session v')
       \<and> (\<forall>d. lc_raw (dest_lc d (sv_session v')) = lc_raw (dest_lc d (sv_session v)))
       \<and> (\<forall>d. leg_done d v' = (leg_done d v1 \<or> leg_ends d reads))
       \<and> (\<forall>d. wire (net s') (lc_raw (dest_lc d (sv_session v))) = wire (net s1) (lc_raw (dest_lc d (sv_session v)))
          @ (if leg_done d v1 then [] else leg_data d reads))
       \<and> (\<forall>j. (\<forall>d. j \<noteq> lc_raw (dest_lc d (sv_session v))) \<longrightarrow> wire (net s') j = wire (net s1) j)"
      unfolding raw by blast
    then show ?thesis unfolding ends d using w j False by (auto simp: rd)
  qed
qed

lemma allowed_kept [simp]: "allowed (track c i p) = allowed p" "allowed (p\<lparr>active := n\<rparr>) = allowed p"
  by (simp_all add: allowed_def severed_def track_def cong: option.case_cong)

lemma handle_open_serves:
  assumes "no_faults (p_reg p)" "allowed p"
  shows "handle_open client sess (Some up) p s =
    (Serving \<lparr>sess_id = sess, s_client = client, s_upstream = up, lastQuery = [],
       toUpstream = Wrap up DirectionClientToUpstream, toClient = Wrap client DirectionUpstreamToClient\<rparr>,
     (track up sess (track client sess p))\<lparr>active := active p + 1\<rparr>, s\<lparr>open_conns := insert up (open_conns s)\<rparr>)"
  using assms by (simp add: handle_open_def no_faults_def Let_def) (simp add: track_def)

section \<open>Properties\<close>

text \<open>
  C4: a proxied connection on a proxy without faults. However the reads of the two
  directions interleave, upstream receives exactly the bytes the client sent, the client
  exactly the bytes upstream sent, in order and complete up to the end of each direction, and
  nothing else is written. The connection is given up only when both directions have ended:
  then both sockets are closed and the proxy is as it was before. One direction ending is
  not enough.
\<close>

theorem session_transparent:
  assumes "no_faults (p_reg p)" "allowed p" "client \<noteq> up" "\<forall>k. \<not> fails (net s) k"
    and "client \<notin> fst ` set (conns p)" "up \<notin> fst ` set (conns p)"
  shows "if leg_ends DirectionClientToUpstream reads \<and> leg_ends DirectionUpstreamToClient reads
    then (\<exists>s'. handle client sess (Some up) ctx reads p s = Some (p, s')
       \<and> wire (net s') = (wire (net s))(up := wire (net s) up @ leg_data DirectionClientToUpstream reads,
                                   client := wire (net s) client @ leg_data DirectionUpstreamToClient reads)
       \<and> open_conns s' = open_conns s - {client, up})
    else handle client sess (Some up) ctx reads p s = None"
proof -
  define ss where "ss = \<lparr>sess_id = sess, s_client = client, s_upstream = up, lastQuery = [],
       toUpstream = Wrap up DirectionClientToUpstream, toClient = Wrap client DirectionUpstreamToClient\<rparr>"
  define p1 where "p1 = (track up sess (track client sess p))\<lparr>active := active p + 1\<rparr>"
  define s1 where "s1 = s\<lparr>open_conns := insert up (open_conns s)\<rparr>"
  obtain v s2 where r: "run_legs p1 ctx reads (start_legs ss, s1) = (v, s2)" by fastforce
  have "no_faults (p_reg p1)" "allowed p1" using assms(1,2) by (simp_all add: p1_def) (simp add: track_def)
  moreover have "plain_session p1 (sv_session (start_legs ss))" using assms(3)
    by (simp add: plain_session_def plain_lc_def start_legs_def ss_def Wrap_def)
  ultimately have L: "leg_done d v = leg_ends d reads"
    "wire (net s2) (lc_raw (dest_lc d ss)) = wire (net s) (lc_raw (dest_lc d ss)) @ leg_data d reads"
    "(\<forall>d. j \<noteq> lc_raw (dest_lc d ss)) \<Longrightarrow> wire (net s2) j = wire (net s) j" for d j
    using plain_legs [OF _ _ _ _ r] assms(4) by (simp_all add: start_legs_def leg_done_def s1_def split: Direction.splits)
  have c: "lc_raw (dest_lc d ss) = (case d of DirectionClientToUpstream \<Rightarrow> up | DirectionUpstreamToClient \<Rightarrow> client)" for d
    by (cases d) (simp_all add: ss_def Wrap_def)
  have other: "wire (net s2) j = wire (net s) j" if "j \<noteq> up" "j \<noteq> client" for j
    using L(3) [of j] that by (simp add: c split: Direction.splits)
  have W: "wire (net s2) = (wire (net s))(up := wire (net s) up @ leg_data DirectionClientToUpstream reads,
      client := wire (net s) client @ leg_data DirectionUpstreamToClient reads)"
    using L(2) [of DirectionClientToUpstream] L(2) [of DirectionUpstreamToClient] other assms(3)
    by (simp add: fun_eq_iff ss_def Wrap_def)
  have S: "sess_id (sv_session v) = sess \<and> s_client (sv_session v) = client \<and> s_upstream (sv_session v) = up
      \<and> open_conns s2 = insert up (open_conns s)"
    using run_legs_sockets [of "(start_legs ss, s1)" p1 ctx reads] r by (simp add: same_sockets_def start_legs_def ss_def s1_def)
  have D: "up_done v \<and> down_done v \<longleftrightarrow> leg_ends DirectionClientToUpstream reads \<and> leg_ends DirectionUpstreamToClient reads"
    using L(1) [of DirectionClientToUpstream] L(1) [of DirectionUpstreamToClient] by (simp add: leg_done_def)
  have H: "handle client sess (Some up) ctx reads p s =
      (if up_done v \<and> down_done v then Some (handle_close (sv_session v) p1 s2) else None)"
    using handle_open_serves [OF assms(1,2), of client sess up s] r by (simp add: handle_def ss_def p1_def s1_def)
  have "fst (handle_close (sv_session v) p1 s2) = p"
    using S assms(5,6) by (simp add: handle_close_def p1_def track_def untrack_def untracked_filter)
  moreover have "wire (net (snd (handle_close (sv_session v) p1 s2))) = wire (net s2)"
    "open_conns (snd (handle_close (sv_session v) p1 s2)) = open_conns s - {client, up}"
    using S by (auto simp: handle_close_def close_conn_def cancel_def)
  ultimately show ?thesis unfolding H D using W by (auto simp: prod_eq_iff)
qed

theorem session_transparent_witness:
  "\<exists>s'. handle 1 0 (Some 2) None
      [(DirectionClientToUpstream, [7], False), (DirectionUpstreamToClient, [8, 9], True), (DirectionClientToUpstream, [6], True)]
      (proxy_New ''a'' [] ''db:5432'') ex_net = Some (proxy_New ''a'' [] ''db:5432'', s')
    \<and> wire (net s') 2 = [[7], [6]] \<and> wire (net s') 1 = [[8, 9]] \<and> open_conns s' = {3}"
proof -
  let ?r = "[(DirectionClientToUpstream, [7], False), (DirectionUpstreamToClient, [8, 9], True), (DirectionClientToUpstream, [6], True)]
    :: (Direction \<times> chunk \<times> bool) list"
  have "no_faults (p_reg (proxy_New ''a'' [] ''db:5432''))" "allowed (proxy_New ''a'' [] ''db:5432'')"
    by (simp_all add: proxy_New_def no_faults_def NewRegistry_def allowed_def severed_def)
  from session_transparent [OF this, of 1 2 ex_net ?r 0 None] show ?thesis
    by (auto simp: leg_ends_def proxy_New_def ex_net_def ex_world_def)
qed

end
