(* ===== verification/Engine_Moves.thy ===== *)
theory Engine_Moves
  imports Engine Sessions
begin

text \<open>
  The elementary changes that the scenario engine makes to the state of a running server, and
  the proof that each of its operations (\<^verbatim>\<open>internal/scenario/scenario.go\<close>) is a
  sequence of them. An invariant of the server has then to be checked on the elementary
  changes only. The first parameter of a change says whether faults may be added.
\<close>

section \<open>Types of fault objects\<close>

datatype kind = KLatency | KThrottle | KBursty

primrec obj_kind :: "conn_obj \<Rightarrow> kind" where
  "obj_kind (OLatency f) = KLatency"
| "obj_kind (OThrottle f) = KThrottle"
| "obj_kind (OBursty f) = KBursty"

type_synonym typing = "ptr \<Rightarrow> kind option"

definition kinds :: "world \<Rightarrow> typing" where
  "kinds w = (\<lambda>a. map_option obj_kind (heap w a))"

text \<open>A fault, and a wrapper around a connection, holds a pointer to an object of its own type.\<close>

primrec fault_typed :: "typing \<Rightarrow> Fault \<Rightarrow> bool" where
  "fault_typed K (LatencyF a) \<longleftrightarrow> K a = Some KLatency"
| "fault_typed K (ThrottleF a) \<longleftrightarrow> K a = Some KThrottle"
| "fault_typed K (ReorderF f) \<longleftrightarrow> True"
| "fault_typed K (DuplicationF f) \<longleftrightarrow> True"
| "fault_typed K (AsymmetricF f) \<longleftrightarrow> True"
| "fault_typed K RSTF \<longleftrightarrow> True"
| "fault_typed K (DNSF f) \<longleftrightarrow> True"
| "fault_typed K (BurstyF a) \<longleftrightarrow> K a = Some KBursty"

primrec conn_typed :: "typing \<Rightarrow> conn \<Rightarrow> bool" where
  "conn_typed K (Raw i) \<longleftrightarrow> True"
| "conn_typed K (LatencyConn c a) \<longleftrightarrow> K a = Some KLatency \<and> conn_typed K c"
| "conn_typed K (ThrottleConn c a) \<longleftrightarrow> K a = Some KThrottle \<and> conn_typed K c"
| "conn_typed K (ReorderConn c b s q) \<longleftrightarrow> conn_typed K c"
| "conn_typed K (DupConn c q m) \<longleftrightarrow> conn_typed K c"
| "conn_typed K (BlackholeConn c) \<longleftrightarrow> conn_typed K c"
| "conn_typed K (BurstyLossConn c a) \<longleftrightarrow> K a = Some KBursty \<and> conn_typed K c"

definition same_objs :: "world \<Rightarrow> world \<Rightarrow> bool" where
  "same_objs w w' \<longleftrightarrow> kinds w' = kinds w \<and> next_ptr w' = next_ptr w"

lemma same_objs_refl [simp]: "same_objs w w"
  by (simp add: same_objs_def)

lemma same_objs_trans: "same_objs w w1 \<Longrightarrow> same_objs w1 w2 \<Longrightarrow> same_objs w w2"
  by (simp add: same_objs_def)

lemma same_objs_fields:
  "heap w' = heap w \<Longrightarrow> next_ptr w' = next_ptr w \<Longrightarrow> same_objs w w'"
  by (simp add: same_objs_def kinds_def)

lemma same_objs_update:
  "heap w a = Some ob \<Longrightarrow> obj_kind ob' = obj_kind ob \<Longrightarrow> same_objs w (w\<lparr>heap := (heap w)(a \<mapsto> ob')\<rparr>)"
  by (auto simp: same_objs_def kinds_def fun_eq_iff)

lemma kinds_alloc: "kinds (snd (alloc ob w)) = (kinds w)(next_ptr w \<mapsto> obj_kind ob)"
  by (auto simp: kinds_def alloc_def fun_eq_iff)

section \<open>Traffic keeps the types of objects\<close>

lemma draws_heap [simp]:
  "heap (snd (Float64 w)) = heap w" "next_ptr (snd (Float64 w)) = next_ptr w"
  "heap (snd (draw_int n w)) = heap w" "next_ptr (snd (draw_int n w)) = next_ptr w"
  "heap (Sleep d w) = heap w" "next_ptr (Sleep d w) = next_ptr w"
  by (simp_all add: Float64_def draw_int_def Sleep_def split: prod.splits)

lemma CurrentDelay_heap [simp]:
  "heap (snd (CurrentDelay f w)) = heap w" "next_ptr (snd (CurrentDelay f w)) = next_ptr w"
  by (simp_all add: CurrentDelay_def draw_int_def split: prod.splits)

lemma latency_pre_objs: "same_objs w (latency_pre a w)"
  by (intro same_objs_fields) (simp_all add: latency_pre_def case_prod_unfold Let_def split: option.splits conn_obj.splits)

lemma throttle_pre_objs: "same_objs w (throttle_pre a n w)"
proof (cases "heap w a")
  case (Some ob)
  show ?thesis
  proof (cases ob)
    case (OThrottle f)
    obtain wait f' where t: "take_tokens f n (now w) = (wait, f')" by force
    have u: "same_objs w (w\<lparr>heap := (heap w)(a \<mapsto> OThrottle f')\<rparr>)" using Some OThrottle by (intro same_objs_update) auto
    have "same_objs (w\<lparr>heap := (heap w)(a \<mapsto> OThrottle f')\<rparr>) (throttle_pre a n w)"
      using Some OThrottle t by (intro same_objs_fields) (simp_all add: throttle_pre_def Let_def)
    with u show ?thesis by (rule same_objs_trans)
  qed (use Some in \<open>simp_all add: throttle_pre_def\<close>)
qed (simp add: throttle_pre_def)

lemma bursty_drop_objs: "same_objs w (snd (bursty_drop a w))"
proof -
  obtain x w1 where f: "Float64 w = (x, w1)" by force
  have 1: "same_objs w w1" using f draws_heap(1,2) [of w] by (intro same_objs_fields) simp_all
  have 2: "same_objs w1 (snd (bursty_drop a w))"
    by (auto simp: bursty_drop_def f case_prod_unfold Let_def intro!: same_objs_update split: option.splits conn_obj.splits)
  from 1 2 show ?thesis by (rule same_objs_trans)
qed

definition keeps_objs :: "writer \<Rightarrow> bool" where
  "keeps_objs wr \<longleftrightarrow> (\<forall>p w. same_objs w (snd (wr p w)))"

lemma write_seq_objs: "keeps_objs wr \<Longrightarrow> same_objs w (snd (write_seq wr ps w))"
proof (induction wr ps w rule: write_seq.induct)
  case (2 wr p ps w)
  obtain r w1 where 1: "wr p w = (r, w1)" by force
  have "same_objs w w1" using 2(2) 1 by (metis keeps_objs_def snd_conv)
  with 2 1 show ?case by (cases r) (auto intro: same_objs_trans)
qed simp

lemma write_copies_objs: "(\<And>w. same_objs w (snd (wr w))) \<Longrightarrow> same_objs w (snd (write_copies k wr res w))"
proof (induction k wr res w rule: write_copies.induct)
  case (2 k wr res w)
  obtain r w1 where 1: "wr w = (r, w1)" by force
  have "same_objs w w1" using 2(3) [of w] 1 by simp
  with 2 1 show ?case by (cases r) (auto intro: same_objs_trans)
qed simp

lemma reorder_hold_objs: "same_objs w (snd (reorder_hold b s q p w))"
  by (intro same_objs_fields) (simp_all add: reorder_hold_def case_prod_unfold Let_def)

lemma reorder_write_objs:
  assumes "keeps_objs wr"
  shows "same_objs w (snd (reorderConn_Write wr b s q p w))"
proof -
  obtain h w1 where h: "reorder_hold b s q p w = (h, w1)" by force
  have 1: "same_objs w w1" using reorder_hold_objs [of w b s q p] h by simp
  show ?thesis
  proof (cases h)
    case None
    then show ?thesis using 1 h assms by (auto simp: keeps_objs_def intro: same_objs_trans)
  next
    case (Some fl)
    obtain r w2 where 2: "write_seq wr fl w1 = (r, w2)" by force
    have "same_objs w w2" using 1 write_seq_objs [OF assms, of w1 fl] 2 by (auto intro: same_objs_trans)
    moreover have "same_objs w2 (w2\<lparr>bufs := B\<rparr>)" for B by (intro same_objs_fields) simp_all
    ultimately show ?thesis using 1 h Some 2 by (cases fl; cases r) (auto intro: same_objs_trans)
  qed
qed

lemma dup_write_objs:
  assumes "keeps_objs wr"
  shows "same_objs w (snd (dupConn_Write wr q m p w))"
proof -
  obtain r w1 where r: "wr p w = (r, w1)" by force
  have 1: "same_objs w w1" using assms r by (metis keeps_objs_def snd_conv)
  have 2: "same_objs w (snd (Float64 w1))" "same_objs w (snd (draw_int m (snd (Float64 w1))))"
    using 1 by (auto intro!: same_objs_fields elim!: same_objs_trans)
  have 3: "same_objs w' (snd (write_copies k (wr p) res w'))" for k res w'
    using assms by (intro write_copies_objs) (simp add: keeps_objs_def)
  from r 1 2 3 same_objs_trans [OF 2(2) 3] show ?thesis
    by (cases r) (simp_all add: case_prod_unfold Let_def)
qed

lemma Write_objs: "keeps_objs (Write c)"
proof (induction c)
  case (Raw i)
  show ?case unfolding keeps_objs_def
    by (intro allI same_objs_fields) (simp_all add: raw_write_def Let_def)
next
  case (LatencyConn c a)
  then show ?case by (auto simp: keeps_objs_def intro: same_objs_trans [OF latency_pre_objs])
next
  case (ThrottleConn c a)
  then show ?case by (auto simp: keeps_objs_def intro: same_objs_trans [OF throttle_pre_objs])
next
  case (ReorderConn c b s q)
  then show ?case using reorder_write_objs by (simp add: keeps_objs_def del: reorderConn_Write_def)
next
  case (DupConn c q m)
  then show ?case using dup_write_objs by (simp add: keeps_objs_def del: dupConn_Write_def)
next
  case (BurstyLossConn c a)
  then show ?case by (auto simp: keeps_objs_def case_prod_unfold Let_def intro: bursty_drop_objs same_objs_trans [OF bursty_drop_objs])
qed (simp add: keeps_objs_def)

section \<open>A chunk on a live connection\<close>

lemma flip_loop_heap: "flip_loop k pkt w = Some (q, w') \<Longrightarrow> heap w' = heap w \<and> next_ptr w' = next_ptr w"
proof (induction k arbitrary: pkt w)
  case (Suc k)
  then obtain pkt1 where "flip_loop k pkt1 (snd (draw_int (int (length pkt)) w)) = Some (q, w')"
    by (auto simp: case_prod_unfold Let_def split: if_splits)
  from Suc.IH [OF this] show ?case by simp
qed simp

lemma packet_apply_objs: "Packet_Apply f ctx pkt stream w = Some (q, w') \<Longrightarrow> same_objs w w'"
  by (cases f; intro same_objs_fields)
    (auto simp: packet_defs corrupt_some_def flipBytes_def sleep_ctx_def case_prod_unfold Let_def
      dest: flip_loop_heap split: if_splits option.splits)

lemma packet_loop_objs: "packet_loop fs ctx stream chunk w = (q, w') \<Longrightarrow> same_objs w w'"
proof (induction fs ctx stream chunk w rule: packet_loop.induct)
  case (2 pf pfs ctx stream chunk w)
  then show ?case
    by (auto split: option.splits if_splits prod.splits dest: packet_apply_objs intro: same_objs_trans [OF packet_apply_objs])
qed simp

lemma stale_objs: "MaybeServeStale f q c w = (c', f', w') \<Longrightarrow> same_objs w w'"
  by (intro same_objs_fields) (auto simp: MaybeServeStale_def case_prod_unfold Let_def split: option.splits if_splits)

lemma hook_loop_objs:
  "hook_loop as q c s = (c', s') \<Longrightarrow> same_objs (net s) (net s') \<and> dom (hooks s') = dom (hooks s)"
proof (induction "as" q c s rule: hook_loop.induct)
  case (2 a "as" q c s)
  show ?case
  proof (cases "hooks s a")
    case (Some f)
    obtain c1 f1 w1 where m: "MaybeServeStale f q c (net s) = (c1, f1, w1)" by (metis prod.exhaust)
    let ?s = "s\<lparr>hooks := (hooks s)(a \<mapsto> f1), net := w1\<rparr>"
    have "same_objs (net ?s) (net s') \<and> dom (hooks s') = dom (hooks ?s)"
      using 2(2) [OF Some m [symmetric] refl refl] 2(3) Some m by (simp del: fun_upd_apply)
    moreover have "dom (hooks ?s) = dom (hooks s)" using Some by auto
    ultimately show ?thesis using stale_objs [OF m] by (auto intro: same_objs_trans)
  qed (use 2 in simp)
qed simp

definition lc_typed :: "typing \<Rightarrow> liveConn \<Rightarrow> bool" where
  "lc_typed K c \<longleftrightarrow> (case wrapped c of None \<Rightarrow> True | Some ch \<Rightarrow> conn_typed K ch)"

definition reg_typed :: "net_state \<Rightarrow> registry \<Rightarrow> bool" where
  "reg_typed ns r \<longleftrightarrow> (\<forall>f \<in> set (connFaults r). fault_typed (kinds (net ns)) f) \<and> set (readHooks r) \<subseteq> dom (hooks ns)"

definition session_typed :: "net_state \<Rightarrow> session \<Rightarrow> bool" where
  "session_typed ns ss \<longleftrightarrow> lc_typed (kinds (net ns)) (toUpstream ss) \<and> lc_typed (kinds (net ns)) (toClient ss)"

lemma Apply_typed:
  assumes "Apply f dir c w = Some (c', w')" "fault_typed K f" "conn_typed K c"
  shows "conn_typed K c' \<and> same_objs w w'"
  using assms
  by (cases f) (auto simp: Apply_def intro!: same_objs_fields split: if_splits conn.splits)

lemma apply_all_typed:
  "apply_all fs dir (c, w) = Some (c', w') \<Longrightarrow> \<forall>f \<in> set fs. fault_typed K f \<Longrightarrow> conn_typed K c \<Longrightarrow>
    conn_typed K c' \<and> same_objs w w'"
proof (induction fs arbitrary: c w)
  case (Cons f fs)
  from Cons.prems(1) obtain c1 w1 where 1: "Apply f dir c w = Some (c1, w1)" "apply_all fs dir (c1, w1) = Some (c', w')"
    by (auto split: option.splits)
  from Apply_typed [OF 1(1)] Cons.IH [OF 1(2)] Cons.prems(2,3) show ?case by (auto intro: same_objs_trans)
qed simp

lemma rewrap_typed:
  assumes "rewrap r c w = Some (c', w')" "\<forall>f \<in> set (connFaults r). fault_typed K f" "lc_typed K c"
  shows "lc_typed K c' \<and> same_objs w w'"
proof (cases "wrapped c = None \<or> lc_gen c \<noteq> gen r")
  case True
  with assms(1) obtain c1 w1 c2 w2 where 1:
    "apply_all (filter is_RST (connFaults r)) (lc_dir c) (Raw (lc_raw c), w) = Some (c1, w1)"
    "apply_all (filter (\<lambda>f. \<not> is_RST f) (connFaults r)) (lc_dir c) (c1, w1) = Some (c2, w2)"
    "c' = c\<lparr>wrapped := Some c2, lc_gen := gen r\<rparr>" "w' = w2"
    by (auto simp: rewrap_def reg_wrap_def split: option.splits)
  have t: "conn_typed K c1 \<and> same_objs w w1" using apply_all_typed [OF 1(1), of K] assms(2) by simp
  with apply_all_typed [OF 1(2), of K] assms(2) have "conn_typed K c2 \<and> same_objs w1 w2" by simp
  with t 1(3,4) show ?thesis by (auto simp: lc_typed_def intro: same_objs_trans)
qed (use assms in \<open>auto simp: rewrap_def\<close>)

lemma liveConn_Write_typed:
  assumes "liveConn_Write r c p w = (res, c', w')" "\<forall>f \<in> set (connFaults r). fault_typed K f" "lc_typed K c"
  shows "lc_typed K c' \<and> same_objs w w'"
proof (cases "rewrap r c w")
  case (Some x)
  then obtain c1 w1 where 1: "rewrap r c w = Some (c1, w1)" by (cases x) auto
  from rewrap_typed [OF 1 assms(2,3)] 1 assms(1) Write_objs show ?thesis
    by (auto simp: liveConn_Write_def keeps_objs_def case_prod_unfold Let_def intro: same_objs_trans split: option.splits)
qed (use assms in \<open>simp add: liveConn_Write_def\<close>)

lemma pump_write_typed:
  assumes "pump_write p dir chunk ss s = (r, ss', s')" "reg_typed s (p_reg p)" "session_typed s ss"
  shows "same_objs (net s) (net s') \<and> hooks s' = hooks s \<and> session_typed s' ss'"
proof (cases "chunk = []")
  case False
  obtain res lc' w' where w: "liveConn_Write (p_reg p) (dest_lc dir ss) chunk (net s) = (res, lc', w')" by (metis prod.exhaust)
  have "lc_typed (kinds (net s)) (dest_lc dir ss)" using assms(3) by (cases dir) (simp_all add: session_typed_def)
  with liveConn_Write_typed [OF w, of "kinds (net s)"] assms(2) have "lc_typed (kinds (net s)) lc' \<and> same_objs (net s) w'" by (simp add: reg_typed_def)
  moreover have "s' = s\<lparr>net := w'\<rparr>" "ss' = (if dir = DirectionClientToUpstream then ss\<lparr>toUpstream := lc'\<rparr> else ss\<lparr>toClient := lc'\<rparr>)"
    using assms(1) False w by (auto simp: pump_write_def dest_lc_def split: if_splits)
  ultimately show ?thesis using assms(3) by (auto simp: session_typed_def same_objs_def)
qed (use assms in \<open>simp add: pump_write_def\<close>)

lemma pump_chunk_typed:
  assumes "pump_chunk p dir ctx data ss s = (r, ss', s')" "reg_typed s (p_reg p)" "session_typed s ss"
  shows "same_objs (net s) (net s') \<and> dom (hooks s') = dom (hooks s) \<and> session_typed s' ss'"
proof (cases "allowed p")
  case True
  obtain q w where q: "packet_loop (packetFaults (p_reg p)) ctx (p_Stream p) data (net s) = (q, w)" by force
  note o = packet_loop_objs [OF q]
  have t: "reg_typed s1 (p_reg p)" "session_typed s1 (ss\<lparr>lastQuery := c\<rparr>)" "session_typed s1 ss"
    if "same_objs (net s) (net s1)" "dom (hooks s1) = dom (hooks s)" for s1 c
    using assms(2,3) that by (simp_all add: reg_typed_def session_typed_def same_objs_def)
  show ?thesis
  proof (cases q)
    case None
    with True q assms(1) o t [of "s\<lparr>net := w\<rparr>"] show ?thesis by (auto simp: pump_chunk_def)
  next
    case (Some c)
    obtain c1 s1 where h: "(if dir = DirectionUpstreamToClient then hook_loop (readHooks (p_reg p)) (lastQuery ss) c (s\<lparr>net := w\<rparr>)
        else (c, s\<lparr>net := w\<rparr>)) = (c1, s1)" by force
    have s1: "same_objs (net s) (net s1)" "dom (hooks s1) = dom (hooks s)"
      using h o hook_loop_objs [of "readHooks (p_reg p)" "lastQuery ss" c "s\<lparr>net := w\<rparr>" c1 s1]
      by (auto intro: same_objs_trans split: if_splits)
    have "\<exists>ss1. pump_write p dir c1 ss1 s1 = (r, ss', s') \<and> session_typed s1 ss1"
      using True q Some assms(1) h t [OF s1] by (cases dir) (auto simp: pump_chunk_def)
    then obtain ss1 where "pump_write p dir c1 ss1 s1 = (r, ss', s')" "session_typed s1 ss1" by blast
    from pump_write_typed [OF this(1) t(1) [OF s1] this(2)] s1 show ?thesis by (auto intro: same_objs_trans)
  qed
qed (use assms in \<open>simp add: pump_chunk_def\<close>)

section \<open>Elementary changes\<close>

definition op_typed :: "net_state \<Rightarrow> reg_op \<Rightarrow> bool" where
  "op_typed ns op =
     (case op of RegConn f \<Rightarrow> fault_typed (kinds (net ns)) f | RegHook a \<Rightarrow> a \<in> dom (hooks ns) | _ \<Rightarrow> True)"

definition op_removes :: "reg_op \<Rightarrow> bool" where
  "op_removes op = (case op of Unreg n \<Rightarrow> True | ClearAll \<Rightarrow> True | _ \<Rightarrow> False)"

definition new_hook :: "StaleReadFault \<Rightarrow> net_state \<Rightarrow> net_state" where
  "new_hook f ns = ns\<lparr>hooks := (hooks ns)(next_ptr (net ns) \<mapsto> f), net := (net ns)\<lparr>next_ptr := Suc (next_ptr (net ns))\<rparr>\<rparr>"

inductive move :: "bool \<Rightarrow> 's engine \<Rightarrow> 's engine \<Rightarrow> bool" for may where
  registry: "(\<And>p. op_typed (e_net e) (op p)) \<Longrightarrow> (\<And>p. may \<or> op_removes (op p)) \<Longrightarrow>
     move may e (on_proxy (\<lambda>p. p\<lparr>p_reg := reg_apply (op p) t (p_reg p)\<rparr>) n e)"
| partition: "may \<or> \<not> v \<Longrightarrow> move may e (on_proxy_net (SetPartitioned v) n e)"
| crash: "may \<or> \<not> v \<Longrightarrow> move may e (on_proxy_net (SetCrashed v) n e)"
| heal: "move may e (on_proxy proxy_Heal n e)"
| object: "move may e (e\<lparr>e_net := (e_net e)\<lparr>net := snd (alloc ob (net (e_net e)))\<rparr>\<rparr>)"
| hook: "move may e (e\<lparr>e_net := new_hook f (e_net e)\<rparr>)"
| world: "same_objs (net (e_net e)) w \<Longrightarrow> now (net (e_net e)) \<le> now w \<Longrightarrow> wire w = wire (net (e_net e)) \<Longrightarrow>
     move may e (e\<lparr>e_net := (e_net e)\<lparr>net := w\<rparr>\<rparr>)"
| nodes: "may \<or> set fs \<subseteq> set (injected e) \<Longrightarrow> move may e (e\<lparr>injected := fs, machine := m, timers := ts, e_drivers := dv\<rparr>)"

abbreviation moves :: "bool \<Rightarrow> 's engine \<Rightarrow> 's engine \<Rightarrow> bool" where
  "moves may \<equiv> rtranclp (move may)"

lemma moves_step: "move may e e1 \<Longrightarrow> moves may e1 e' \<Longrightarrow> moves may e e'"
  by (rule converse_rtranclp_into_rtranclp)

lemma moves_fold: "(\<And>e x. moves may e (g e x)) \<Longrightarrow> moves may e (foldl g e xs)"
  by (induction xs arbitrary: e) (auto intro: rtranclp_trans)

text \<open>A fold over targets that leaves the network alone, with a condition on the network only.\<close>

lemma moves_fold_net:
  assumes "\<And>e x. P (e_net e) \<Longrightarrow> moves may e (g e x) \<and> e_net (g e x) = e_net e" "P (e_net e)"
  shows "moves may e (foldl g e xs)"
  using assms(2)
proof (induction xs arbitrary: e)
  case (Cons x xs)
  from assms(1) [OF Cons.prems, of x] Cons.IH [of "g e x"] Cons.prems show ?case by (auto intro: rtranclp_trans)
qed simp

lemma move_nodes_only: "set fs \<subseteq> set (injected e) \<Longrightarrow> move may e (e\<lparr>injected := fs, machine := m\<rparr>)"
proof -
  assume "set fs \<subseteq> set (injected e)"
  then have "move may e (e\<lparr>injected := fs, machine := m, timers := timers e, e_drivers := e_drivers e\<rparr>)"
    by (intro nodes) simp
  then show ?thesis by simp
qed

lemma move_timers: "move may e (e\<lparr>timers := ts\<rparr>)"
  using nodes [where may = may and fs = "injected e" and e = e and m = "machine e" and ts = ts and dv = "e_drivers e"] by simp

lemma expire_moves: "moves may e (expire step act e)"
  by (auto simp: expire_def intro: move_timers)

lemma unregister_move: "move may e (on_registry (\<lambda>r. snd (Unregister name r)) n e)"
  using registry [of e "\<lambda>p. Unreg name" may undefined n] by (simp add: on_registry_def op_typed_def op_removes_def)

lemma revert_moves: "move may e (revertNodeFaults sys fmt m e)"
  using move_nodes_only [of "filter (\<lambda>i. \<not> m (inj_node i)) (injected e)" e may] by (simp add: revertNodeFaults_def)

lemma status_objs: "same_objs w (snd (proxy_status p w))"
proof -
  have "same_objs w (snd (reported_latency r w))" for r w
    by (intro same_objs_fields) (simp_all add: reported_latency_def case_prod_unfold Let_def split: option.splits Fault.splits conn_obj.splits)
  moreover have "same_objs w (snd (reported_drop r w))" for r w
    by (auto simp: reported_drop_def case_prod_unfold Let_def intro!: same_objs_update split: option.splits Fault.splits conn_obj.splits)
  ultimately have "same_objs w (snd (reported_drop r (snd (reported_latency r w))))" for r w by (rule same_objs_trans)
  then show ?thesis by (simp add: proxy_status_def case_prod_unfold Let_def)
qed

lemma status_now: "now (snd (proxy_status p w)) = now w" "wire (snd (proxy_status p w)) = wire w"
  by (simp_all add: proxy_status_def reported_drop_def reported_latency_def CurrentDelay_def draw_int_def case_prod_unfold Let_def
      split: option.splits Fault.splits conn_obj.splits)

lemma after_status_move: "move may e (after_status p e)"
  unfolding after_status_def by (intro world status_objs) (simp_all add: status_now)

section \<open>The operations of the engine\<close>

lemma flag_off_moves:
  "moves may e (on_proxy_net (SetPartitioned False) n (after_status p e))"
  "moves may e (on_proxy_net (SetCrashed False) n (after_status p e))"
  "moves may e (after_status p e)" "moves may e (on_registry (\<lambda>r. snd (Unregister name r)) n e)"
  using after_status_move [of may e p] partition [of may False "after_status p e" n] crash [of may False "after_status p e" n]
    unregister_move [of may e name n]
  by (simp_all add: moves_step r_into_rtranclp)

lemma remove_on_moves: "moves may (snd re) (snd (remove_on name re n))"
  by (simp add: remove_on_def Let_def flag_off_moves split: option.splits)

lemma remove_fold_moves: "moves may (snd re) (snd (foldl (remove_on name) re ns))"
proof (induction ns arbitrary: re)
  case (Cons n ns)
  from rtranclp_trans [OF remove_on_moves [of may re name n] Cons.IH] show ?case by simp
qed simp

lemma RemoveFault_moves: "moves may e (snd (RemoveFault sys fmt node name e))"
proof (cases "targets e node")
  case (Inr ns)
  obtain removed e1 where f: "foldl (remove_on name) (False, e) ns = (removed, e1)" by force
  have "moves may e e1" using remove_fold_moves [of may "(False, e)" name ns] f by simp
  with Inr f show ?thesis by (auto simp: RemoveFault_def intro: rtranclp.rtrancl_into_rtrancl revert_moves)
qed (simp add: RemoveFault_def)

lemma heal_fold_moves: "moves may e (foldl (\<lambda>e n. on_proxy proxy_Heal n e) e ns)"
  by (intro moves_fold r_into_rtranclp heal)

lemma HealAll_moves: "moves may e (HealAll sys fmt e)"
  unfolding HealAll_def by (rule rtranclp.rtrancl_into_rtrancl [OF heal_fold_moves revert_moves])

lemma fire_moves: "moves may e (fire sys fmt act e)"
  by (cases act) (auto simp: fire_def intro: unregister_move revert_moves partition crash)

lemma set_clock_moves: "move may e (set_clock t e)"
  unfolding set_clock_def by (intro world same_objs_fields) simp_all

lemma on_registry_typed:
  "op_typed (e_net e) op \<Longrightarrow> moves True e (on_registry (reg_apply op t) n e)"
  using registry [of e "\<lambda>p. op" True t n] by (auto simp: on_registry_def)

lemma registerConn_moves:
  assumes "fault_typed (kinds (net (e_net e))) f"
  shows "moves True e (registerConn step ns f e)"
  unfolding registerConn_def
proof (rule moves_fold_net [where P = "\<lambda>ns. fault_typed (kinds (net ns)) f"])
  fix e :: "'a engine" and n
  assume "fault_typed (kinds (net (e_net e))) f"
  then show "moves True e (expire step (TUnregister n (Fault_Name f)) (on_registry (RegisterConnFault f (clock e)) n e))
      \<and> e_net (expire step (TUnregister n (Fault_Name f)) (on_registry (RegisterConnFault f (clock e)) n e)) = e_net e"
    using on_registry_typed [of e "RegConn f" "clock e" n]
    by (auto simp: op_typed_def on_registry_def intro: rtranclp_trans [OF _ expire_moves])
qed (rule assms)

lemma registerPacket_moves: "moves True e (registerPacket step ns f e)"
  unfolding registerPacket_def
proof (rule moves_fold)
  fix e :: "'a engine" and n
  show "moves True e (expire step (TUnregister n (Packet_Name f)) (on_registry (RegisterPacketFault f) n e))"
    using on_registry_typed [of e "RegPacket f" undefined n]
    by (auto simp: op_typed_def on_registry_def intro: rtranclp_trans [OF _ expire_moves])
qed

lemma registerObj_moves:
  assumes "fault_typed [next_ptr (net (e_net e)) \<mapsto> obj_kind ob] (mk (next_ptr (net (e_net e))))"
  shows "moves True e (registerObj step ns mk ob e)"
proof -
  let ?e = "e\<lparr>e_net := (e_net e)\<lparr>net := snd (alloc ob (net (e_net e)))\<rparr>\<rparr>"
  have "fault_typed (kinds (net (e_net ?e))) (mk (next_ptr (net (e_net e))))"
    using assms by (cases "mk (next_ptr (net (e_net e)))") (auto simp: kinds_alloc split: if_splits)
  from moves_step [OF object registerConn_moves [OF this]] show ?thesis
    by (simp add: registerObj_def alloc_def)
qed

lemma registerHook_moves: "moves True e (registerHook step ns f e)"
proof -
  let ?a = "next_ptr (net (e_net e))"
  let ?e = "e\<lparr>e_net := new_hook f (e_net e)\<rparr>"
  have "moves True ?e (foldl (\<lambda>e n. expire step (TUnregister n (StaleRead_Name ?a)) (on_registry (RegisterReadHook ?a) n e)) ?e ns)"
  proof (rule moves_fold_net [where P = "\<lambda>ns. ?a \<in> dom (hooks ns)"])
    fix e :: "'a engine" and n a
    assume "a \<in> dom (hooks (e_net e))"
    then show "moves True e (expire step (TUnregister n (StaleRead_Name a)) (on_registry (RegisterReadHook a) n e))
        \<and> e_net (expire step (TUnregister n (StaleRead_Name a)) (on_registry (RegisterReadHook a) n e)) = e_net e"
      using on_registry_typed [of e "RegHook a" undefined n]
      by (auto simp: op_typed_def on_registry_def intro: rtranclp_trans [OF _ expire_moves])
  qed (simp add: new_hook_def)
  from moves_step [OF hook this] show ?thesis by (simp add: registerHook_def new_hook_def Let_def)
qed

lemma registerDNS_moves: "moves True e (registerDNS step ns e)"
  unfolding registerDNS_def
proof (rule moves_fold)
  fix e :: "'a engine" and n
  let ?f = "\<lambda>p. Trigger \<lparr>ServiceName = StringParam step ''service'' (upstream_host p), dns_active = False, dns_until = 0\<rparr>
      (if For step \<le> 0 then 24 * 3600 * Second else For step) (clock e)"
  show "moves True e (expire step (TUnregister n ''dns_failure'')
       (on_proxy (\<lambda>p.
          let window = (if For step \<le> 0 then 24 * 3600 * Second else For step);
              f = Trigger \<lparr>ServiceName = StringParam step ''service'' (upstream_host p), dns_active = False, dns_until = 0\<rparr>
                    window (clock e)
          in p\<lparr>p_reg := RegisterDialFault f (p_reg p)\<rparr>) n e))"
    using registry [of e "\<lambda>p. RegDial (?f p)" True undefined n]
    by (auto simp: op_typed_def Let_def intro: rtranclp_trans [OF _ expire_moves])
qed

lemma apply_flag_moves:
  assumes "\<And>(e :: 's engine) n. move True e (on_proxy_net (setf True) n e)"
  shows "moves True (e :: 's engine) (apply_flag setf undo step ns e)"
  unfolding apply_flag_def
proof (rule moves_fold)
  fix e :: "'s engine" and n
  show "moves True e (expire step (undo n) (on_proxy_net (setf True) n e))"
    by (rule moves_step [OF assms expire_moves])
qed

lemma apply_heal_moves: "moves True e (apply_heal sys fmt step ns e)"
  unfolding apply_heal_def by (rule rtranclp.rtrancl_into_rtrancl [OF heal_fold_moves revert_moves])

lemma apply_drop_moves: "moves True e (snd (apply_drop step ns e))"
proof -
  have "moves True e (foldl (\<lambda>e n. on_registry (\<lambda>r. snd (Unregister ''bursty_loss'' r)) n e) e ns)"
    by (rule moves_fold) (rule r_into_rtranclp, rule unregister_move)
  then show ?thesis by (auto simp: apply_drop_def Let_def intro!: registerObj_moves)
qed

lemma nodes_any: "move True e (e\<lparr>injected := fs, machine := m, timers := ts, e_drivers := dv\<rparr>)"
  by (intro nodes) simp

lemma driverFor_moves: "moves True e (snd (driverFor k n e))"
  using nodes_any [where e = e and fs = "injected e" and m = "machine e" and ts = "timers e"]
  by (auto simp: driverFor_def split: option.splits sum.splits)

lemma inject_nodes_moves: "moves True e (snd (inject_nodes sys fmt step nf ns e))"
proof (induction ns arbitrary: e)
  case (Cons n ns)
  obtain d e1 where d: "driverFor (Kind step) n e = (d, e1)" by force
  have 1: "moves True e e1" using driverFor_moves [of e "Kind step" n] d by simp
  have swap_upd: "e1\<lparr>machine := m, injected := fs\<rparr> = e1\<lparr>injected := fs, machine := m\<rparr>" for m fs by (cases e1) simp
  have m: "moves True e (e1\<lparr>machine := m\<rparr>)" "moves True e (e1\<lparr>machine := m, injected := fs\<rparr>)" for m fs
    using nodes_any [where e = e1 and m = m and ts = "timers e1" and dv = "e_drivers e1" and fs = "injected e1"]
      nodes_any [where e = e1 and m = m and ts = "timers e1" and dv = "e_drivers e1" and fs = fs] 1
    by (auto intro: rtranclp.rtrancl_into_rtrancl simp: swap_upd)
  have "moves True e (snd (inject_nodes sys fmt step nf ns (expire step act (e1\<lparr>machine := m, injected := fs\<rparr>))))" for act m fs
    by (rule rtranclp_trans [OF rtranclp_trans [OF m(2) expire_moves] Cons.IH])
  with 1 d m(1) show ?case by (auto simp: Let_def split: sum.splits option.splits prod.splits)
qed simp

lemma runNodeFault_moves: "moves True e (snd (runNodeFault sys fmt step nf e))"
  by (auto simp: runNodeFault_def inject_nodes_moves simp del: inject_nodes.simps split: option.splits)

lemmas register_moves = registerObj_moves registerConn_moves registerPacket_moves registerHook_moves registerDNS_moves
  apply_heal_moves apply_drop_moves runNodeFault_moves

lemma apply_kind_moves: "moves True e (snd (apply_kind sys fmt step ns e))"
  unfolding apply_kind_def Let_def
  by (auto intro!: register_moves apply_flag_moves partition crash split: option.splits)

lemma engine_Apply_moves: "moves True e (snd (engine_Apply sys fmt step e))"
  by (auto simp: engine_Apply_def apply_kind_moves split: sum.splits)

section \<open>Invariants\<close>

text \<open>
  What is kept by every elementary change is kept by every operation of the engine; the
  operations that only take faults away need no more than the changes that add none.
\<close>

locale engine_invariant =
  fixes may :: bool and J :: "'s engine \<Rightarrow> bool"
  assumes kept: "move may e e' \<Longrightarrow> J e \<Longrightarrow> J e'"
begin

lemma kept_moves: "moves may e e' \<Longrightarrow> J e \<Longrightarrow> J e'"
  by (induction rule: rtranclp_induct) (auto intro: kept)

lemma kept_RemoveFault: "J e \<Longrightarrow> J (snd (RemoveFault sys fmt node name e))"
  by (rule kept_moves [OF RemoveFault_moves])

lemma kept_HealAll: "J e \<Longrightarrow> J (HealAll sys fmt e)"
  by (rule kept_moves [OF HealAll_moves])

lemma kept_fire: "J e \<Longrightarrow> J (fire sys fmt act e)"
  by (rule kept_moves [OF fire_moves])

lemma kept_timers: "J e \<Longrightarrow> J (e\<lparr>timers := ts\<rparr>)"
  by (rule kept [OF move_timers])

lemma kept_status: "J e \<Longrightarrow> J (after_status p e)"
  by (rule kept [OF after_status_move])

lemma kept_clock: "J e \<Longrightarrow> J (set_clock t e)"
  by (rule kept [OF set_clock_moves])

lemma kept_Apply: "may \<Longrightarrow> J e \<Longrightarrow> J (snd (engine_Apply sys fmt step e))"
  using kept_moves [of e "snd (engine_Apply sys fmt step e)"] engine_Apply_moves [of e sys fmt step] by simp

end

text \<open>No fault anywhere: kept by the changes that add none.\<close>

definition all_healthy :: "'s engine \<Rightarrow> bool" where
  "all_healthy e \<longleftrightarrow> list_all (healthy \<circ> snd) (Proxies e) \<and> injected e = []"

lemma on_proxy_all: "list_all (P \<circ> snd) (Proxies e) \<Longrightarrow> (\<And>p. P p \<Longrightarrow> P (g p)) \<Longrightarrow> list_all (P \<circ> snd) (Proxies (on_proxy g n e))"
  by (auto simp: list_all_iff on_proxy_def split_def)

lemma on_proxy_net_all:
  assumes "list_all (P \<circ> snd) (Proxies e)" "\<And>p. P p \<Longrightarrow> P (fst (g p (e_net e)))"
  shows "list_all (P \<circ> snd) (Proxies (on_proxy_net g n e))"
proof (cases "map_of (Proxies e) n")
  case (Some p)
  then have "P p" using assms(1) by (force simp: list_all_iff dest: map_of_SomeD)
  with assms Some on_proxy_all [of P e "\<lambda>_. fst (g p (e_net e))" n] show ?thesis
    by (simp add: on_proxy_net_def case_prod_unfold)
qed (use assms in \<open>simp add: on_proxy_net_def\<close>)

lemma healthy_removes: "healthy p \<Longrightarrow> op_removes op \<Longrightarrow> healthy (p\<lparr>p_reg := reg_apply op t (p_reg p)\<rparr>)"
  by (cases op) (auto simp: op_removes_def healthy_def no_faults_def Clear_def)

lemma on_proxy_net_injected [simp]: "injected (on_proxy_net g n e) = injected e"
  by (simp add: on_proxy_net_def split: option.splits prod.splits)

interpretation health: engine_invariant False all_healthy
proof
  fix e e' :: "'s engine"
  assume "move False e e'" "all_healthy e"
  then show "all_healthy e'"
  proof (induction rule: move.induct)
    case (registry e op t n)
    then show ?case using on_proxy_all [of healthy e "\<lambda>p. p\<lparr>p_reg := reg_apply (op p) t (p_reg p)\<rparr>" n]
      by (simp add: all_healthy_def healthy_removes)
  next
    case (partition v e n)
    then show ?case using on_proxy_net_all [of healthy e "SetPartitioned v" n]
      by (simp add: all_healthy_def SetPartitioned_def healthy_def Let_def)
  next
    case (crash v e n)
    then show ?case using on_proxy_net_all [of healthy e "SetCrashed v" n]
      by (simp add: all_healthy_def SetCrashed_def healthy_def Let_def)
  next
    case (heal e n)
    then show ?case using on_proxy_all [of healthy e proxy_Heal n] by (simp add: all_healthy_def healthy_Heal)
  qed (simp_all add: all_healthy_def)
qed

text \<open>
  Every pointer that a registry holds is to an object of its type, and no pointer is to an
  object that is yet to be allocated.
\<close>

definition fresh :: "net_state \<Rightarrow> bool" where
  "fresh ns \<longleftrightarrow> (\<forall>a \<ge> next_ptr (net ns). kinds (net ns) a = None \<and> hooks ns a = None)"

definition net_ext :: "net_state \<Rightarrow> net_state \<Rightarrow> bool" where
  "net_ext ns ns' \<longleftrightarrow> kinds (net ns) \<subseteq>\<^sub>m kinds (net ns') \<and> dom (hooks ns) \<subseteq> dom (hooks ns')"

definition regs_typed :: "'s engine \<Rightarrow> bool" where
  "regs_typed e \<longleftrightarrow> list_all ((\<lambda>p. reg_ok (p_reg p) \<and> reg_typed (e_net e) (p_reg p)) \<circ> snd) (Proxies e) \<and> fresh (e_net e)"

lemma net_ext_refl [simp]: "net_ext ns ns"
  by (simp add: net_ext_def)

lemma net_ext_trans: "net_ext ns ns1 \<Longrightarrow> net_ext ns1 ns2 \<Longrightarrow> net_ext ns ns2"
  by (auto simp: net_ext_def intro: map_le_trans)

lemma fault_typed_mono: "fault_typed K f \<Longrightarrow> K \<subseteq>\<^sub>m K' \<Longrightarrow> fault_typed K' f"
  by (cases f) (auto simp: map_le_def dom_def)

lemma conn_typed_mono: "conn_typed K c \<Longrightarrow> K \<subseteq>\<^sub>m K' \<Longrightarrow> conn_typed K' c"
  by (induction c) (auto simp: map_le_def dom_def)

lemma reg_typed_mono: "reg_typed ns r \<Longrightarrow> net_ext ns ns' \<Longrightarrow> reg_typed ns' r"
  unfolding reg_typed_def net_ext_def using fault_typed_mono by blast

lemma session_typed_mono: "session_typed ns ss \<Longrightarrow> net_ext ns ns' \<Longrightarrow> session_typed ns' ss"
  by (auto simp: session_typed_def lc_typed_def net_ext_def intro: conn_typed_mono split: option.splits)

lemma ext_same: "same_objs (net ns) (net ns') \<Longrightarrow> dom (hooks ns') = dom (hooks ns) \<Longrightarrow> net_ext ns ns' \<and> (fresh ns \<longrightarrow> fresh ns')"
  by (simp add: net_ext_def same_objs_def fresh_def) (metis domIff)

lemma ext_alloc:
  assumes "fresh ns"
  shows "net_ext ns (ns\<lparr>net := snd (alloc ob (net ns))\<rparr>) \<and> fresh (ns\<lparr>net := snd (alloc ob (net ns))\<rparr>)"
proof -
  have "kinds (net ns) (next_ptr (net ns)) = None" using assms by (simp add: fresh_def)
  with assms show ?thesis
    by (auto simp: net_ext_def fresh_def kinds_alloc map_le_def) (simp_all add: alloc_def)
qed

lemma ext_hook: "fresh ns \<Longrightarrow> net_ext ns (new_hook f ns) \<and> fresh (new_hook f ns)"
  by (auto simp: net_ext_def fresh_def new_hook_def kinds_def)

lemma reg_typed_apply:
  assumes "reg_ok r" "reg_typed ns r" "op_typed ns op"
  shows "reg_ok (reg_apply op t r) \<and> reg_typed ns (reg_apply op t r)"
proof -
  have d: "distinct (map Fault_Name (connFaults r))" "distinct (map StaleRead_Name (readHooks r))"
    using assms(1) by (simp_all add: reg_ok_def)
  have "reg_typed ns (reg_apply op t r)" using assms(2,3) d
    by (cases op) (auto simp: reg_typed_def op_typed_def replaceOrAppend_set RegisterPacketFault_def
        RegisterDialFault_def RegisterReadHook_def Clear_def)
  with reg_ok_apply [OF assms(1)] show ?thesis by simp
qed

lemma regs_typed_net:
  assumes "regs_typed e" "net_ext (e_net e) ns" "fresh ns"
  shows "regs_typed (e\<lparr>e_net := ns\<rparr>)"
  using assms by (auto simp: regs_typed_def list_all_iff intro: reg_typed_mono)

lemma regs_typed_on_proxy:
  assumes "regs_typed e" "\<And>p. reg_ok (p_reg p) \<and> reg_typed (e_net e) (p_reg p) \<Longrightarrow> reg_ok (p_reg (g p)) \<and> reg_typed (e_net e) (p_reg (g p))"
  shows "regs_typed (on_proxy g n e)"
  using assms on_proxy_all [of "\<lambda>p. reg_ok (p_reg p) \<and> reg_typed (e_net e) (p_reg p)" e g n] by (simp add: regs_typed_def)

lemma regs_typed_on_proxy_net:
  assumes "regs_typed e" "\<And>p. p_reg (fst (g p (e_net e))) = p_reg p \<and> net (snd (g p (e_net e))) = net (e_net e)
      \<and> hooks (snd (g p (e_net e))) = hooks (e_net e)"
  shows "regs_typed (on_proxy_net g n e) \<and> net_ext (e_net e) (e_net (on_proxy_net g n e))"
proof (cases "map_of (Proxies e) n")
  case (Some p)
  obtain p' ns where g: "g p (e_net e) = (p', ns)" by force
  have p': "p_reg p' = p_reg p" "net ns = net (e_net e)" "hooks ns = hooks (e_net e)" using assms(2) [of p] g by auto
  have "reg_ok (p_reg p) \<and> reg_typed (e_net e) (p_reg p)"
    using Some assms(1) by (force simp: regs_typed_def list_all_iff dest: map_of_SomeD)
  then have 1: "regs_typed (on_proxy (\<lambda>_. p') n e)" using assms(1) p' by (intro regs_typed_on_proxy) auto
  have 2: "net_ext (e_net e) ns \<and> fresh ns" using ext_same [of "e_net e" ns] p' assms(1) by (simp add: regs_typed_def)
  with regs_typed_net [OF 1] Some g show ?thesis by (simp add: on_proxy_net_def)
qed (use assms in \<open>simp add: on_proxy_net_def\<close>)

interpretation objects: engine_invariant True "\<lambda>e. regs_typed e \<and> net_ext ns0 (e_net e)" for ns0
proof
  fix e e' :: "'s engine" and ns0
  assume "move True e e'" "regs_typed e \<and> net_ext ns0 (e_net e)"
  moreover have "regs_typed e' \<and> net_ext (e_net e) (e_net e')" if "move True e e'" "regs_typed e" for e e' :: "'s engine"
    using that
  proof (induction rule: move.induct)
    case (registry e op t n)
    then show ?case
      using regs_typed_on_proxy [of e "\<lambda>p. p\<lparr>p_reg := reg_apply (op p) t (p_reg p)\<rparr>" n] reg_typed_apply [of _ "e_net e"] by simp
  next
    case (partition v e n)
    then show ?case by (intro regs_typed_on_proxy_net) (simp_all add: SetPartitioned_def severConns_eq Let_def)
  next
    case (crash v e n)
    then show ?case by (intro regs_typed_on_proxy_net) (simp_all add: SetCrashed_def severConns_eq Let_def)
  next
    case (heal e n)
    then show ?case using regs_typed_on_proxy [of e proxy_Heal n] reg_typed_apply [of _ "e_net e" ClearAll]
      by (simp add: proxy_Heal_def op_typed_def)
  next
    case (object e ob)
    then show ?case using ext_alloc [of "e_net e" ob] regs_typed_net [of e] by (simp add: regs_typed_def)
  next
    case (hook e f)
    then show ?case using ext_hook [of "e_net e" f] regs_typed_net [of e] by (simp add: regs_typed_def)
  next
    case (world e w)
    then show ?case using ext_same [of "e_net e" "(e_net e)\<lparr>net := w\<rparr>"] regs_typed_net [of e "(e_net e)\<lparr>net := w\<rparr>"]
      by (simp add: regs_typed_def)
  qed (simp add: regs_typed_def)
  ultimately show "regs_typed e' \<and> net_ext ns0 (e_net e')" by (blast intro: net_ext_trans)
qed

lemma on_proxy_net_wire:
  assumes "\<And>p ns. net (snd (g p ns)) = net ns"
  shows "net (e_net (on_proxy_net g n e)) = net (e_net e)"
proof (cases "map_of (Proxies e) n")
  case (Some p)
  then show ?thesis using assms [of p "e_net e"] by (simp add: on_proxy_net_def case_prod_unfold)
qed (simp add: on_proxy_net_def)

text \<open>Time never goes back.\<close>

interpretation time: engine_invariant True "\<lambda>e. t0 \<le> clock e" for t0
proof
  fix e e' :: "'s engine" and t0
  assume "move True e e'" "t0 \<le> clock e"
  then show "t0 \<le> clock e'"
  proof (induction rule: move.induct)
    case (partition v e n)
    then show ?case using on_proxy_net_wire [of "SetPartitioned v" n e] by (simp add: clock_def SetPartitioned_def severConns_eq Let_def)
  next
    case (crash v e n)
    then show ?case using on_proxy_net_wire [of "SetCrashed v" n e] by (simp add: clock_def SetCrashed_def severConns_eq Let_def)
  qed (simp_all add: clock_def alloc_def new_hook_def on_proxy_def)
qed

text \<open>The engine puts nothing on a wire.\<close>

interpretation wires: engine_invariant True "\<lambda>e. wire (net (e_net e)) = W" for W
proof
  fix e e' :: "'s engine" and W
  assume "move True e e'" "wire (net (e_net e)) = W"
  then show "wire (net (e_net e')) = W"
  proof (induction rule: move.induct)
    case (partition v e n)
    then show ?case using on_proxy_net_wire [of "SetPartitioned v" n e] by (simp add: SetPartitioned_def severConns_eq Let_def)
  next
    case (crash v e n)
    then show ?case using on_proxy_net_wire [of "SetCrashed v" n e] by (simp add: SetCrashed_def severConns_eq Let_def)
  qed (simp_all add: alloc_def new_hook_def on_proxy_def)
qed

text \<open>The names of the proxies and what each says about its connections: the engine touches neither.\<close>

definition books :: "'s engine \<Rightarrow> (string \<times> (conn_id \<times> nat) list \<times> int) list" where
  "books e = map (\<lambda>(n, p). (n, conns p, active p)) (Proxies e)"

lemma books_on_proxy:
  "(\<And>p. conns (g p) = conns p \<and> active (g p) = active p) \<Longrightarrow> books (on_proxy g n e) = books e"
  by (auto simp: books_def on_proxy_def split_def)

lemma books_names: "map fst (Proxies e) = map fst (books e)"
  by (simp add: books_def comp_def split_def)

lemma books_on_proxy_net:
  assumes "distinct (map fst (books e))" "\<And>p ns. conns (fst (g p ns)) = conns p \<and> active (fst (g p ns)) = active p"
  shows "books (on_proxy_net g n e) = books e"
proof (cases "map_of (Proxies e) n")
  case (Some p)
  obtain p' ns where g: "g p (e_net e) = (p', ns)" by force
  have same: "conns p' = conns p" "active p' = active p" using assms(2) [of p "e_net e"] g by auto
  have "q = p" if "(n, q) \<in> set (Proxies e)" for q
    using that Some assms(1) by (metis books_names map_of_is_SomeI option.inject)
  then have "books (on_proxy (\<lambda>_. p') n e) = books e"
    using same by (auto simp: books_def on_proxy_def split_def)
  with Some g show ?thesis by (simp add: on_proxy_net_def books_def)
qed (use assms in \<open>simp add: on_proxy_net_def\<close>)

interpretation bookkeeping: engine_invariant True "\<lambda>e. distinct (map fst B) \<and> books e = B" for B
proof
  fix e e' :: "'s engine" and B
  assume "move True e e'" "distinct (map fst B) \<and> books e = B"
  then show "distinct (map fst B) \<and> books e' = B"
  proof (induction rule: move.induct)
    case (registry e op t n)
    then show ?case by (simp add: books_on_proxy)
  next
    case (partition v e n)
    then show ?case using books_on_proxy_net [of e "SetPartitioned v" n] by (auto simp: SetPartitioned_def Let_def)
  next
    case (crash v e n)
    then show ?case using books_on_proxy_net [of e "SetCrashed v" n] by (auto simp: SetCrashed_def Let_def)
  next
    case (heal e n)
    then show ?case by (simp add: books_on_proxy proxy_Heal_def)
  qed (simp_all add: books_def)
qed

end
