(* ===== verification/Catalog.thy ===== *)
theory Catalog
  imports Engine "HOL-Library.Char_ord" "HOL-Library.List_Lexorder"
begin

text \<open>
  The catalogue of fault kinds (\<^verbatim>\<open>internal/scenario/catalog.go\<close>) that the control API and
  the CLI show, the built-in scenarios, and how both agree with the engine. A default is a
  dynamic value as in a fault step.
\<close>

section \<open>The catalogue\<close>

record ParamInfo =
  pi_Name :: string
  pi_Type :: string
  pi_Default :: "any_val option"
  pi_Help :: string
  pi_Enum :: "string list"

record KindInfo =
  ki_Kind :: string
  ki_Class :: string
  ki_Description :: string
  ki_Params :: "ParamInfo list"
  ki_Stream :: string
  NeedsTarget :: bool

definition dur :: "string \<Rightarrow> string \<Rightarrow> string \<Rightarrow> ParamInfo" where
  "dur name def help = \<lparr>pi_Name = name, pi_Type = ''duration'', pi_Default = Some (VString def), pi_Help = help, pi_Enum = []\<rparr>"

definition num :: "string \<Rightarrow> int \<Rightarrow> string \<Rightarrow> ParamInfo" where
  "num name def help = \<lparr>pi_Name = name, pi_Type = ''int'', pi_Default = Some (VInt def), pi_Help = help, pi_Enum = []\<rparr>"

definition flt :: "string \<Rightarrow> real \<Rightarrow> string \<Rightarrow> ParamInfo" where
  "flt name def help = \<lparr>pi_Name = name, pi_Type = ''float'', pi_Default = Some (VFloat def), pi_Help = help, pi_Enum = []\<rparr>"

definition enum_param :: "string \<Rightarrow> string \<Rightarrow> string \<Rightarrow> string list \<Rightarrow> ParamInfo" where
  "enum_param name def help vs = \<lparr>pi_Name = name, pi_Type = ''enum'', pi_Default = Some (VString def), pi_Help = help, pi_Enum = vs\<rparr>"

definition kind_info :: "string \<Rightarrow> string \<Rightarrow> string \<Rightarrow> ParamInfo list \<Rightarrow> string \<Rightarrow> bool \<Rightarrow> KindInfo" where
  "kind_info k c desc ps st nt = \<lparr>ki_Kind = k, ki_Class = c, ki_Description = desc, ki_Params = ps, ki_Stream = st, NeedsTarget = nt\<rparr>"

definition catalog :: "KindInfo list" where
  "catalog =
    [kind_info ''latency'' ''conn'' ''Delay every chunk (fixed, jittered, or ramping).''
       [dur ''delay'' ''500ms'' ''base delay per chunk (short form: latency_ms)'',
        dur ''jitter'' ''0ms'' ''extra random delay, uniform in [0, jitter)'',
        dur ''ramp_to'' ''0ms'' ''if set, delay grows linearly from delay to ramp_to'',
        dur ''ramp_over'' ''0ms'' ''how long the ramp takes''] [] False,
     kind_info ''drop'' ''conn'' ''Silently discard a uniform percentage of chunks.''
       [num ''drop_percent'' 20 ''0-100 (short form: drop_percent)''] [] False,
     kind_info ''partition'' ''state'' ''Node unreachable: refuse new connections, sever existing ones.''
       [] [] False,
     kind_info ''crash'' ''state'' ''Proxy-level crash: same as partition, reported separately. (For a real process kill use node_crash.)''
       [] [] False,
     kind_info ''heal'' ''state'' ''Clear every fault on the node and revert its node-level faults.''
       [] [] False,
     kind_info ''bursty_loss'' ''conn'' ''Low baseline loss with periodic bursts of heavy loss.''
       [flt ''baseline_loss'' (1 / 100) ''loss probability between bursts'',
        flt ''burst_loss'' (4 / 10) ''loss probability during a burst'',
        dur ''burst_every'' ''30s'' ''time between bursts'',
        dur ''burst_for'' ''5s'' ''burst length''] [] False,
     kind_info ''bandwidth_throttle'' ''conn'' ''Cap throughput with a token bucket.''
       [num ''rate_bytes_per_sec'' 65536 ''sustained bytes/second'',
        num ''burst_bytes'' 65536 ''bucket capacity''] [] False,
     kind_info ''reorder'' ''conn'' ''Hold chunks back and release them out of order.''
       [num ''buffer_size'' 5 ''chunks held before a shuffled flush'',
        flt ''probability'' (1 / 10) ''chance a chunk is held''] [] False,
     kind_info ''duplication'' ''conn'' ''Deliver some chunks more than once.''
       [flt ''probability'' (5 / 100) ''chance a chunk is duplicated'',
        num ''max_extra_copies'' 1 ''extra copies per duplicated chunk''] [] False,
     kind_info ''asymmetric_partition'' ''conn'' ''Blackhole one direction only; the other keeps flowing.''
       [enum_param ''block_direction'' ''client_to_upstream'' ''which leg to blackhole'' [''client_to_upstream'', ''upstream_to_client'']] [] False,
     kind_info ''tcp_rst'' ''conn'' ''Close connections with a TCP RST instead of a clean FIN.''
       [] [] False,
     kind_info ''dns_failure'' ''dial'' ''New upstream dials fail with 'no such host'; existing connections survive.''
       [\<lparr>pi_Name = ''service'', pi_Type = ''string'', pi_Default = None, pi_Help = ''host name to fail (default: the node's upstream host)'', pi_Enum = []\<rparr>] [] False,
     kind_info ''replica_lag'' ''packet'' ''Delay replication-stream chunks (the replica falls behind).''
       [dur ''delay'' ''2s'' ''delay per chunk'',
        dur ''jitter'' ''0ms'' ''extra random delay''] ''replication'' False,
     kind_info ''wal_delay'' ''packet'' ''Delay WAL flushes on the replication stream.''
       [dur ''flush_delay'' ''1s'' ''delay per chunk''] ''replication'' False,
     kind_info ''wal_corruption'' ''packet'' ''Flip bytes in a fraction of replication chunks.''
       [flt ''probability'' (1 / 100) ''chance a chunk is corrupted'',
        num ''bytes_to_flip'' 1 ''bytes flipped per corrupted chunk''] ''replication'' False,
     kind_info ''query_corruption'' ''packet'' ''Flip bytes in a fraction of client-query chunks.''
       [flt ''probability'' (1 / 100) ''chance a chunk is corrupted'',
        num ''bytes_to_flip'' 1 ''bytes flipped per corrupted chunk''] ''query'' False,
     kind_info ''stale_read'' ''read_hook'' ''Serve a cached older response instead of the live one, sometimes.''
       [flt ''probability'' (3 / 10) ''chance a cached response is served'',
        dur ''max_age'' ''10s'' ''oldest cached response that may be served''] [] False,
     kind_info ''node_crash'' ''node'' ''Kill the node's process; revert restarts it.''
       [enum_param ''signal'' ''SIGKILL'' ''SIGKILL = hard crash, SIGTERM = graceful shutdown'' [''SIGKILL'', ''SIGTERM'']] [] True,
     kind_info ''zombie'' ''node'' ''Freeze the process: ports stay open, nothing answers.''
       [] [] True,
     kind_info ''cpu_throttle'' ''node'' ''Cap the node's CPU (systemd/docker targets only).''
       [flt ''cpu_quota'' (1 / 10) ''cores, e.g. 0.1 = 10% of one core''] [] True,
     kind_info ''oom'' ''node'' ''Cap the node's memory (systemd/docker targets only).''
       [num ''limit_bytes'' (50 * 1024 * 1024) ''memory limit in bytes''] [] True,
     kind_info ''clock_skew'' ''node'' ''Shift the node's wall clock. Caveat: changes the host clock on Linux.''
       [dur ''offset'' ''1m'' ''offset applied to the clock (may be negative)''] [] True]"

definition class_order :: "string \<Rightarrow> nat" where
  "class_order c =
     (case map_of [(''state'', 0), (''conn'', 1), (''dial'', 2), (''packet'', 3), (''read_hook'', 4), (''node'', 5)] c of
        Some n \<Rightarrow> n | None \<Rightarrow> 0)"

text \<open>A stable sort by class, then by kind.\<close>

definition Catalog_all :: "KindInfo list" where
  "Catalog_all = sort_key (\<lambda>k. class_order (ki_Class k)) (sort_key ki_Kind catalog)"

definition Kinds :: "string list" where
  "Kinds = sort (map ki_Kind catalog)"

section \<open>Built-in scenarios\<close>

definition quick_step :: "string \<Rightarrow> string \<Rightarrow> int \<Rightarrow> int \<Rightarrow> FaultStep" where
  "quick_step node kind latency percent =
     \<lparr>step_Node = node, Kind = kind, LatencyMs = latency, DropPercent = percent, Params = Map.empty, AfterMs = 0, ForMs = 0\<rparr>"

definition BuiltinScenarios :: "string \<Rightarrow> string list \<Rightarrow> Scenario list" where
  "BuiltinScenarios primary replicas =
     (if length replicas > 0
      then [\<lparr>sc_Name = ''replica-lag'',
             Description = ''Replica falls behind: added latency + intermittent drops on the replication path.'',
             Steps = [quick_step (replicas ! 0) ''latency'' 2000 0, quick_step (replicas ! 0) ''drop'' 0 15]\<rparr>]
      else [])
     @ (if length replicas \<ge> 2
        then [\<lparr>sc_Name = ''split-brain'',
               Description = ''Cluster splits into two partitions: primary + one replica isolated from the rest.'',
               Steps = [quick_step primary ''partition'' 0 0, quick_step (replicas ! 0) ''partition'' 0 0]\<rparr>]
        else [])
     @ [\<lparr>sc_Name = ''node-crash'',
         Description = ''Node '' @ [CHR 0x22] @ primary @ [CHR 0x22] @ '' crashes outright: all connections severed, new ones refused.'',
         Steps = [quick_step primary ''crash'' 0 0]\<rparr>]"

section \<open>The catalogue and the engine\<close>

lemma kinds_set: "set Kinds = {''latency'', ''drop'', ''partition'', ''crash'', ''heal'', ''bursty_loss'', ''bandwidth_throttle'',
  ''reorder'', ''duplication'', ''asymmetric_partition'', ''tcp_rst'', ''dns_failure'', ''replica_lag'', ''wal_delay'',
  ''wal_corruption'', ''query_corruption'', ''stale_read'', ''node_crash'', ''zombie'', ''cpu_throttle'', ''oom'', ''clock_skew''}"
  by (simp only: Kinds_def set_sort catalog_def kind_info_def list.map KindInfo.simps list.set)

lemma runNodeFault_known: "runNodeFault sys fmt step nf e = (r, e') \<Longrightarrow> r \<noteq> Some (UnknownKind k)"
  using runNodeFault_frame by blast

text \<open>The parameters a step gets when a client sends the catalogue's defaults.\<close>

definition default_params :: "string \<Rightarrow> string \<rightharpoonup> any_val" where
  "default_params kind =
     (case find (\<lambda>k. ki_Kind k = kind) catalog of
        None \<Rightarrow> Map.empty
      | Some k \<Rightarrow> (\<lambda>n. case find (\<lambda>p. pi_Name p = n) (ki_Params k) of Some p \<Rightarrow> pi_Default p | None \<Rightarrow> None))"

lemma parse_defaults:
  "ParseDuration ''0ms'' = Some 0" "ParseDuration ''1s'' = Some Second" "ParseDuration ''2s'' = Some (2 * Second)"
  "ParseDuration ''5s'' = Some (5 * Second)" "ParseDuration ''10s'' = Some (10 * Second)"
  "ParseDuration ''30s'' = Some (30 * Second)" "ParseDuration ''1m'' = Some (60 * Second)"
  by (simp_all add: ParseDuration_def parse_groups.simps [of 0] parse_group_def is_digit_def less_eq_char_def
      digit_val_def unit_char_def unit_of_def Second_def)

section \<open>Properties\<close>

text \<open>
  C31: the catalogue is in step with the engine. For a step on an existing node the engine
  reports an unknown kind exactly when the kind is not in the list it offers.
\<close>

theorem kinds_match_engine:
  assumes "targets e (step_Node step) = Inr ns"
  shows "(\<exists>k. fst (engine_Apply sys fmt step e) = Some (UnknownKind k)) \<longleftrightarrow> Kind step \<notin> set Kinds"
proof -
  have r: "fst (runNodeFault sys fmt step nf e) \<noteq> Some (UnknownKind k)" for nf k
    using runNodeFault_known [of sys fmt step nf e "fst (runNodeFault sys fmt step nf e)" "snd (runNodeFault sys fmt step nf e)"]
    by simp
  have a: "engine_Apply sys fmt step e = apply_kind sys fmt step ns e" using assms by (simp add: engine_Apply_def)
  have "fst (apply_kind sys fmt step ns e) = Some (UnknownKind (Kind step))" if "Kind step \<notin> set Kinds"
    using that by (simp add: kinds_set apply_kind_def Let_def)
  moreover have "fst (apply_kind sys fmt step ns e) \<noteq> Some (UnknownKind k)" if "Kind step \<in> set Kinds" for k
    using that unfolding kinds_set
    by (elim insertE emptyE) (simp_all add: apply_kind_def apply_drop_def Let_def r split: option.split)
  ultimately show ?thesis unfolding a by blast
qed

theorem kinds_match_engine_witness:
  "(\<exists>k. fst (engine_Apply ex_remote (\<lambda>t. []) (quick_step ''a'' ''gremlin'' 0 0)
      (engine_New [(''a'', proxy_New ''a'' [] [])] None ex_net
        [])) = Some (UnknownKind k))"
  using kinds_match_engine [of "engine_New [(''a'', proxy_New ''a'' [] [])] None ex_net
        []" "quick_step ''a'' ''gremlin'' 0 0" "[''a'']"
      "ex_remote" "\<lambda>t. []"]
  by (simp add: targets_def engine_New_def quick_step_def kinds_set)

text \<open>What a step does apart from reading its parameters.\<close>

lemma For_params [simp]: "For (step\<lparr>Params := ps\<rparr>) = For step"
  by (simp add: For_def)

lemma expire_params [simp]: "expire (step\<lparr>Params := ps\<rparr>) = expire step"
  by (simp add: expire_def fun_eq_iff)

lemma registerConn_params [simp]: "registerConn (step\<lparr>Params := ps\<rparr>) = registerConn step"
  by (simp add: registerConn_def fun_eq_iff)

lemma params_irrelevant [simp]:
  "registerPacket (step\<lparr>Params := ps\<rparr>) = registerPacket step"
  "registerHook (step\<lparr>Params := ps\<rparr>) = registerHook step"
  "registerObj (step\<lparr>Params := ps\<rparr>) = registerObj step"
  by (simp_all add: registerPacket_def registerHook_def registerObj_def fun_eq_iff)

lemma inject_nodes_params [simp]:
  "inject_nodes sys fmt (step\<lparr>Params := ps\<rparr>) nf ns e = inject_nodes sys fmt step nf ns e"
  by (induction ns arbitrary: e) (simp_all split: prod.split sum.split option.split)

lemma runNodeFault_params [simp]: "runNodeFault sys fmt (step\<lparr>Params := ps\<rparr>) = runNodeFault sys fmt step"
  by (simp add: runNodeFault_def fun_eq_iff del: inject_nodes.simps split: option.split)

lemmas param_defs = default_params_def catalog_def kind_info_def dur_def num_def flt_def enum_param_def
  FloatParam_def IntParam_def Int64Param_def DurationParam_def StringParam_def

text \<open>
  The catalogue's defaults are the engine's. For every kind but latency and drop, a
  step without parameters does the same as the step with the parameters that the catalogue
  gives as defaults.
\<close>

theorem catalog_defaults_agree:
  assumes "Kind step \<in> set Kinds" "Kind step \<noteq> ''latency''" "Kind step \<noteq> ''drop''"
  shows "engine_Apply sys fmt (step\<lparr>Params := default_params (Kind step)\<rparr>) e = engine_Apply sys fmt (step\<lparr>Params := Map.empty\<rparr>) e"
proof -
  have "apply_kind sys fmt (step\<lparr>Params := default_params (Kind step)\<rparr>) ns e = apply_kind sys fmt (step\<lparr>Params := Map.empty\<rparr>) ns e" for ns
    using assms unfolding kinds_set
    by (elim insertE emptyE)
      (simp_all add: apply_kind_def apply_flag_def apply_heal_def bursty_of_def direction_of_def signal_of_def registerDNS_def
        param_defs parse_defaults)
  then show ?thesis by (simp add: engine_Apply_def targets_def split: sum.split)
qed

theorem catalog_defaults_agree_witness:
  "engine_Apply ex_remote (\<lambda>t. []) ((quick_step ''a'' ''reorder'' 0 0)\<lparr>Params := default_params ''reorder''\<rparr>)
      (engine_New [(''a'', proxy_New ''a'' [] [])] None ex_net
        [])
   = engine_Apply ex_remote (\<lambda>t. []) (quick_step ''a'' ''reorder'' 0 0)
      (engine_New [(''a'', proxy_New ''a'' [] [])] None ex_net
        [])"
  using catalog_defaults_agree [of "quick_step ''a'' ''reorder'' 0 0" "ex_remote" "\<lambda>t. []"]
  by (simp add: quick_step_def kinds_set)

text \<open>
  For latency the catalogue says 500 ms and for drop 20 percent, but a step that leaves the
  parameter out gets no delay, and drops nothing.
\<close>

lemma latency_default_differs:
  "current (latency_of (quick_step n ''latency'' 0 0)) = 0
   \<and> current (latency_of ((quick_step n ''latency'' 0 0)\<lparr>Params := default_params ''latency''\<rparr>)) = 500 * Millisecond"
  by (simp add: latency_of_def quick_step_def NewLatencyInjectionFault_def param_defs parse_defaults wrap64_def
      ParseDuration_def parse_groups.simps [of 0] parse_group_def is_digit_def less_eq_char_def
      digit_val_def unit_char_def unit_of_def Millisecond_def)

lemma drop_default_differs:
  "IntParam (quick_step n ''drop'' 0 0) ''drop_percent'' (DropPercent (quick_step n ''drop'' 0 0)) = 0
   \<and> default_params ''drop'' ''drop_percent'' = Some (VInt 20)"
  by (simp add: quick_step_def param_defs)

end
