(* ===== verification/Check.thy ===== *)
theory Check
  imports Driver "HOL-Library.Sublist"
begin

text \<open>
  The consistency check across nodes (\<^verbatim>\<open>internal/check/check.go\<close>): one query run through
  every node's check command, and the report on whether the answers agree. Running a shell
  command is the argument \<open>sh\<close>: it gives the combined output and the text of the error, if
  any, and may change the state of the machines.
\<close>

section \<open>Strings\<close>

text \<open>\<^verbatim>\<open>strings.ReplaceAll\<close> for an old string that is not empty.\<close>

function ReplaceAll :: "string \<Rightarrow> string \<Rightarrow> string \<Rightarrow> string" where
  "ReplaceAll s old new =
     (if s = [] \<or> old = [] then s
      else if take (length old) s = old then new @ ReplaceAll (drop (length old) s) old new
      else hd s # ReplaceAll (tl s) old new)"
  by pat_completeness auto
termination
  by (relation "measure (\<lambda>(s, old, new). length s)") (auto simp: neq_Nil_conv)

declare ReplaceAll.simps [simp del]

definition newline :: char where
  "newline = CHR 0x0A"

text \<open>\<^verbatim>\<open>strings.Split\<close> at newlines: there is always at least one part.\<close>

fun split_lines :: "string \<Rightarrow> string list" where
  "split_lines [] = [[]]"
| "split_lines (c # s) =
     (if c = newline then [] # split_lines s
      else (case split_lines s of [] \<Rightarrow> [[c]] | l # ls \<Rightarrow> (c # l) # ls))"

section \<open>Running the query\<close>

record Result =
  res_Node :: string
  res_Output :: string
  res_Err :: "string option"

type_synonym 's shell = "string \<Rightarrow> 's \<Rightarrow> (string \<times> string option) \<times> 's"

definition check_node :: "'s shell \<Rightarrow> string \<Rightarrow> Node \<Rightarrow> 's \<Rightarrow> Result \<times> 's" where
  "check_node sh query n s =
     (case sh (ReplaceAll (CheckCommand n) ''{query}'' query) s of
        ((out, err), s') \<Rightarrow> (\<lparr>res_Node = Name n, res_Output = TrimSpace out, res_Err = err\<rparr>, s'))"

fun check_nodes :: "'s shell \<Rightarrow> string \<Rightarrow> Node list \<Rightarrow> 's \<Rightarrow> Result list \<times> 's" where
  "check_nodes sh query [] s = ([], s)"
| "check_nodes sh query (n # ns) s =
     (if CheckCommand n = [] then check_nodes sh query ns s
      else (case check_node sh query n s of
              (r, s1) \<Rightarrow> (case check_nodes sh query ns s1 of (rs, s2) \<Rightarrow> (r # rs, s2))))"

definition check_Run :: "'s shell \<Rightarrow> Config \<Rightarrow> string \<Rightarrow> 's \<Rightarrow> Result list \<times> 's" where
  "check_Run sh cfg query s = check_nodes sh query (Nodes cfg) s"

section \<open>The report\<close>

text \<open>The first loop of \<open>Render\<close>: \<open>i\<close> is the index, \<open>first\<close> the output of the first node.\<close>

fun agree_loop :: "nat \<Rightarrow> string \<Rightarrow> bool \<Rightarrow> Result list \<Rightarrow> bool \<times> string" where
  "agree_loop i first agree [] = (agree, first)"
| "agree_loop i first agree (r # rs) =
     (if i = 0 then agree_loop (Suc i) (res_Output r) agree rs
      else if res_Output r \<noteq> first then agree_loop (Suc i) first False rs
      else agree_loop (Suc i) first agree rs)"

definition status_text :: "bool \<Rightarrow> string \<Rightarrow> Result \<Rightarrow> string" where
  "status_text agree first r =
     (case res_Err r of
        Some e \<Rightarrow> ''ERROR: '' @ e
      | None \<Rightarrow> if \<not> agree \<and> res_Output r \<noteq> first then ''DIVERGES from first node'' else ''ok'')"

definition render_row :: "bool \<Rightarrow> string \<Rightarrow> Result \<Rightarrow> string" where
  "render_row agree first r =
     ''  ['' @ res_Node r @ ''] ('' @ status_text agree first r @ '')'' @ [newline]
     @ concat (map (\<lambda>l. ''      '' @ l @ [newline]) (split_lines (res_Output r))) @ [newline]"

definition agree_text :: string where
  "agree_text = ''=> All nodes agree. From a client's perspective, data looks consistent right now.'' @ [newline]"

definition disagree_text :: string where
  "disagree_text =
     ''=> Nodes DISAGREE. A client connected to a different node right now would see different data.'' @ [newline]
     @ ''   This is exactly the kind of partial, silent inconsistency that's hard to catch in normal testing.'' @ [newline]"

definition Render :: "Result list \<Rightarrow> string" where
  "Render rs =
     (case agree_loop 0 [] True rs of
        (agree, first) \<Rightarrow>
          ''Consistency check across '' @ show_nat (length rs) @ '' node(s):'' @ [newline, newline]
          @ concat (map (render_row agree first) rs)
          @ (if length rs > 1 then (if agree then agree_text else disagree_text) else []))"

section \<open>Lemmas\<close>

text \<open>What the first loop computes: whether all outputs are that of the first node.\<close>

lemma agree_loop_pos:
  "0 < i \<Longrightarrow> agree_loop i first agree rs = (agree \<and> (\<forall>r \<in> set rs. res_Output r = first), first)"
  by (induction i first agree rs rule: agree_loop.induct) auto

lemma agree_loop_start:
  "agree_loop 0 [] True rs =
     (\<forall>r \<in> set rs. res_Output r = res_Output (hd rs), if rs = [] then [] else res_Output (hd rs))"
  by (cases rs) (auto simp: agree_loop_pos)

lemma check_nodes_results:
  "map res_Node (fst (check_nodes sh query ns s)) = map Name (filter (\<lambda>n. CheckCommand n \<noteq> []) ns)"
  by (induction ns arbitrary: s) (auto simp: check_node_def split: prod.splits, (metis fst_conv)+)

lemma disagree_not_agree: "\<not> suffix agree_text (x @ disagree_text)"
  by (simp add: suffix_to_prefix agree_text_def disagree_text_def newline_def)

lemma render_ends:
  assumes "length rs > 1"
  shows "(suffix agree_text (Render rs) \<longleftrightarrow> (\<forall>r \<in> set rs. res_Output r = res_Output (hd rs)))
    \<and> (\<not> suffix agree_text (Render rs) \<longrightarrow> suffix disagree_text (Render rs))"
proof -
  let ?same = "\<forall>r \<in> set rs. res_Output r = res_Output (hd rs)"
  obtain pre where "Render rs = pre @ (if ?same then agree_text else disagree_text)"
    using assms by (simp add: Render_def agree_loop_start)
  then show ?thesis using disagree_not_agree by (auto simp: suffix_def)
qed

section \<open>Properties\<close>

text \<open>
  The verdict of the report. With results of two or more nodes the report ends in the
  sentence that all nodes agree exactly when every output is the same, and otherwise in the
  sentence that they disagree; the results are those of the nodes that have a check command,
  in the order of the configuration.
\<close>

theorem render_verdict:
  assumes "check_Run sh cfg query s = (rs, s')" "length rs > 1"
  shows "(suffix agree_text (Render rs) \<longleftrightarrow> (\<forall>r \<in> set rs. \<forall>r' \<in> set rs. res_Output r = res_Output r'))
    \<and> (\<not> suffix agree_text (Render rs) \<longrightarrow> suffix disagree_text (Render rs))
    \<and> map res_Node rs = map Name (filter (\<lambda>n. CheckCommand n \<noteq> []) (Nodes cfg))"
proof -
  let ?same = "\<forall>r \<in> set rs. res_Output r = res_Output (hd rs)"
  have "hd rs \<in> set rs" using assms(2) by (cases rs) auto
  then have same: "?same \<longleftrightarrow> (\<forall>r \<in> set rs. \<forall>r' \<in> set rs. res_Output r = res_Output r')" by metis
  with render_ends [OF assms(2)] check_nodes_results [of sh query "Nodes cfg" s] assms(1) show ?thesis
    by (simp add: check_Run_def)
qed

definition ex_check_node :: "string \<Rightarrow> string \<Rightarrow> Node" where
  "ex_check_node n cmd = \<lparr>Name = n, ListenAddr = [], UpstreamAddr = [], CheckCommand = cmd, Target = None, NodeRole = [], Stream = []\<rparr>"

definition ex_check_cfg :: Config where
  "ex_check_cfg = \<lparr>Nodes = [ex_check_node ''a'' ''qa {query}'', ex_check_node ''x'' [], ex_check_node ''b'' ''qb {query}''],
     Scenarios = [], ControlAddr = [], ControlToken = []\<rparr>"

definition ex_shell :: "unit shell" where
  "ex_shell cmd s = ((if take 2 cmd = ''qa'' then ''100 '' else ''90'', None), s)"

theorem render_verdict_witness:
  "suffix disagree_text (Render (fst (check_Run ex_shell ex_check_cfg ''q'' ())))"
proof -
  obtain rs s' where r: "check_Run ex_shell ex_check_cfg ''q'' () = (rs, s')" by (cases "check_Run ex_shell ex_check_cfg ''q'' ()")
  then have rs: "rs = [\<lparr>res_Node = ''a'', res_Output = ''100'', res_Err = None\<rparr>, \<lparr>res_Node = ''b'', res_Output = ''90'', res_Err = None\<rparr>]"
    by (simp add: check_Run_def ex_check_cfg_def ex_check_node_def check_node_def ex_shell_def ReplaceAll.simps TrimSpace_def is_space_def)
  then have "length rs > 1" by simp
  from render_verdict [OF r this] r rs show ?thesis by auto
qed

text \<open>Nodes that all fail with the same output are reported as agreeing.\<close>

lemma failing_nodes_agree:
  assumes "length rs > 1" "\<forall>r \<in> set rs. res_Err r = Some e \<and> res_Output r = out"
  shows "suffix agree_text (Render rs)"
proof -
  have "hd rs \<in> set rs" using assms(1) by (cases rs) auto
  with assms render_ends show ?thesis by simp
qed

text \<open>
  The query is put into the command as it is: a command that does not mention the
  placeholder runs unchanged, and otherwise the placeholder is replaced wherever it stands.
\<close>

lemma ReplaceAll_placeholder: "old \<noteq> [] \<Longrightarrow> ReplaceAll (old @ post) old new = new @ ReplaceAll post old new"
  by (subst ReplaceAll.simps) simp

lemma ReplaceAll_absent: "\<not> sublist old s \<Longrightarrow> ReplaceAll s old new = s"
proof (induction s old new rule: ReplaceAll.induct)
  case (1 s old new)
  show ?case
  proof (cases "s = [] \<or> old = []")
    case False
    have nt: "take (length old) s \<noteq> old"
      using "1.prems" by (metis sublist_def append_take_drop_id append_Nil)
    have "\<not> sublist old (tl s)" using "1.prems" by (metis sublist_tl sublist_order.order_trans)
    with "1.IH"(2) [OF False nt] False nt show ?thesis by (subst ReplaceAll.simps) simp
  qed (auto simp: ReplaceAll.simps)
qed

end
