(* ===== verification/Control.thy ===== *)
theory Control
  imports Catalog Check
begin

text \<open>
  The control API (\<^verbatim>\<open>internal/control/api.go\<close>): the bearer-token check, the route
  table and one definition per handler. The router is a third-party package and an argument:
  \<open>chi\<close> picks a route of the table it is given with the values of the path's parameters, or
  none (it answers 404 or 405 then). \<open>decode\<close> reads the body of a fault request; \<open>Codec\<close> has the
  decoder of the program and the bytes of the responses, here a response is its code with its
  body as a value. The server and its engine
  share one map of proxies. A scenario that a request starts runs in a goroutine of its own:
  it is added to \<open>spawned\<close>, and \<open>run_spawned\<close> runs it in one go; \<open>System\<close> interleaves
  its steps with everything else.
\<close>

section \<open>Requests and responses\<close>

record request =
  rq_Method :: string
  rq_Path :: string
  rq_Auth :: string
  rq_Query :: string
  rq_Body :: string

record NodeStatus =
  ns_Status :: proxy_Status
  ns_Role :: string
  ns_Target :: string
  ns_NodeFaults :: "string list"

record faultRequest =
  fr_Kind :: string
  fr_LatencyMs :: int
  fr_DropPercent :: int
  fr_Params :: "string \<rightharpoonup> any_val"
  fr_ForMs :: int

record checkResultJSON =
  cj_Node :: string
  cj_Output :: string
  cj_Error :: string
  Diverges :: bool

record checkResponse =
  Results :: "checkResultJSON list"
  Agree :: bool

datatype body =
    BText string
  | BEngineError engine_error
  | BStatuses "NodeStatus list"
  | BStatus proxy_Status
  | BKinds "KindInfo list"
  | BScenarios "Scenario list"
  | BMap "(string \<times> string) list"
  | BCheck checkResponse
  | BFile

record response =
  rs_Code :: nat
  rs_Authenticate :: "string option"
  rs_Body :: body

definition http_Error :: "nat \<Rightarrow> body \<Rightarrow> response" where
  "http_Error code b = \<lparr>rs_Code = code, rs_Authenticate = None, rs_Body = b\<rparr>"

definition writeJSON :: "nat \<Rightarrow> body \<Rightarrow> response" where
  "writeJSON code v = \<lparr>rs_Code = code, rs_Authenticate = None, rs_Body = v\<rparr>"

record 's server =
  sv_cfg :: Config
  sv_engine :: "'s engine"
  spawned :: "Scenario list"

definition NewServer :: "Config \<Rightarrow> 's engine \<Rightarrow> 's server" where
  "NewServer cfg e = \<lparr>sv_cfg = cfg, sv_engine = e, spawned = []\<rparr>"

section \<open>Handlers\<close>

fun describeTarget :: "NodeTarget \<Rightarrow> string" where
  "describeTarget (NodeTarget ty pid pidfile startc cont netw unit host inner) =
     (if ty = ''process'' then (if pid > 0 then ''process:'' @ show_int pid else ''process:'' @ pidfile)
      else if ty = ''docker'' then ''docker:'' @ cont
      else if ty = ''systemd'' then ''systemd:'' @ unit
      else if ty = ''ssh'' then
        (case inner of Some t \<Rightarrow> ''ssh:'' @ host @ ''/'' @ describeTarget t | None \<Rightarrow> ''ssh:'' @ host)
      else ty)"

fun status_loop :: "(string \<Rightarrow> string list) \<Rightarrow> Node list \<Rightarrow> 's engine \<Rightarrow> NodeStatus list \<times> 's engine" where
  "status_loop outstanding [] e = ([], e)"
| "status_loop outstanding (n # ns) e =
     (case map_of (Proxies e) (Name n) of
        None \<Rightarrow> status_loop outstanding ns e
      | Some p \<Rightarrow>
          (let st = \<lparr>ns_Status = fst (proxy_status p (net (e_net e))), ns_Role = NodeRole n,
                     ns_Target = (case Target n of None \<Rightarrow> [] | Some t \<Rightarrow> describeTarget t),
                     ns_NodeFaults = outstanding (Name n)\<rparr>
           in case status_loop outstanding ns (after_status p e) of (sts, e1) \<Rightarrow> (st # sts, e1)))"

definition handleStatus :: "'s server \<Rightarrow> response \<times> 's server" where
  "handleStatus s =
     (case status_loop (Outstanding (sv_engine s)) (Nodes (sv_cfg s)) (sv_engine s) of
        (sts, e) \<Rightarrow> (writeJSON 200 (BStatuses sts), s\<lparr>sv_engine := e\<rparr>))"

definition handleKinds :: "'s server \<Rightarrow> response \<times> 's server" where
  "handleKinds s = (writeJSON 200 (BKinds Catalog_all), s)"

text \<open>The response with a proxy's status, which also moves the engine's world.\<close>

definition respond_status :: "proxy \<Rightarrow> 's server \<Rightarrow> response \<times> 's server" where
  "respond_status p s =
     (writeJSON 200 (BStatus (fst (proxy_status p (net (e_net (sv_engine s)))))),
      s\<lparr>sv_engine := after_status p (sv_engine s)\<rparr>)"

definition handleFaultRemove ::
  "'s system \<Rightarrow> (instant \<Rightarrow> string) \<Rightarrow> string \<Rightarrow> string \<Rightarrow> 's server \<Rightarrow> response \<times> 's server" where
  "handleFaultRemove sys fmt node name s =
     (case RemoveFault sys fmt node name (sv_engine s) of
        (Inl err, e) \<Rightarrow> (http_Error 404 (BEngineError err), s\<lparr>sv_engine := e\<rparr>)
      | (Inr removed, e) \<Rightarrow>
          (let s1 = s\<lparr>sv_engine := e\<rparr>
           in if \<not> removed then (http_Error 404 (BText (''no fault '' @ name @ '' on '' @ node)), s1)
              else (case map_of (Proxies e) node of
                      Some p \<Rightarrow> respond_status p s1
                    | None \<Rightarrow> (writeJSON 200 (BMap [(''status'', ''removed''), (''fault'', name)]), s1))))"

definition step_of :: "string \<Rightarrow> faultRequest \<Rightarrow> FaultStep" where
  "step_of node req =
     \<lparr>step_Node = node, Kind = fr_Kind req, LatencyMs = fr_LatencyMs req, DropPercent = fr_DropPercent req,
      Params = fr_Params req, AfterMs = 0, ForMs = fr_ForMs req\<rparr>"

text \<open>\<open>p\<close> is a pointer: its status is that of the proxy after the step has been applied.\<close>

definition handleFault ::
  "'s system \<Rightarrow> (instant \<Rightarrow> string) \<Rightarrow> (string \<Rightarrow> string + faultRequest) \<Rightarrow> string \<Rightarrow> string \<Rightarrow> 's server \<Rightarrow> response \<times> 's server" where
  "handleFault sys fmt decode node bdy s =
     (case map_of (Proxies (sv_engine s)) node of
        None \<Rightarrow> (http_Error 404 (BText (''unknown node: '' @ node)), s)
      | Some p \<Rightarrow>
          (case decode bdy of
             Inl err \<Rightarrow> (http_Error 400 (BText err), s)
           | Inr req \<Rightarrow>
               (case engine_Apply sys fmt (step_of node req) (sv_engine s) of
                  (Some err, e) \<Rightarrow> (http_Error 400 (BEngineError err), s\<lparr>sv_engine := e\<rparr>)
                | (None, e) \<Rightarrow>
                    respond_status (case map_of (Proxies e) node of Some p' \<Rightarrow> p' | None \<Rightarrow> p) (s\<lparr>sv_engine := e\<rparr>))))"

definition handleScenarioRun :: "string \<Rightarrow> 's server \<Rightarrow> response \<times> 's server" where
  "handleScenarioRun name s =
     (case FindScenario (sv_cfg s) name of
        None \<Rightarrow> (http_Error 404 (BText (''unknown scenario: '' @ name)), s)
      | Some sc \<Rightarrow>
          (writeJSON 202 (BMap [(''status'', ''started''), (''scenario'', name)]), s\<lparr>spawned := spawned s @ [sc]\<rparr>))"

definition run_spawned :: "'s system \<Rightarrow> (instant \<Rightarrow> string) \<Rightarrow> 's server \<Rightarrow> 's server" where
  "run_spawned sys fmt s =
     (case spawned s of
        [] \<Rightarrow> s
      | sc # scs \<Rightarrow> s\<lparr>sv_engine := snd (engine_Run sys fmt None sc (sv_engine s)), spawned := scs\<rparr>)"

definition handleHeal :: "'s system \<Rightarrow> (instant \<Rightarrow> string) \<Rightarrow> 's server \<Rightarrow> response \<times> 's server" where
  "handleHeal sys fmt s =
     (writeJSON 200 (BMap [(''status'', ''healed'')]), s\<lparr>sv_engine := HealAll sys fmt (sv_engine s)\<rparr>)"

definition handleScenarios :: "'s server \<Rightarrow> response \<times> 's server" where
  "handleScenarios s = (writeJSON 200 (BScenarios (Scenarios (sv_cfg s))), s)"

definition check_rows :: "string \<Rightarrow> Result list \<Rightarrow> checkResultJSON list" where
  "check_rows first rs =
     map (\<lambda>(i, r). \<lparr>cj_Node = res_Node r, cj_Output = res_Output r,
            cj_Error = (case res_Err r of None \<Rightarrow> [] | Some e \<Rightarrow> e),
            Diverges = (i > 0 \<and> res_Output r \<noteq> first)\<rparr>) (enumerate 0 rs)"

definition handleCheck :: "'s shell \<Rightarrow> string \<Rightarrow> 's server \<Rightarrow> response \<times> 's server" where
  "handleCheck sh query s =
     (if query = [] then (http_Error 400 (BText ''missing query parameter''), s)
      else (case check_Run sh (sv_cfg s) query (machine (sv_engine s)) of
              (rs, m) \<Rightarrow>
                (case agree_loop 0 [] True rs of
                   (agree, first) \<Rightarrow>
                     (writeJSON 200 (BCheck \<lparr>Results = check_rows first rs, Agree = agree\<rparr>),
                      s\<lparr>sv_engine := (sv_engine s)\<lparr>machine := m\<rparr>\<rparr>))))"

section \<open>Routing and authentication\<close>

datatype handler =
    HIndex | HStatic | HStatus | HKinds | HFault | HFaultRemove | HScenarios | HScenarioRun | HHeal | HCheck

definition public_routes :: "(string \<times> string \<times> handler) list" where
  "public_routes = [(''GET'', ''/'', HIndex), (''*'', ''/static/*'', HStatic)]"

definition api_routes :: "(string \<times> string \<times> handler) list" where
  "api_routes =
     [(''GET'', ''/status'', HStatus), (''GET'', ''/kinds'', HKinds),
      (''POST'', ''/nodes/{node}/fault'', HFault), (''DELETE'', ''/nodes/{node}/faults/{name}'', HFaultRemove),
      (''GET'', ''/scenarios'', HScenarios), (''POST'', ''/scenarios/{name}/run'', HScenarioRun),
      (''POST'', ''/heal'', HHeal), (''GET'', ''/check'', HCheck)]"

definition bearer :: string where
  "bearer = ''Bearer ''"

text \<open>\<^verbatim>\<open>subtle.ConstantTimeCompare\<close> is 1 exactly for equal strings.\<close>

definition requireBearerToken ::
  "string \<Rightarrow> (request \<Rightarrow> 's \<Rightarrow> response \<times> 's) \<Rightarrow> request \<Rightarrow> 's \<Rightarrow> response \<times> 's" where
  "requireBearerToken token next_handler r s =
     (if \<not> prefix bearer (rq_Auth r) \<or> drop (length bearer) (rq_Auth r) \<noteq> token
      then (\<lparr>rs_Code = 401, rs_Authenticate = Some (''Bearer realm='' @ [CHR 0x22] @ ''dbfailsim'' @ [CHR 0x22]),
             rs_Body = BText ''unauthorized''\<rparr>, s)
      else next_handler r s)"

definition serve_api ::
  "'s system \<Rightarrow> (instant \<Rightarrow> string) \<Rightarrow> 's shell \<Rightarrow> (string \<Rightarrow> string + faultRequest) \<Rightarrow> handler \<Rightarrow> (string \<Rightarrow> string)
     \<Rightarrow> request \<Rightarrow> 's server \<Rightarrow> response \<times> 's server" where
  "serve_api sys fmt sh decode h ps r s =
     (case h of
        HStatus \<Rightarrow> handleStatus s
      | HKinds \<Rightarrow> handleKinds s
      | HFault \<Rightarrow> handleFault sys fmt decode (ps ''node'') (rq_Body r) s
      | HFaultRemove \<Rightarrow> handleFaultRemove sys fmt (ps ''node'') (ps ''name'') s
      | HScenarios \<Rightarrow> handleScenarios s
      | HScenarioRun \<Rightarrow> handleScenarioRun (ps ''name'') s
      | HHeal \<Rightarrow> handleHeal sys fmt s
      | HCheck \<Rightarrow> handleCheck sh (rq_Query r) s
      | _ \<Rightarrow> (writeJSON 200 BFile, s))"

type_synonym router = "(string \<times> string \<times> handler) list \<Rightarrow> request \<Rightarrow> (handler \<times> (string \<Rightarrow> string)) option"

definition Handler ::
  "'s system \<Rightarrow> (instant \<Rightarrow> string) \<Rightarrow> 's shell \<Rightarrow> (string \<Rightarrow> string + faultRequest) \<Rightarrow> router
     \<Rightarrow> request \<Rightarrow> 's server \<Rightarrow> response option \<times> 's server" where
  "Handler sys fmt sh decode chi r s =
     (case chi (public_routes @ api_routes) r of
        None \<Rightarrow> (None, s)
      | Some (h, ps) \<Rightarrow>
          if h \<in> (snd \<circ> snd) ` set public_routes then (Some (writeJSON 200 BFile), s)
          else (case (if ControlToken (sv_cfg s) \<noteq> []
                      then requireBearerToken (ControlToken (sv_cfg s)) (serve_api sys fmt sh decode h ps) r s
                      else serve_api sys fmt sh decode h ps r s) of
                  (resp, s1) \<Rightarrow> (Some resp, s1)))"

section \<open>Properties\<close>

lemma bearer_accepts: "prefix bearer a \<and> drop (length bearer) a = tok \<longleftrightarrow> a = bearer @ tok"
  by (auto simp: prefix_def)

lemma serve_api_cfg: "sv_cfg (snd (serve_api sys fmt sh decode h ps r s)) = sv_cfg s"
  by (auto simp: serve_api_def handleStatus_def handleKinds_def handleFault_def handleFaultRemove_def handleScenarios_def
      handleScenarioRun_def handleHeal_def handleCheck_def respond_status_def Let_def
      split: handler.splits option.splits sum.splits prod.splits)

text \<open>
  C32: the token guards the API. With a token configured, a request that does not carry
  exactly that token changes nothing (no fault, no scenario, no check command) and is answered
  with a public file, with 401, or by the router; a request that carries it is served as by a
  server without a token.
\<close>

theorem api_needs_token:
  assumes "ControlToken (sv_cfg s) \<noteq> []"
  shows "(rq_Auth r \<noteq> bearer @ ControlToken (sv_cfg s) \<longrightarrow>
      snd (Handler sys fmt sh decode chi r s) = s
      \<and> fst (Handler sys fmt sh decode chi r s) \<in> {None, Some (writeJSON 200 BFile)} \<union> {Some resp |resp. rs_Code resp = 401})
    \<and> (rq_Auth r = bearer @ ControlToken (sv_cfg s) \<longrightarrow>
      Handler sys fmt sh decode chi r s =
        (case chi (public_routes @ api_routes) r of
           None \<Rightarrow> (None, s)
         | Some (h, ps) \<Rightarrow> if h \<in> {HIndex, HStatic} then (Some (writeJSON 200 BFile), s)
             else (case serve_api sys fmt sh decode h ps r s of (resp, s1) \<Rightarrow> (Some resp, s1))))"
  using assms bearer_accepts [of "rq_Auth r" "ControlToken (sv_cfg s)"]
  by (auto simp: Handler_def requireBearerToken_def public_routes_def split: option.splits)

definition ex_server :: "string \<Rightarrow> string list list server" where
  "ex_server tok = NewServer (ex_check_cfg\<lparr>ControlToken := tok\<rparr>) ex_engine"

definition ex_request :: "string \<Rightarrow> string \<Rightarrow> string \<Rightarrow> request" where
  "ex_request meth path auth = \<lparr>rq_Method = meth, rq_Path = path, rq_Auth = auth, rq_Query = [], rq_Body = []\<rparr>"

definition ex_chi :: router where
  "ex_chi rts r = map_option (\<lambda>(_, _, h). (h, \<lambda>_. [])) (find (\<lambda>(meth, path, _). meth = rq_Method r \<and> path = rq_Path r) rts)"

definition ex_node_shell :: "string list list shell" where
  "ex_node_shell cmd s = (([], None), s)"

theorem api_needs_token_witness:
  "snd (Handler ex_remote (\<lambda>t. []) ex_node_shell (\<lambda>_. Inl []) ex_chi (ex_request ''POST'' ''/heal'' ''Bearer guess'') (ex_server ''secret''))
     = ex_server ''secret''"
  using api_needs_token [of "ex_server ''secret''" "ex_request ''POST'' ''/heal'' ''Bearer guess''" "ex_remote" "\<lambda>t. []" ex_node_shell "\<lambda>_. Inl []" ex_chi]
  by (simp add: ex_server_def NewServer_def ex_request_def bearer_def)

text \<open>
  A rejected fault request has no effect on the proxies. A request for a fault answers
  200 exactly when the node is known, the body decodes and the engine accepts the step the body
  describes; then the proxies are as that step leaves them. With any other answer the proxies
  are unchanged.
\<close>

theorem fault_request_outcome:
  assumes "handleFault sys fmt decode node bdy s = (resp, s')"
  shows "(rs_Code resp = 200 \<longleftrightarrow>
      node \<in> fst ` set (Proxies (sv_engine s))
      \<and> (\<exists>req. decode bdy = Inr req \<and> fst (engine_Apply sys fmt (step_of node req) (sv_engine s)) = None))
    \<and> (rs_Code resp = 200 \<longrightarrow> (\<exists>req. decode bdy = Inr req
         \<and> Proxies (sv_engine s') = Proxies (snd (engine_Apply sys fmt (step_of node req) (sv_engine s)))))
    \<and> (rs_Code resp \<noteq> 200 \<longrightarrow> Proxies (sv_engine s') = Proxies (sv_engine s))"
proof (cases "map_of (Proxies (sv_engine s)) node")
  case None
  then have "node \<notin> fst ` set (Proxies (sv_engine s))" by (simp add: map_of_eq_None_iff)
  with None assms show ?thesis by (auto simp: handleFault_def http_Error_def)
next
  case (Some p)
  then have n: "node \<in> fst ` set (Proxies (sv_engine s))" by (metis map_of_eq_None_iff option.distinct(1))
  show ?thesis
  proof (cases "decode bdy")
    case (Inl err)
    with Some assms show ?thesis by (auto simp: handleFault_def http_Error_def)
  next
    case (Inr req)
    obtain r e where a: "engine_Apply sys fmt (step_of node req) (sv_engine s) = (r, e)" by force
    then have "r = Some err \<Longrightarrow> Proxies e = Proxies (sv_engine s)" for err
      using apply_kind_frame [of sys fmt "step_of node req" _ "sv_engine s" err e]
      by (auto simp: engine_Apply_def split: sum.splits)
    with Some Inr a n assms show ?thesis
      by (cases r) (auto simp: handleFault_def http_Error_def respond_status_def writeJSON_def after_status_def)
  qed
qed

theorem fault_request_outcome_witness:
  "rs_Code (fst (handleFault ex_remote (\<lambda>t. []) (\<lambda>_. Inl ''bad'') ''a'' [] (ex_server []))) \<noteq> 200"
proof -
  obtain resp s' where h: "handleFault ex_remote (\<lambda>t. []) (\<lambda>_. Inl ''bad'') ''a'' [] (ex_server []) = (resp, s')" by fastforce
  from fault_request_outcome [OF h] h show ?thesis by simp
qed

text \<open>
  C36: the check endpoint and the report agree. The answer to a check lists the nodes that
  have a check command in the order of the configuration; a row diverges exactly when its
  output is not that of the first row, and the flag says whether no row does, which for two
  rows or more is the verdict that the report of the command line prints.
\<close>

theorem check_response_exact:
  assumes "query \<noteq> []" "check_Run sh (sv_cfg s) query (machine (sv_engine s)) = (rs, m)"
  shows "\<exists>c. fst (handleCheck sh query s) = writeJSON 200 (BCheck c)
    \<and> map cj_Node (Results c) = map Name (filter (\<lambda>n. CheckCommand n \<noteq> []) (Nodes (sv_cfg s)))
    \<and> map Diverges (Results c) = map (\<lambda>r. res_Output r \<noteq> res_Output (hd rs)) rs
    \<and> Agree c = list_all (\<lambda>x. \<not> Diverges x) (Results c)
    \<and> (length rs > 1 \<longrightarrow> Agree c = suffix agree_text (Render rs))"
proof -
  let ?same = "\<forall>r \<in> set rs. res_Output r = res_Output (hd rs)"
  let ?c = "\<lparr>Results = check_rows (if rs = [] then [] else res_Output (hd rs)) rs, Agree = ?same\<rparr>"
  have h: "fst (handleCheck sh query s) = writeJSON 200 (BCheck ?c)"
    using assms by (simp add: handleCheck_def agree_loop_start)
  have d: "map Diverges (Results ?c) = map (\<lambda>r. res_Output r \<noteq> res_Output (hd rs)) rs"
  proof (rule nth_equalityI)
    fix i assume "i < length (map Diverges (Results ?c))"
    then show "map Diverges (Results ?c) ! i = map (\<lambda>r. res_Output r \<noteq> res_Output (hd rs)) rs ! i"
      by (cases "i = 0"; cases rs) (simp_all add: check_rows_def nth_enumerate_eq)
  qed (simp add: check_rows_def)
  have "list_all (\<lambda>x. \<not> Diverges x) (Results ?c) \<longleftrightarrow> list_all Not (map Diverges (Results ?c))" by (simp add: list.pred_map comp_def)
  then have a: "list_all (\<lambda>x. \<not> Diverges x) (Results ?c) \<longleftrightarrow> ?same" unfolding d by (auto simp: list_all_iff)
  have n: "map cj_Node (Results ?c) = map res_Node rs"
    by (auto simp: check_rows_def enumerate_eq_zip intro!: nth_equalityI)
  have v: "length rs > 1 \<Longrightarrow> ?same = suffix agree_text (Render rs)"
    using render_ends [of rs] by simp
  show ?thesis
    using h d a n v check_nodes_results [of sh query "Nodes (sv_cfg s)" "machine (sv_engine s)"] assms(2)
    by (intro exI [of _ ?c]) (simp add: check_Run_def)
qed

theorem check_response_exact_witness:
  "\<exists>c. fst (handleCheck ex_node_shell ''select 1'' (ex_server [])) = writeJSON 200 (BCheck c)
     \<and> map cj_Node (Results c) = [''a'', ''b''] \<and> Agree c"
proof -
  let ?r = "\<lambda>n. \<lparr>res_Node = n, res_Output = [], res_Err = None\<rparr>"
  obtain m where r: "check_Run ex_node_shell (sv_cfg (ex_server [])) ''select 1'' (machine (sv_engine (ex_server []))) = ([?r ''a'', ?r ''b''], m)"
    by (simp add: check_Run_def ex_server_def NewServer_def ex_check_cfg_def ex_check_node_def check_node_def ex_node_shell_def TrimSpace_def)
  from check_response_exact [OF _ r] obtain c where
    c: "fst (handleCheck ex_node_shell ''select 1'' (ex_server [])) = writeJSON 200 (BCheck c)"
    "map cj_Node (Results c) = map Name (filter (\<lambda>n. CheckCommand n \<noteq> []) (Nodes (sv_cfg (ex_server []))))"
    "map Diverges (Results c) = [False, False]" "Agree c = list_all (\<lambda>x. \<not> Diverges x) (Results c)"
    by auto
  then have "Agree c" by (auto simp: Cons_eq_map_conv)
  with c(1,2) show ?thesis by (auto simp: ex_server_def NewServer_def ex_check_cfg_def ex_check_node_def)
qed

text \<open>
  What the dashboard shows of a target is what its driver calls itself, with the host in
  front for ssh.
\<close>

lemma describe_target:
  assumes "NewDriver (toSpec t) = Inr d"
  shows "describeTarget t = (if TType t = ''ssh'' then ''ssh:'' @ Host t @ ''/'' @ Describe d else Describe d)"
proof -
  have plain: "newDriver (toSpec u) ex = Inr d \<Longrightarrow> TType u \<noteq> ''ssh'' \<Longrightarrow> describeTarget u = Describe d" for u ex
    by (cases u) (auto split: if_splits)
  have ty: "ts_Type (toSpec u) = TType u" for u by (cases u) simp
  show ?thesis
  proof (cases t)
    case (NodeTarget ty pid pidfile startc cont netw unit host inner)
    show ?thesis
    proof (cases "ty = ''ssh''")
      case True
      with assms NodeTarget obtain u where "inner = Some u" "TType u \<noteq> ''ssh''" "newDriver (toSpec u) (Some (SSHExecutor host None)) = Inr d"
        by (auto simp: NewDriver_def \<open>\<And>u. ts_Type (toSpec u) = TType u\<close> split: option.splits if_splits)
      with True NodeTarget plain show ?thesis by simp
    next
      case False
      with assms NodeTarget plain [of t None] show ?thesis by (simp add: NewDriver_def)
    qed
  qed
qed

text \<open>A started scenario is one of the configuration, and nothing has happened yet when the answer is sent.\<close>

lemma scenario_run_accepts:
  "handleScenarioRun name s = (resp, s') \<Longrightarrow>
     (rs_Code resp = 202 \<longleftrightarrow> (\<exists>sc \<in> set (Scenarios (sv_cfg s)). sc_Name sc = name)) \<and> sv_engine s' = sv_engine s"
  by (auto simp: handleScenarioRun_def FindScenario_def http_Error_def writeJSON_def find_None_iff find_Some_iff split: option.splits)

end
