(* ===== verification/Json.thy ===== *)
theory Json
  imports Go_Time
begin

text \<open>
  What the program uses of Go's \<^verbatim>\<open>encoding/json\<close> (and of \<^verbatim>\<open>unicode/utf8\<close> under it): the
  compact writer with its escapes, and the reader, a scanner with a stack of open
  objects and arrays (at most 10000 deep) over the tokens of the input. A value keeps its
  numbers as they are written, since the reader's target decides what they mean. The main
  fact is the round trip: reading what was written gives the value back.
\<close>

section \<open>UTF-8\<close>

definition backslash :: char where "backslash = CHR 0x5C"
definition dquote :: char where "dquote = CHR 0x22"

definition next_rune :: "string \<Rightarrow> nat \<times> nat" where
  "next_rune s = decode_rune (map of_char s)"

definition EncodeRune :: "nat \<Rightarrow> nat list" where
  "EncodeRune r =
     (if r < 128 then [r]
      else if r < 2048 then [192 + r div 64, 128 + r mod 64]
      else if (55296 \<le> r \<and> r < 57344) \<or> 1114111 < r then [239, 191, 189]
      else if r < 65536 then [224 + r div 4096, 128 + r div 64 mod 64, 128 + r mod 64]
      else [240 + r div 262144, 128 + r div 4096 mod 64, 128 + r div 64 mod 64, 128 + r mod 64])"

definition utf8 :: "nat \<Rightarrow> string" where
  "utf8 r = map char_of (EncodeRune r)"

lemma next_rune_width: "next_rune s = (w, r) \<Longrightarrow> 1 \<le> w"
  unfolding next_rune_def by (rule decode_rune_width)

lemma next_rune_short: "next_rune (c # s) = (w, r) \<Longrightarrow> length (drop w (c # s)) < Suc (length s)"
  using next_rune_width [of "c # s" w r] by (simp add: less_Suc_eq_le)

section \<open>Strings\<close>

definition hex_lower :: "nat \<Rightarrow> char" where
  "hex_lower n = (if n < 10 then char_of (48 + n) else char_of (87 + n))"

text \<open>The bytes below 128 that are written as they are: HTML-sensitive ones are not.\<close>

definition html_safe :: "char \<Rightarrow> bool" where
  "html_safe c \<longleftrightarrow> 32 \<le> (of_char c :: nat) \<and> c \<notin> {dquote, backslash, CHR ''<'', CHR ''>'', CHR ''&''}"

definition escape_ascii :: "char \<Rightarrow> string" where
  "escape_ascii c =
     (let b = (of_char c :: nat)
      in if html_safe c then [c]
         else if c = backslash \<or> c = dquote then [backslash, c]
         else if c = CHR 0x08 then [backslash, CHR ''b'']
         else if c = CHR 0x0C then [backslash, CHR ''f'']
         else if c = CHR 0x0A then [backslash, CHR ''n'']
         else if c = CHR 0x0D then [backslash, CHR ''r'']
         else if c = CHR 0x09 then [backslash, CHR ''t'']
         else backslash # ''u00'' @ [hex_lower (b div 16), hex_lower (b mod 16)])"

text \<open>A byte that starts no rune is written as U+FFFD, and the two line separators are escaped.\<close>

definition escape_rune :: "nat \<Rightarrow> nat \<Rightarrow> string \<Rightarrow> string" where
  "escape_rune w r s =
     (if w = 1 then backslash # ''ufffd''
      else if r = 8232 then backslash # ''u2028''
      else if r = 8233 then backslash # ''u2029''
      else take w s)"

function escape :: "string \<Rightarrow> string" where
  "escape [] = []"
| "escape (c # s) =
     (if (of_char c :: nat) < 128 then escape_ascii c @ escape s
      else case next_rune (c # s) of (w, r) \<Rightarrow> escape_rune w r (c # s) @ escape (drop w (c # s)))"
  by pat_completeness auto
termination
  by (relation "measure length") (auto dest!: sym [THEN next_rune_short])

definition quote_string :: "string \<Rightarrow> string" where
  "quote_string s = dquote # escape s @ [dquote]"

definition hex_val :: "char \<Rightarrow> nat option" where
  "hex_val c =
     (let b = (of_char c :: nat)
      in if is_digit c then Some (b - 48)
         else if 97 \<le> b \<and> b \<le> 102 then Some (b - 87)
         else if 65 \<le> b \<and> b \<le> 70 then Some (b - 55)
         else None)"

fun hex4 :: "string \<Rightarrow> (nat \<times> string) option" where
  "hex4 (a # b # c # d # s) =
     (case (hex_val a, hex_val b, hex_val c, hex_val d) of
        (Some i, Some j, Some k, Some l) \<Rightarrow> Some (((i * 16 + j) * 16 + k) * 16 + l, s)
      | _ \<Rightarrow> None)"
| "hex4 _ = None"

text \<open>A pair of surrogates is one rune; a lone one is U+FFFD.\<close>

definition surrogate_pair :: "nat \<Rightarrow> string \<Rightarrow> string \<times> string" where
  "surrogate_pair r s =
     (case s of
        b # u # s1 \<Rightarrow>
          (case hex4 s1 of
             Some (r2, s2) \<Rightarrow>
               if b = backslash \<and> u = CHR ''u'' \<and> r < 56320 \<and> 56320 \<le> r2 \<and> r2 < 57344
               then (utf8 ((r - 55296) * 1024 + (r2 - 56320) + 65536), s2)
               else (utf8 65533, s)
           | None \<Rightarrow> (utf8 65533, s))
      | _ \<Rightarrow> (utf8 65533, s))"

definition simple_escapes :: "(char \<times> char) list" where
  "simple_escapes =
     [(dquote, dquote), (backslash, backslash), (CHR ''/'', CHR ''/''), (CHR ''b'', CHR 0x08), (CHR ''f'', CHR 0x0C),
      (CHR ''n'', CHR 0x0A), (CHR ''r'', CHR 0x0D), (CHR ''t'', CHR 0x09)]"

text \<open>What follows a backslash.\<close>

fun unescape :: "string \<Rightarrow> (string \<times> string) option" where
  "unescape [] = None"
| "unescape (e # s) =
     (case map_of simple_escapes e of
        Some c \<Rightarrow> Some ([c], s)
      | None \<Rightarrow>
          if e = CHR ''u'' then
            (case hex4 s of
               None \<Rightarrow> None
             | Some (r, s1) \<Rightarrow> if 55296 \<le> r \<and> r < 57344 then Some (surrogate_pair r s1) else Some (utf8 r, s1))
          else None)"

lemma hex4_length: "hex4 s = Some (r, s') \<Longrightarrow> length s' < length s"
  by (induction s rule: hex4.induct) (auto split: option.splits)

lemma surrogate_pair_length: "surrogate_pair r s = (t, s') \<Longrightarrow> length s' \<le> length s"
  by (auto simp: surrogate_pair_def split: list.splits option.splits if_splits dest!: hex4_length)

lemma unescape_length: "unescape s = Some (t, s') \<Longrightarrow> length s' < length s"
  by (cases s) (auto split: option.splits if_splits dest!: hex4_length surrogate_pair_length)

text \<open>The rest of a string literal after its opening quote; the second component follows the closing one.\<close>

function unquote :: "string \<Rightarrow> (string \<times> string) option" where
  "unquote [] = None"
| "unquote (c # s) =
     (if c = dquote then Some ([], s)
      else if c = backslash then
        (case unescape s of
           None \<Rightarrow> None
         | Some (t, s1) \<Rightarrow> map_option (\<lambda>(u, r). (t @ u, r)) (unquote s1))
      else if (of_char c :: nat) < 32 then None
      else if (of_char c :: nat) < 128 then map_option (\<lambda>(u, r). (c # u, r)) (unquote s)
      else case next_rune (c # s) of
        (w, rn) \<Rightarrow> map_option (\<lambda>(u, r). (utf8 rn @ u, r)) (unquote (drop w (c # s))))"
  by pat_completeness auto
termination
  by (relation "measure length") (auto dest!: sym [THEN next_rune_short] unescape_length)

lemma unquote_length: "unquote s = Some (t, s') \<Longrightarrow> length s' < length s"
proof (induction s arbitrary: t s' rule: unquote.induct)
  case (2 c s)
  show ?case
  proof (cases "c = dquote \<or> c = backslash \<or> (of_char c :: nat) < 128")
    case True
    with 2 show ?thesis by (fastforce split: if_splits option.splits dest: unescape_length)
  next
    case False
    obtain w rn where n: "next_rune (c # s) = (w, rn)" by force
    with False "2.prems" obtain u where "unquote (drop w (c # s)) = Some (u, s')" by (auto split: if_splits)
    with "2.IH"(3) [OF _ _ _ _ n [symmetric]] False next_rune_short [OF n] show ?thesis by fastforce
  qed
qed simp

section \<open>Strings are read back\<close>

text \<open>
  A string with its runes written out again: the same string when it is valid UTF-8, with
  U+FFFD for every byte that starts no rune otherwise.
\<close>

definition to_valid :: "string \<Rightarrow> string" where
  "to_valid s = concat (map utf8 (runes s))"

definition valid_utf8 :: "string \<Rightarrow> bool" where
  "valid_utf8 s \<longleftrightarrow> to_valid s = s"

lemma to_valid_Nil [simp]: "to_valid [] = []"
  by (simp add: to_valid_def runes_def)

lemma to_valid_Cons: "next_rune (c # s) = (w, r) \<Longrightarrow> to_valid (c # s) = utf8 r @ to_valid (drop w (c # s))"
proof -
  assume n: "next_rune (c # s) = (w, r)"
  have "drop w (of_char c # map of_char s :: nat list) = map of_char (drop w (c # s))" using drop_map [of w "of_char :: char \<Rightarrow> nat" "c # s"] by simp
  with n show ?thesis by (simp add: to_valid_def runes_def next_rune_def)
qed

lemma next_rune_ascii: "(of_char c :: nat) < 128 \<Longrightarrow> next_rune (c # s) = (1, of_char c)"
  by (simp add: next_rune_def decode_rune_def)

lemma utf8_ascii: "(of_char c :: nat) < 128 \<Longrightarrow> utf8 (of_char c) = [c]"
  by (simp add: utf8_def EncodeRune_def)

lemma to_valid_ascii: "(of_char c :: nat) < 128 \<Longrightarrow> to_valid (c # s) = c # to_valid s"
  using to_valid_Cons [OF next_rune_ascii [of c s]] by (simp add: utf8_ascii)

lemma ascii_valid: "\<forall>c \<in> set s. (of_char c :: nat) < 128 \<Longrightarrow> valid_utf8 s"
  by (induction s) (auto simp: valid_utf8_def to_valid_ascii)

lemma hex_val_lower: "n < 16 \<Longrightarrow> hex_val (hex_lower n) = Some n"
  by (auto simp: hex_val_def hex_lower_def is_digit_def less_eq_char_def Let_def)

lemma hex_val_zero: "hex_val (CHR ''0'') = Some 0"
  by (simp add: hex_val_def is_digit_def less_eq_char_def)

lemma hex4_byte: "n < 256 \<Longrightarrow> hex4 (CHR ''0'' # CHR ''0'' # hex_lower (n div 16) # hex_lower (n mod 16) # s) = Some (n, s)"
  by (simp add: hex_val_lower hex_val_zero)

lemma escape_ascii_cases:
  "html_safe c \<and> escape_ascii c = [c] \<or> (\<exists>e. escape_ascii c = [backslash, e] \<and> map_of simple_escapes e = Some c)
   \<or> escape_ascii c = backslash # ''u00'' @ [hex_lower (of_char c div 16), hex_lower (of_char c mod 16)]"
  by (simp add: escape_ascii_def simple_escapes_def dquote_def backslash_def Let_def)

lemma unquote_escaped: "unescape t = Some ([c], s) \<Longrightarrow> unquote (backslash # t) = map_option (\<lambda>(u, r). (c # u, r)) (unquote s)"
  by (simp add: backslash_def dquote_def)

lemma unquote_ascii:
  assumes "(of_char c :: nat) < 128"
  shows "unquote (escape_ascii c @ s) = map_option (\<lambda>(u, r). (c # u, r)) (unquote s)"
  using escape_ascii_cases [of c]
proof (elim disjE exE conjE)
  assume "html_safe c" "escape_ascii c = [c]"
  with assms show ?thesis by (simp add: html_safe_def)
next
  fix e
  assume "escape_ascii c = [backslash, e]" "map_of simple_escapes e = Some c"
  then show ?thesis using unquote_escaped [of "e # s" c s] by simp
next
  assume e: "escape_ascii c = backslash # ''u00'' @ [hex_lower (of_char c div 16), hex_lower (of_char c mod 16)]"
  have "map_of simple_escapes (CHR ''u'') = None" by (simp add: simple_escapes_def dquote_def backslash_def)
  then have "unescape (CHR ''u'' # CHR ''0'' # CHR ''0'' # hex_lower (of_char c div 16) # hex_lower (of_char c mod 16) # s) = Some ([c], s)"
    using assms by (simp add: hex4_byte utf8_ascii del: hex4.simps)
  from unquote_escaped [OF this] show ?thesis by (simp add: e)
qed

text \<open>A rune of several bytes is recognised by these bytes alone.\<close>

lemma decode_rune_prefix:
  assumes "decode_rune bs = (w, r)" "2 \<le> w"
  shows "decode_rune (take w bs @ xs) = (w, r) \<and> w \<le> length bs"
proof -
  have c: "cont_in lo hi t \<Longrightarrow> t \<noteq> [] \<and> lo \<le> hd t \<and> hd t \<le> hi" for lo hi t by (cases t) auto
  consider "w = 2" "194 \<le> hd bs" "hd bs \<le> 223" "cont_in 128 191 (drop 1 bs)" "\<not> hd bs < 128"
    | "w = 3" "224 \<le> hd bs" "hd bs \<le> 239" "cont_in (if hd bs = 224 then 160 else 128) (if hd bs = 237 then 159 else 191) (drop 1 bs)" "cont_in 128 191 (drop 2 bs)"
    | "w = 4" "240 \<le> hd bs" "hd bs \<le> 244" "cont_in (if hd bs = 240 then 144 else 128) (if hd bs = 244 then 143 else 191) (drop 1 bs)" "cont_in 128 191 (drop 2 bs)" "cont_in 128 191 (drop 3 bs)"
    using assms by (auto simp: decode_rune_def Let_def split: if_splits)
  then show ?thesis
  proof cases
    case 1
    then obtain a b cs where "bs = a # b # cs" by (cases bs; cases "tl bs") auto
    with 1 assms show ?thesis by (simp add: decode_rune_def Let_def)
  next
    case 2
    then obtain a b d cs where "bs = a # b # d # cs" by (cases bs; cases "tl bs"; cases "tl (tl bs)") auto
    with 2 assms show ?thesis by (simp add: decode_rune_def Let_def)
  next
    case 3
    then obtain a b d e cs where "bs = a # b # d # e # cs"
      by (cases bs; cases "tl bs"; cases "tl (tl bs)"; cases "tl (tl (tl bs))") auto
    with 3 assms show ?thesis by (simp add: decode_rune_def Let_def)
  qed
qed

lemma next_rune_prefix:
  assumes "next_rune s = (w, r)" "2 \<le> w"
  shows "next_rune (take w s @ t) = (w, r) \<and> w \<le> length s"
  using decode_rune_prefix [of "map of_char s" w r "map of_char t"] assms by (simp add: next_rune_def take_map)

lemma next_rune_invalid: "next_rune (c # s) = (1, r) \<Longrightarrow> \<not> (of_char c :: nat) < 128 \<Longrightarrow> r = 65533"
  by (simp add: next_rune_def decode_rune_def Let_def split: if_splits)

lemma hex_val_consts:
  "hex_val (CHR ''2'') = Some 2" "hex_val (CHR ''8'') = Some 8" "hex_val (CHR ''9'') = Some 9"
  "hex_val (CHR ''d'') = Some 13" "hex_val (CHR ''f'') = Some 15"
  by (simp_all add: hex_val_def is_digit_def less_eq_char_def)

lemma unquote_rune:
  assumes "next_rune (c # s) = (w, rn)" "\<not> (of_char c :: nat) < 128"
  shows "unquote (escape_rune w rn (c # s) @ t) = map_option (\<lambda>(u, r). (utf8 rn @ u, r)) (unquote t)"
proof -
  have u: "unquote (backslash # e) = map_option (\<lambda>(u, r). (utf8 rn @ u, r)) (unquote t)" if "unescape e = Some (utf8 rn, t)" for e
    using that by (simp add: backslash_def dquote_def)
  have x: "map_of simple_escapes (CHR ''u'') = None" "backslash \<noteq> dquote" by (simp_all add: simple_escapes_def dquote_def backslash_def)
  show ?thesis
  proof (cases "w = 1 \<or> rn = 8232 \<or> rn = 8233")
    case True
    with next_rune_invalid [of c s rn] assms show ?thesis
      by (auto simp: escape_rune_def hex_val_consts hex_val_zero x intro!: u)
  next
    case False
    then have w: "2 \<le> w" using next_rune_width [OF assms(1)] by simp
    note p = next_rune_prefix [OF assms(1) w, of t]
    from w obtain s1 where s1: "take w (c # s) @ t = c # s1" by (cases w) auto
    have "drop w (c # s1) = t" using p unfolding s1 [symmetric] by simp
    moreover have "c \<noteq> dquote" "c \<noteq> backslash" using assms(2) by (auto simp: dquote_def backslash_def)
    moreover have "next_rune (c # s1) = (w, rn)" using p unfolding s1 by simp
    ultimately show ?thesis using assms(2) False by (simp add: escape_rune_def s1)
  qed
qed

lemma unquote_escape: "unquote (escape s @ dquote # r) = Some (to_valid s, r)"
proof (induction s rule: escape.induct)
  case (2 c s)
  show ?case
  proof (cases "(of_char c :: nat) < 128")
    case True
    with 2 show ?thesis by (simp add: unquote_ascii to_valid_ascii)
  next
    case False
    obtain w rn where n: "next_rune (c # s) = (w, rn)" by force
    with 2(2) [OF False n [symmetric]] False show ?thesis by (simp add: unquote_rune [OF n False] to_valid_Cons [OF n])
  qed
qed simp

text \<open>What is read from a literal is valid UTF-8, whatever the literal.\<close>

definition scalar :: "nat \<Rightarrow> nat" where
  "scalar r = (if (55296 \<le> r \<and> r < 57344) \<or> 1114111 < r then 65533 else r)"

lemma decode_two: "2 \<le> h \<Longrightarrow> h < 32 \<Longrightarrow> l < 64 \<Longrightarrow> decode_rune ((192 + h) # (128 + l) # xs) = (2, h * 64 + l)"
  by (simp add: decode_rune_def Let_def)

lemma decode_three:
  assumes "h < 16" "m < 64" "l < 64" "h = 0 \<Longrightarrow> 32 \<le> m" "h = 13 \<Longrightarrow> m < 32"
  shows "decode_rune ((224 + h) # (128 + m) # (128 + l) # xs) = (3, h * 4096 + m * 64 + l)"
proof -
  have "cont_in (if 224 + h = 224 then 160 else 128) (if 224 + h = 237 then 159 else 191) ((128 + m) # (128 + l) # xs)"
    using assms by auto
  with assms(1,3) show ?thesis by (simp add: decode_rune_def Let_def)
qed

lemma decode_four:
  assumes "h < 5" "n < 64" "m < 64" "l < 64" "h = 0 \<Longrightarrow> 16 \<le> n" "h = 4 \<Longrightarrow> n < 16"
  shows "decode_rune ((240 + h) # (128 + n) # (128 + m) # (128 + l) # xs) = (4, h * 262144 + n * 4096 + m * 64 + l)"
proof -
  have "cont_in (if 240 + h = 240 then 144 else 128) (if 240 + h = 244 then 143 else 191) ((128 + n) # (128 + m) # (128 + l) # xs)"
    using assms by auto
  with assms(1,3,4) show ?thesis by (simp add: decode_rune_def Let_def)
qed

lemma decode_encode:
  assumes "\<not> (55296 \<le> r \<and> r < 57344)" "r \<le> 1114111"
  shows "decode_rune (EncodeRune r @ xs) = (length (EncodeRune r), r)"
proof -
  define l m n h q where "l = r mod 64" and "m = r div 64 mod 64" and "n = r div 4096 mod 64" and "h = r div 4096" and "q = r div 262144"
  have b: "l < 64" "m < 64" "n < 64" by (simp_all add: l_def m_def n_def)
  have rl: "r = r div 64 * 64 + l" by (simp add: l_def)
  have rm: "r div 64 = h * 64 + m" by (simp add: h_def m_def div_mult2_eq [of r 64 64, simplified])
  have rn: "h = q * 64 + n" by (simp add: h_def n_def q_def div_mult2_eq [of r 4096 64, simplified])
  consider "r < 128" | "128 \<le> r" "r < 2048" | "2048 \<le> r" "r < 65536" | "65536 \<le> r" by linarith
  then show ?thesis
  proof cases
    case 1
    then show ?thesis by (simp add: EncodeRune_def decode_rune_def)
  next
    case 2
    have "EncodeRune r = [192 + r div 64, 128 + l]" using 2 by (simp add: EncodeRune_def l_def)
    moreover have "decode_rune ((192 + r div 64) # (128 + l) # xs) = (2, r div 64 * 64 + l)"
      by (rule decode_two) (use 2 rl b in linarith)+
    ultimately show ?thesis using rl by simp
  next
    case 3
    have "EncodeRune r = [224 + h, 128 + m, 128 + l]" using 3 assms by (auto simp: EncodeRune_def l_def m_def h_def)
    moreover have "decode_rune ((224 + h) # (128 + m) # (128 + l) # xs) = (3, h * 4096 + m * 64 + l)"
      by (rule decode_three) (use 3 rl rm b assms in linarith)+
    ultimately show ?thesis using rl rm by simp
  next
    case 4
    have "EncodeRune r = [240 + q, 128 + n, 128 + m, 128 + l]" using 4 assms by (auto simp: EncodeRune_def l_def m_def n_def q_def)
    moreover have "decode_rune ((240 + q) # (128 + n) # (128 + m) # (128 + l) # xs) = (4, q * 262144 + n * 4096 + m * 64 + l)"
      by (rule decode_four) (use 4 rl rm rn b assms in linarith)+
    ultimately show ?thesis using rl rm rn by simp
  qed
qed

lemma EncodeRune_scalar: "EncodeRune r = EncodeRune (scalar r)" "utf8 (scalar r) = utf8 r"
  by (auto simp: EncodeRune_def scalar_def utf8_def)

lemma EncodeRune_byte: "b \<in> set (EncodeRune r) \<Longrightarrow> b < 256"
proof -
  have "scalar r \<le> 1114111" by (simp add: scalar_def)
  then have "scalar r div 262144 \<le> 4" using div_le_mono [of "scalar r" 1114111 262144] by simp
  moreover have "scalar r < 65536 \<Longrightarrow> scalar r div 4096 < 16" "scalar r < 2048 \<Longrightarrow> scalar r div 64 < 32" by (simp_all add: less_mult_imp_div_less)
  moreover have "scalar r mod 64 < 64" "scalar r div 64 mod 64 < 64" "scalar r div 4096 mod 64 < 64" by simp_all
  moreover assume "b \<in> set (EncodeRune r)"
  then have "b \<in> set (EncodeRune (scalar r))" by (simp only: EncodeRune_scalar(1) [of r, symmetric])
  ultimately show "b < 256" by (auto simp: EncodeRune_def split: if_splits)
qed

lemma next_rune_utf8: "next_rune (utf8 r @ s) = (length (utf8 r), scalar r)"
proof -
  have "map of_char (utf8 r) = EncodeRune r" using EncodeRune_byte [of _ r] by (simp add: utf8_def map_idI)
  moreover have "decode_rune (EncodeRune (scalar r) @ xs) = (length (EncodeRune (scalar r)), scalar r)" for xs
    by (rule decode_encode) (simp_all add: scalar_def)
  ultimately show ?thesis by (simp add: next_rune_def EncodeRune_scalar(1) [of r, symmetric]) (simp add: utf8_def)
qed

lemma to_valid_utf8: "to_valid (utf8 r @ s) = utf8 r @ to_valid s"
proof -
  obtain c t where c: "utf8 r = c # t" by (cases "utf8 r") (auto simp: utf8_def EncodeRune_def split: if_splits)
  with to_valid_Cons [of c "t @ s"] next_rune_utf8 [of r s] show ?thesis by (simp add: EncodeRune_scalar)
qed

lemma unquote_valid: "unquote s = Some (t, r) \<Longrightarrow> valid_utf8 t"
proof (induction s arbitrary: t r rule: unquote.induct)
  case (2 c s)
  have e: "u \<in> range utf8" if "unescape s = Some (u, s1)" for u s1
  proof (cases s)
    case (Cons e s')
    have "map_of simple_escapes e = Some x \<Longrightarrow> (of_char x :: nat) < 128" for x
      by (auto simp: simple_escapes_def dquote_def backslash_def split: if_splits)
    then have "map_of simple_escapes e = Some x \<Longrightarrow> [x] \<in> range utf8" for x using utf8_ascii by (metis rangeI)
    with that Cons show ?thesis by (auto simp: surrogate_pair_def split: option.splits if_splits list.splits)
  qed (use that in simp)
  show ?case
  proof (cases "c = dquote \<or> (of_char c :: nat) < 32 \<and> c \<noteq> backslash")
    case True
    with "2.prems" show ?thesis by (auto simp: valid_utf8_def split: if_splits)
  next
    case False
    have "\<exists>k u. t = utf8 k @ u \<and> valid_utf8 u"
    proof (cases "c = backslash")
      case True
      with False "2.prems" obtain v s1 u where "unescape s = Some (v, s1)" "unquote s1 = Some (u, r)" "t = v @ u"
        by (auto split: option.splits simp: backslash_def dquote_def)
      with "2.IH"(1) [OF _ True] e False show ?thesis by fastforce
    next
      case ne: False
      show ?thesis
      proof (cases "(of_char c :: nat) < 128")
        case True
        with False ne "2.prems" obtain u where "unquote s = Some (u, r)" "t = c # u" by (auto split: if_splits)
        with "2.IH"(2) False ne True utf8_ascii [OF True] show ?thesis by (metis append_Cons append_Nil)
      next
        case nonascii: False
        obtain w rn where n: "next_rune (c # s) = (w, rn)" by force
        with False ne nonascii "2.prems" obtain u where "unquote (drop w (c # s)) = Some (u, r)" "t = utf8 rn @ u" by auto
        with "2.IH"(3) [OF _ ne _ nonascii n [symmetric]] False ne show ?thesis by blast
      qed
    qed
    then show ?thesis by (auto simp: valid_utf8_def to_valid_utf8)
  qed
qed simp

section \<open>Numbers\<close>

text \<open>
  A number as the scanner takes it from the input: an optional minus, an integer without
  leading zeros, a fraction, an exponent. \<open>None\<close> where the scanner reports an error.
\<close>

definition scan_digits :: "string \<Rightarrow> (string \<times> string) option" where
  "scan_digits s = (if s = [] \<or> \<not> is_digit (hd s) then None else Some (takeWhile is_digit s, dropWhile is_digit s))"

definition scan_int :: "string \<Rightarrow> (string \<times> string) option" where
  "scan_int s = (if s \<noteq> [] \<and> hd s = CHR ''0'' then Some (''0'', tl s) else scan_digits s)"

definition scan_frac :: "string \<Rightarrow> (string \<times> string) option" where
  "scan_frac s =
     (if s \<noteq> [] \<and> hd s = CHR ''.'' then map_option (\<lambda>(d, r). (CHR ''.'' # d, r)) (scan_digits (tl s))
      else Some ([], s))"

definition scan_exp :: "string \<Rightarrow> (string \<times> string) option" where
  "scan_exp s =
     (if s \<noteq> [] \<and> hd s \<in> {CHR ''e'', CHR ''E''} then
        (let sg = (if tl s \<noteq> [] \<and> hd (tl s) \<in> {CHR ''+'', CHR ''-''} then [hd (tl s)] else [])
         in map_option (\<lambda>(d, r). (hd s # sg @ d, r)) (scan_digits (drop (length sg) (tl s))))
      else Some ([], s))"

record number =
  n_neg :: bool
  n_int :: string
  n_frac :: string
  n_exp :: string

definition scan_number :: "string \<Rightarrow> (number \<times> string) option" where
  "scan_number s =
     (let neg = (s \<noteq> [] \<and> hd s = CHR ''-'')
      in case scan_int (if neg then tl s else s) of
           None \<Rightarrow> None
         | Some (i, s1) \<Rightarrow>
             (case scan_frac s1 of
                None \<Rightarrow> None
              | Some (f, s2) \<Rightarrow>
                  (case scan_exp s2 of
                     None \<Rightarrow> None
                   | Some (e, s3) \<Rightarrow> Some (\<lparr>n_neg = neg, n_int = i, n_frac = f, n_exp = e\<rparr>, s3))))"

definition show_number :: "number \<Rightarrow> string" where
  "show_number n = (if n_neg n then ''-'' else []) @ n_int n @ n_frac n @ n_exp n"

definition dec_val :: "string \<Rightarrow> nat" where
  "dec_val s = foldl (\<lambda>n c. n * 10 + digit_val c) 0 s"

text \<open>The value of a number as a real, and as an integer when it is written as one.\<close>

definition number_exp :: "number \<Rightarrow> int" where
  "number_exp n =
     (case n_exp n of
        [] \<Rightarrow> 0
      | _ # d \<Rightarrow> (if d \<noteq> [] \<and> hd d = CHR ''-'' then - int (dec_val (tl d))
                  else if d \<noteq> [] \<and> hd d = CHR ''+'' then int (dec_val (tl d)) else int (dec_val d)))"

definition number_real :: "number \<Rightarrow> real" where
  "number_real n =
     (if n_neg n then - 1 else 1)
     * (of_nat (dec_val (n_int n)) + of_nat (dec_val (tl (n_frac n))) / 10 ^ length (tl (n_frac n)))
     * 10 powi number_exp n"

text \<open>\<^verbatim>\<open>strconv.ParseFloat\<close> rejects what rounds to an infinity.\<close>

definition float_of :: "number \<Rightarrow> real option" where
  "float_of n = (if \<bar>number_real n\<bar> \<ge> 2 ^ 1024 - 2 ^ 970 then None else Some (number_real n))"

text \<open>\<^verbatim>\<open>strconv.ParseInt(s, 10, 64)\<close> on a scanned number.\<close>

definition int_of_number :: "number \<Rightarrow> int option" where
  "int_of_number n =
     (let v = (if n_neg n then - int (dec_val (n_int n)) else int (dec_val (n_int n)))
      in if n_frac n \<noteq> [] \<or> n_exp n \<noteq> [] \<or> v < - (2 ^ 63) \<or> 2 ^ 63 \<le> v then None else Some v)"

section \<open>Values and tokens\<close>

datatype json = JNull | JBool bool | JNum number | JStr string | JArr "json list" | JObj "(string \<times> json) list"

datatype token = TLBrace | TRBrace | TLBrack | TRBrack | TColon | TComma | TStr string | TNum number | TTrue | TFalse | TNull

definition json_space :: "char \<Rightarrow> bool" where
  "json_space c \<longleftrightarrow> c \<in> {CHR '' '', CHR 0x09, CHR 0x0D, CHR 0x0A}"

definition scan_word :: "string \<Rightarrow> token \<Rightarrow> string \<Rightarrow> (token \<times> string) option" where
  "scan_word w t s = (if take (length w) s = w then Some (t, drop (length w) s) else None)"

definition punctuation :: "(char \<times> token) list" where
  "punctuation = [(CHR ''{'', TLBrace), (CHR ''}'', TRBrace), (CHR ''['', TLBrack), (CHR '']'', TRBrack),
     (CHR '':'', TColon), (CHR '','', TComma)]"

fun scan_token :: "string \<Rightarrow> (token \<times> string) option" where
  "scan_token [] = None"
| "scan_token (c # s) =
     (case map_of punctuation c of
        Some t \<Rightarrow> Some (t, s)
      | None \<Rightarrow>
          if c = dquote then map_option (\<lambda>(t, r). (TStr t, r)) (unquote s)
          else if c = CHR ''t'' then scan_word ''rue'' TTrue s
          else if c = CHR ''f'' then scan_word ''alse'' TFalse s
          else if c = CHR ''n'' then scan_word ''ull'' TNull s
          else map_option (\<lambda>(n, r). (TNum n, r)) (scan_number (c # s)))"

lemma scan_digits_length: "scan_digits s = Some (d, r) \<Longrightarrow> length r < length s"
  by (cases s) (auto simp: scan_digits_def split: if_splits intro: le_imp_less_Suc length_dropWhile_le)

lemma scan_number_length:
  assumes "scan_number s = Some (n, r)"
  shows "length r < length s"
proof -
  have i: "scan_int t = Some (d, q) \<Longrightarrow> length q < length t" for t d q
    by (cases t) (auto simp: scan_int_def dest: scan_digits_length split: if_splits)
  have f: "scan_frac t = Some (d, q) \<Longrightarrow> length q \<le> length t" for t d q
    by (cases t) (auto simp: scan_frac_def dest!: scan_digits_length split: if_splits)
  have e: "scan_exp t = Some (d, q) \<Longrightarrow> length q \<le> length t" for t d q
    by (cases t; cases "tl t") (auto simp: scan_exp_def Let_def dest!: scan_digits_length split: if_splits)
  define t where "t = (if s \<noteq> [] \<and> hd s = CHR ''-'' then tl s else s)"
  have t: "length t \<le> length s" by (simp add: t_def)
  from assms obtain d1 s1 d2 s2 d3 where "scan_int t = Some (d1, s1)" "scan_frac s1 = Some (d2, s2)" "scan_exp s2 = Some (d3, r)"
    by (auto simp: scan_number_def t_def Let_def split: option.splits)
  with i f e t show ?thesis by (meson le_less_trans less_le_trans)
qed

lemma scan_token_length: "scan_token s = Some (t, r) \<Longrightarrow> length r < length s"
proof (cases s)
  case (Cons c s')
  assume "scan_token s = Some (t, r)"
  with Cons scan_number_length [of s] show ?thesis
    by (auto simp: scan_word_def dest!: unquote_length split: option.splits if_splits)
qed simp

section \<open>The reader\<close>

text \<open>
  The scanner's stack has a frame per open array or object, with the elements read so far in
  reverse order, and for an object the key of the member being read.
\<close>

datatype frame = FArr "json list" | FObj "(string \<times> json) list" string

datatype mode = AtValue | AtValueOrEnd | AtKeyOrEnd | AtKey | AtColon | AfterValue

datatype reading = RFailed | RGoing mode "frame list" | RComplete json

definition maxNestingDepth :: nat where "maxNestingDepth = 10000"

fun end_value :: "json \<Rightarrow> frame list \<Rightarrow> reading" where
  "end_value v [] = RComplete v"
| "end_value v (FArr vs # st) = RGoing AfterValue (FArr (v # vs) # st)"
| "end_value v (FObj ms k # st) = RGoing AfterValue (FObj ((k, v) # ms) k # st)"

definition open_frame :: "mode \<Rightarrow> frame \<Rightarrow> frame list \<Rightarrow> reading" where
  "open_frame m f st = (if length st < maxNestingDepth then RGoing m (f # st) else RFailed)"

fun begin_value :: "token \<Rightarrow> frame list \<Rightarrow> reading" where
  "begin_value TLBrace st = open_frame AtKeyOrEnd (FObj [] []) st"
| "begin_value TLBrack st = open_frame AtValueOrEnd (FArr []) st"
| "begin_value (TStr s) st = end_value (JStr s) st"
| "begin_value (TNum n) st = end_value (JNum n) st"
| "begin_value TTrue st = end_value (JBool True) st"
| "begin_value TFalse st = end_value (JBool False) st"
| "begin_value TNull st = end_value JNull st"
| "begin_value _ st = RFailed"

fun begin_key :: "token \<Rightarrow> frame list \<Rightarrow> reading" where
  "begin_key (TStr k) (FObj ms _ # st) = RGoing AtColon (FObj ms k # st)"
| "begin_key _ st = RFailed"

fun end_array :: "frame list \<Rightarrow> reading" where
  "end_array (FArr vs # st) = end_value (JArr (rev vs)) st"
| "end_array _ = RFailed"

fun end_object :: "frame list \<Rightarrow> reading" where
  "end_object (FObj ms _ # st) = end_value (JObj (rev ms)) st"
| "end_object _ = RFailed"

definition json_step :: "token \<Rightarrow> mode \<Rightarrow> frame list \<Rightarrow> reading" where
  "json_step t m st =
     (case m of
        AtValue \<Rightarrow> begin_value t st
      | AtValueOrEnd \<Rightarrow> if t = TRBrack then end_array st else begin_value t st
      | AtKeyOrEnd \<Rightarrow> if t = TRBrace then end_object st else begin_key t st
      | AtKey \<Rightarrow> begin_key t st
      | AtColon \<Rightarrow> if t = TColon then RGoing AtValue st else RFailed
      | AfterValue \<Rightarrow>
          (case st of
             FArr vs # _ \<Rightarrow> if t = TComma then RGoing AtValue st else if t = TRBrack then end_array st else RFailed
           | FObj ms k # _ \<Rightarrow> if t = TComma then RGoing AtKey st else if t = TRBrace then end_object st else RFailed
           | [] \<Rightarrow> RFailed))"

function read_json :: "mode \<Rightarrow> frame list \<Rightarrow> string \<Rightarrow> (json \<times> string) option" where
  "read_json m st s =
     (case scan_token (dropWhile json_space s) of
        None \<Rightarrow> None
      | Some (t, r) \<Rightarrow>
          (case json_step t m st of
             RFailed \<Rightarrow> None
           | RGoing m' st' \<Rightarrow> read_json m' st' r
           | RComplete v \<Rightarrow> Some (v, r)))"
  by pat_completeness auto
termination
  by (relation "measure (\<lambda>(m, st, s). length s)")
    (auto dest!: scan_token_length intro: less_le_trans [OF _ length_dropWhile_le])

declare read_json.simps [simp del]

text \<open>
  \<^verbatim>\<open>Decoder.Decode\<close> reads the first value of its input and leaves what follows;
  \<^verbatim>\<open>json.Unmarshal\<close> wants nothing but space after it.
\<close>

definition decode_value :: "string \<Rightarrow> json option" where
  "decode_value s = map_option fst (read_json AtValue [] s)"

definition unmarshal_value :: "string \<Rightarrow> json option" where
  "unmarshal_value s =
     (case read_json AtValue [] s of
        Some (v, r) \<Rightarrow> if dropWhile json_space r = [] then Some v else None
      | None \<Rightarrow> None)"

section \<open>The writer\<close>

fun comma_sep :: "string list \<Rightarrow> string" where
  "comma_sep [] = []"
| "comma_sep (x # xs) = x @ concat (map (\<lambda>y. CHR '','' # y) xs)"

fun write_json :: "json \<Rightarrow> string" where
  "write_json JNull = ''null''"
| "write_json (JBool b) = (if b then ''true'' else ''false'')"
| "write_json (JNum n) = show_number n"
| "write_json (JStr s) = quote_string s"
| "write_json (JArr vs) = CHR ''['' # comma_sep (map write_json vs) @ '']''"
| "write_json (JObj ms) = CHR ''{'' # comma_sep (map (\<lambda>(k, v). quote_string k @ CHR '':'' # write_json v) ms) @ ''}''"

section \<open>The round trip\<close>

text \<open>Numbers as the scanner knows them.\<close>

definition wf_number :: "number \<Rightarrow> bool" where
  "wf_number n \<longleftrightarrow> scan_number (show_number n) = Some (n, [])"

fun wf_json :: "json \<Rightarrow> bool" where
  "wf_json (JNum n) = wf_number n"
| "wf_json (JStr s) = valid_utf8 s"
| "wf_json (JArr vs) = (\<forall>v \<in> set vs. wf_json v)"
| "wf_json (JObj ms) = (\<forall>(k, v) \<in> set ms. valid_utf8 k \<and> wf_json v)"
| "wf_json _ = True"

fun depth :: "json \<Rightarrow> nat" where
  "depth (JArr vs) = Suc (Max (insert 0 (set (map depth vs))))"
| "depth (JObj ms) = Suc (Max (insert 0 (set (map (\<lambda>(k, v). depth v) ms))))"
| "depth _ = 0"

text \<open>What may follow a number.\<close>

definition number_stop :: "string \<Rightarrow> bool" where
  "number_stop r \<longleftrightarrow> r = [] \<or> \<not> is_digit (hd r) \<and> hd r \<notin> {CHR ''.'', CHR ''e'', CHR ''E''}"

lemma scan_digits_append: "scan_digits s = Some (d, q) \<Longrightarrow> number_stop r \<Longrightarrow> scan_digits (s @ r) = Some (d, q @ r)"
proof -
  assume s: "scan_digits s = Some (d, q)" and r: "number_stop r"
  have "takeWhile is_digit r = [] \<and> dropWhile is_digit r = r" using r by (cases r) (auto simp: number_stop_def)
  then have "takeWhile is_digit (s @ r) = takeWhile is_digit s \<and> dropWhile is_digit (s @ r) = dropWhile is_digit s @ r"
    by (induction s) auto
  with s show ?thesis by (cases s) (auto simp: scan_digits_def split: if_splits)
qed

lemma scan_int_append: "scan_int s = Some (d, q) \<Longrightarrow> number_stop r \<Longrightarrow> scan_int (s @ r) = Some (d, q @ r)"
  using scan_digits_append [of s d q r] by (cases s) (auto simp: scan_int_def scan_digits_def split: if_splits)

lemma scan_frac_append: "scan_frac s = Some (d, q) \<Longrightarrow> number_stop r \<Longrightarrow> scan_frac (s @ r) = Some (d, q @ r)"
  using scan_digits_append [of "tl s" _ q r] by (cases s) (auto simp: scan_frac_def number_stop_def split: if_splits)

lemma scan_exp_append:
  assumes "scan_exp s = Some (d, q)" "number_stop r"
  shows "scan_exp (s @ r) = Some (d, q @ r)"
proof (cases "s \<noteq> [] \<and> hd s \<in> {CHR ''e'', CHR ''E''}")
  case True
  then obtain c s' where s: "s = c # s'" by (cases s) auto
  define sg where "sg = (if s' \<noteq> [] \<and> hd s' \<in> {CHR ''+'', CHR ''-''} then [hd s'] else [])"
  from True assms(1) obtain e where e: "scan_digits (drop (length sg) s') = Some (e, q)" "d = c # sg @ e"
    by (auto simp: scan_exp_def s sg_def Let_def cong: if_cong)
  then have "s' \<noteq> []" by (auto simp: scan_digits_def)
  then have "(if s' @ r \<noteq> [] \<and> hd (s' @ r) \<in> {CHR ''+'', CHR ''-''} then [hd (s' @ r)] else []) = sg"
    "drop (length sg) (s' @ r) = drop (length sg) s' @ r" by (simp_all add: sg_def Suc_le_eq)
  with True e scan_digits_append [OF e(1) assms(2)] show ?thesis by (simp add: scan_exp_def s Let_def cong: if_cong)
qed (use assms in \<open>cases s; auto simp: scan_exp_def number_stop_def split: if_splits\<close>)

lemma scan_number_append:
  assumes "scan_number s = Some (n, q)" "number_stop r"
  shows "scan_number (s @ r) = Some (n, q @ r)"
proof -
  define t where "t = (if s \<noteq> [] \<and> hd s = CHR ''-'' then tl s else s)"
  from assms(1) obtain d1 s1 d2 s2 d3 where d: "scan_int t = Some (d1, s1)" "scan_frac s1 = Some (d2, s2)" "scan_exp s2 = Some (d3, q)"
    and n: "n = \<lparr>n_neg = (s \<noteq> [] \<and> hd s = CHR ''-''), n_int = d1, n_frac = d2, n_exp = d3\<rparr>"
    by (auto simp: scan_number_def t_def Let_def split: option.splits)
  have "s \<noteq> []" using d(1) by (auto simp: t_def scan_int_def scan_digits_def split: if_splits)
  then have "(if s @ r \<noteq> [] \<and> hd (s @ r) = CHR ''-'' then tl (s @ r) else s @ r) = t @ r" by (simp add: t_def)
  with \<open>s \<noteq> []\<close> scan_int_append [OF d(1) assms(2)] scan_frac_append [OF d(2) assms(2)] scan_exp_append [OF d(3) assms(2)] n
  show ?thesis by (simp add: scan_number_def Let_def)
qed

lemma scan_number_hd: "scan_number s = Some (n, q) \<Longrightarrow> s \<noteq> [] \<and> (hd s = CHR ''-'' \<or> is_digit (hd s))"
  by (cases s) (auto simp: scan_number_def scan_int_def scan_digits_def Let_def is_digit_def split: option.splits if_splits)

lemma scan_number_token:
  assumes "wf_number n" "number_stop r"
  shows "scan_token (dropWhile json_space (show_number n @ r)) = Some (TNum n, r)"
proof -
  have n: "scan_number (show_number n @ r) = Some (n, r)" using scan_number_append [OF _ assms(2)] assms(1) by (force simp: wf_number_def)
  obtain c s where c: "show_number n @ r = c # s" "c = CHR ''-'' \<or> is_digit c" using scan_number_hd [OF n] by (cases "show_number n @ r") auto
  have "map_of punctuation c = None" "\<not> json_space c" "c \<noteq> dquote" "c \<noteq> CHR ''t''" "c \<noteq> CHR ''f''" "c \<noteq> CHR ''n''"
    using c(2) by (auto simp: punctuation_def json_space_def dquote_def is_digit_def less_eq_char_def)
  with n c(1) show ?thesis by simp
qed

definition resume :: "reading \<Rightarrow> string \<Rightarrow> (json \<times> string) option" where
  "resume x r = (case x of RFailed \<Rightarrow> None | RGoing m st \<Rightarrow> read_json m st r | RComplete v \<Rightarrow> Some (v, r))"

lemma resume_simps [simp]:
  "resume RFailed r = None" "resume (RGoing m st) r = read_json m st r" "resume (RComplete v) r = Some (v, r)"
  by (simp_all add: resume_def)

lemma read_token: "scan_token (dropWhile json_space s) = Some (t, r) \<Longrightarrow> read_json m st s = resume (json_step t m st) r"
  by (subst read_json.simps) (simp add: resume_def)

lemma read_punctuation: "map_of punctuation c = Some t \<Longrightarrow> read_json m st (c # s) = resume (json_step t m st) s"
  by (rule read_token) (auto simp: punctuation_def json_space_def split: if_splits)

lemma punctuation_simps [simp]:
  "map_of punctuation (CHR ''{'') = Some TLBrace" "map_of punctuation (CHR ''}'') = Some TRBrace"
  "map_of punctuation (CHR ''['') = Some TLBrack" "map_of punctuation (CHR '']'') = Some TRBrack"
  "map_of punctuation (CHR '':'') = Some TColon" "map_of punctuation (CHR '','') = Some TComma"
  by (simp_all add: punctuation_def)

lemma read_string: "read_json m st (quote_string s @ r) = resume (json_step (TStr (to_valid s)) m st) r"
  by (rule read_token) (simp add: quote_string_def unquote_escape, simp add: dquote_def json_space_def punctuation_def unquote_escape [unfolded dquote_def])

lemma read_word:
  "read_json m st (''null'' @ r) = resume (json_step TNull m st) r"
  "read_json m st (''true'' @ r) = resume (json_step TTrue m st) r"
  "read_json m st (''false'' @ r) = resume (json_step TFalse m st) r"
  by (rule read_token; simp add: json_space_def punctuation_def dquote_def scan_word_def)+

text \<open>The elements of an array and the members of an object, once the first has been read.\<close>

definition reads_back :: "nat \<Rightarrow> json \<Rightarrow> bool" where
  "reads_back k v \<longleftrightarrow> (\<forall>st m r. length st = k \<longrightarrow> number_stop r \<longrightarrow> m \<in> {AtValue, AtValueOrEnd} \<longrightarrow>
     read_json m st (write_json v @ r) = resume (end_value v st) r)"

lemma reads_backD:
  "reads_back k v \<Longrightarrow> length st = k \<Longrightarrow> number_stop r \<Longrightarrow> m \<in> {AtValue, AtValueOrEnd} \<Longrightarrow>
     read_json m st (write_json v @ r) = resume (end_value v st) r"
  unfolding reads_back_def by blast

lemma number_stop_sep:
  "number_stop (concat (map (\<lambda>y. CHR '','' # y) xs) @ CHR '']'' # r)" "number_stop (concat (map (\<lambda>y. CHR '','' # y) xs) @ CHR ''}'' # r)"
  by (cases xs; simp add: number_stop_def is_digit_def less_eq_char_def)+

lemma read_elements:
  "\<forall>v \<in> set vs. reads_back (Suc (length st)) v \<Longrightarrow>
   read_json AfterValue (FArr acc # st) (concat (map (\<lambda>y. CHR '','' # y) (map write_json vs)) @ CHR '']'' # r)
     = resume (end_value (JArr (rev acc @ vs)) st) r"
proof (induction vs arbitrary: acc)
  case (Cons v vs)
  have "read_json AtValue (FArr acc # st) (write_json v @ concat (map (\<lambda>y. CHR '','' # y) (map write_json vs)) @ CHR '']'' # r)
      = resume (end_value v (FArr acc # st)) (concat (map (\<lambda>y. CHR '','' # y) (map write_json vs)) @ CHR '']'' # r)"
    using Cons.prems by (intro reads_backD [of "Suc (length st)"] number_stop_sep) simp_all
  with Cons.IH [of "v # acc"] Cons.prems show ?case by (simp add: read_punctuation json_step_def)
qed (simp add: read_punctuation json_step_def)

definition write_member :: "string \<times> json \<Rightarrow> string" where
  "write_member m = quote_string (fst m) @ CHR '':'' # write_json (snd m)"

lemma read_member:
  assumes "reads_back (Suc (length st)) v" "valid_utf8 k" "number_stop r" "m \<in> {AtKey, AtKeyOrEnd}"
  shows "read_json m (FObj acc x # st) (write_member (k, v) @ r) = read_json AfterValue (FObj ((k, v) # acc) k # st) r"
proof -
  have "json_step (TStr k) m (FObj acc x # st) = RGoing AtColon (FObj acc k # st)" using assms(4) by (auto simp: json_step_def)
  moreover have "read_json AtValue (FObj acc k # st) (write_json v @ r) = resume (end_value v (FObj acc k # st)) r"
    using assms(1,3) by (intro reads_backD [of "Suc (length st)"]) simp_all
  ultimately show ?thesis using assms(2)
    by (simp add: write_member_def read_string valid_utf8_def read_punctuation json_step_def [of TColon])
qed

lemma read_members:
  "\<forall>(k, v) \<in> set ms. valid_utf8 k \<and> reads_back (Suc (length st)) v \<Longrightarrow>
   read_json AfterValue (FObj acc x # st) (concat (map (\<lambda>y. CHR '','' # y) (map write_member ms)) @ CHR ''}'' # r)
     = resume (end_value (JObj (rev acc @ ms)) st) r"
proof (induction ms arbitrary: acc x)
  case (Cons kv ms)
  obtain k v where kv: "kv = (k, v)" by force
  show ?case
    using Cons.prems Cons.IH [of "(k, v) # acc" k] read_member [OF _ _ number_stop_sep(2), of st v k AtKey acc x "map write_member ms" r]
    by (simp add: kv read_punctuation json_step_def)
qed (simp add: read_punctuation json_step_def)

lemma write_obj: "write_json (JObj ms) = CHR ''{'' # comma_sep (map write_member ms) @ ''}''"
proof -
  have "(\<lambda>(k, v). quote_string k @ CHR '':'' # write_json v) = write_member" by (simp add: write_member_def fun_eq_iff)
  then show ?thesis by simp
qed

lemma read_array:
  assumes "\<forall>v \<in> set vs. reads_back (Suc (length st)) v" "length st < maxNestingDepth" "m \<in> {AtValue, AtValueOrEnd}"
  shows "read_json m st (write_json (JArr vs) @ r) = resume (end_value (JArr vs) st) r"
proof -
  have o: "json_step TLBrack m st = RGoing AtValueOrEnd (FArr [] # st)" using assms(2,3) by (auto simp: json_step_def open_frame_def)
  show ?thesis
  proof (cases vs)
    case Nil
    then show ?thesis using o by (simp add: read_punctuation) (simp add: json_step_def)
  next
    case (Cons v ws)
    let ?r = "concat (map (\<lambda>y. CHR '','' # y) (map write_json ws)) @ CHR '']'' # r"
    have "read_json AtValueOrEnd (FArr [] # st) (write_json v @ ?r) = resume (end_value v (FArr [] # st)) ?r"
      using assms(1) Cons by (intro reads_backD [of "Suc (length st)"] number_stop_sep) simp_all
    with read_elements [of ws st "[v]" r] assms(1) Cons o show ?thesis by (simp add: read_punctuation)
  qed
qed

lemma read_object:
  assumes "\<forall>(k, v) \<in> set ms. valid_utf8 k \<and> reads_back (Suc (length st)) v" "length st < maxNestingDepth" "m \<in> {AtValue, AtValueOrEnd}"
  shows "read_json m st (write_json (JObj ms) @ r) = resume (end_value (JObj ms) st) r"
proof -
  have o: "json_step TLBrace m st = RGoing AtKeyOrEnd (FObj [] [] # st)" using assms(2,3) by (auto simp: json_step_def open_frame_def)
  show ?thesis
  proof (cases ms)
    case Nil
    then show ?thesis using o by (simp add: read_punctuation) (simp add: json_step_def)
  next
    case (Cons kv ns)
    obtain k v where kv: "kv = (k, v)" by force
    show ?thesis
      using read_members [of ns st "[(k, v)]" k r] assms(1) Cons o kv
        read_member [OF _ _ number_stop_sep(2), of st v k AtKeyOrEnd "[]" "[]" "map write_member ns" r]
      by (simp add: write_obj read_punctuation del: write_json.simps)
  qed
qed

lemma depth_member: "v \<in> set vs \<Longrightarrow> Suc (depth v) \<le> depth (JArr vs)" "(k, v) \<in> set ms \<Longrightarrow> Suc (depth v) \<le> depth (JObj ms)"
  by (auto intro!: Max_ge)

lemma write_reads_back: "wf_json v \<Longrightarrow> depth v + k \<le> maxNestingDepth \<Longrightarrow> reads_back k v"
proof (induction v arbitrary: k rule: write_json.induct)
  case (3 n)
  show ?case unfolding reads_back_def
  proof (intro allI impI)
    fix st :: "frame list" and m r
    assume "length st = k" "number_stop r" "m \<in> {AtValue, AtValueOrEnd}"
    then show "read_json m st (write_json (JNum n) @ r) = resume (end_value (JNum n) st) r"
      using read_token [OF scan_number_token, of n r m st] 3 by (auto simp: json_step_def)
  qed
next
  case (5 vs)
  have d: "k < maxNestingDepth" using "5.prems"(2) by simp
  have "reads_back (Suc k) v" if "v \<in> set vs" for v
    using "5.IH" [OF that, of "Suc k"] depth_member(1) [OF that] "5.prems" that by (auto simp del: depth.simps)
  with d show ?case unfolding reads_back_def [of k] by (auto simp del: write_json.simps intro!: read_array)
next
  case (6 ms)
  have d: "k < maxNestingDepth" using "6.prems"(2) by simp
  have "valid_utf8 x \<and> reads_back (Suc k) v" if "(x, v) \<in> set ms" for x v
    using "6.IH" [OF that refl, of "Suc k"] depth_member(2) [OF that] "6.prems" that by (auto simp del: depth.simps)
  with d show ?case unfolding reads_back_def [of k] by (auto simp del: write_json.simps intro!: read_object)
qed (auto simp: reads_back_def json_step_def read_word [simplified] read_string valid_utf8_def)

text \<open>Reading a written value gives the value back and leaves what follows it.\<close>

lemma read_write_json:
  assumes "wf_json v" "depth v \<le> maxNestingDepth" "number_stop r"
  shows "read_json AtValue [] (write_json v @ r) = Some (v, r)"
  using reads_backD [OF write_reads_back [of v 0], of "[]" r AtValue] assms by simp

lemma decode_written: "wf_json v \<Longrightarrow> depth v \<le> maxNestingDepth \<Longrightarrow> decode_value (write_json v) = Some v"
  using read_write_json [of v "[]"] by (simp add: decode_value_def number_stop_def)

lemma unmarshal_written: "wf_json v \<Longrightarrow> depth v \<le> maxNestingDepth \<Longrightarrow> unmarshal_value (write_json v) = Some v"
  using read_write_json [of v "[]"] by (simp add: unmarshal_value_def number_stop_def)

text \<open>The strings of a value that was read are valid UTF-8.\<close>

fun strings_valid :: "json \<Rightarrow> bool" where
  "strings_valid (JStr s) = valid_utf8 s"
| "strings_valid (JArr vs) = (\<forall>v \<in> set vs. strings_valid v)"
| "strings_valid (JObj ms) = (\<forall>(k, v) \<in> set ms. valid_utf8 k \<and> strings_valid v)"
| "strings_valid _ = True"

fun frame_valid :: "frame \<Rightarrow> bool" where
  "frame_valid (FArr vs) = (\<forall>v \<in> set vs. strings_valid v)"
| "frame_valid (FObj ms k) = (valid_utf8 k \<and> (\<forall>(k, v) \<in> set ms. valid_utf8 k \<and> strings_valid v))"

fun reading_valid :: "reading \<Rightarrow> bool" where
  "reading_valid RFailed = True"
| "reading_valid (RGoing m st) = list_all frame_valid st"
| "reading_valid (RComplete v) = strings_valid v"

definition token_valid :: "token \<Rightarrow> bool" where
  "token_valid t = (case t of TStr s \<Rightarrow> valid_utf8 s | _ \<Rightarrow> True)"

lemma scan_token_valid: "scan_token s = Some (t, r) \<Longrightarrow> token_valid t"
  by (cases s) (auto simp: token_valid_def scan_word_def punctuation_def dest: unquote_valid split: option.splits if_splits)

lemma end_value_valid: "strings_valid v \<Longrightarrow> list_all frame_valid st \<Longrightarrow> reading_valid (end_value v st)"
  by (induction v st rule: end_value.induct) auto

lemma json_step_valid:
  assumes "token_valid t" "list_all frame_valid st"
  shows "reading_valid (json_step t m st)"
proof -
  have e: "valid_utf8 []" by (simp add: valid_utf8_def)
  have "reading_valid (begin_value t st)"
    using assms e by (cases t) (auto simp: token_valid_def open_frame_def intro!: end_value_valid)
  moreover have "reading_valid (begin_key t st)"
    using assms by (cases "(t, st)" rule: begin_key.cases) (auto simp: token_valid_def)
  moreover have "reading_valid (end_array st)" "reading_valid (end_object st)"
    using assms(2) by (cases st rule: end_array.cases; auto intro!: end_value_valid)+
  ultimately show ?thesis using assms(2) by (auto simp: json_step_def split: mode.splits list.splits frame.splits)
qed

lemma read_json_valid: "read_json m st s = Some (v, r) \<Longrightarrow> list_all frame_valid st \<Longrightarrow> strings_valid v"
proof (induction m st s rule: read_json.induct)
  case (1 m st s)
  from "1.prems"(1) obtain t q where t: "scan_token (dropWhile json_space s) = Some (t, q)" and x: "resume (json_step t m st) q = Some (v, r)"
    by (subst (asm) read_json.simps) (auto simp: resume_def split: option.splits)
  have "reading_valid (json_step t m st)" by (rule json_step_valid [OF scan_token_valid [OF t] "1.prems"(2)])
  with x "1.IH" [OF t refl] show ?case by (cases "json_step t m st") auto
qed

lemma unmarshal_valid: "unmarshal_value s = Some v \<Longrightarrow> strings_valid v"
  by (auto simp: unmarshal_value_def dest: read_json_valid split: option.splits if_splits)

section \<open>Integers\<close>

definition int_number :: "int \<Rightarrow> number" where
  "int_number i = \<lparr>n_neg = i < 0, n_int = show_nat (nat \<bar>i\<bar>), n_frac = [], n_exp = []\<rparr>"

lemma dec_val_snoc: "dec_val (s @ [c]) = dec_val s * 10 + digit_val c"
  by (simp add: dec_val_def)

lemma digit_zero: "digit_val (CHR ''0'') = 0"
  by (simp add: digit_val_def)

lemma show_nat_digits: "(\<forall>c \<in> set (show_nat n). is_digit c) \<and> dec_val (show_nat n) = n \<and> (0 < n \<longrightarrow> hd (show_nat n) \<noteq> CHR ''0'')"
proof (induction n rule: show_nat.induct)
  case (1 n)
  show ?case
  proof (cases "n < 10")
    case True
    then have "show_nat n = [char_of (48 + n)]" by (subst show_nat.simps) simp
    moreover have "0 < n \<Longrightarrow> char_of (48 + n) \<noteq> CHR ''0''" using digit_char [OF True] by (metis digit_zero less_irrefl)
    ultimately show ?thesis using digit_char [OF True] by (simp add: dec_val_def)
  next
    case False
    then have "show_nat n = show_nat (n div 10) @ [char_of (48 + n mod 10)]" by (subst show_nat.simps) simp
    with 1 [OF False] digit_char [of "n mod 10"] False show_nat_hd [of "n div 10"] show ?thesis by (auto simp: dec_val_snoc hd_append)
  qed
qed

lemma scan_int_show: "number_stop r \<Longrightarrow> scan_int (show_nat n @ r) = Some (show_nat n, r)"
proof (cases "n = 0")
  case True
  then have "show_nat n = ''0''" using char_of_char [of "CHR ''0''", where 'a = nat] by (subst show_nat.simps) (simp del: char_of_char)
  then show ?thesis by (simp add: scan_int_def)
next
  case False
  assume r: "number_stop r"
  have d: "\<forall>c \<in> set (show_nat n). is_digit c" "hd (show_nat n) \<noteq> CHR ''0''" "show_nat n \<noteq> []"
    using show_nat_digits [of n] show_nat_hd [of n] False by auto
  then have "scan_digits (show_nat n) = Some (show_nat n, [])" by (simp add: scan_digits_def)
  with scan_digits_append [OF this r] d show ?thesis by (simp add: scan_int_def hd_append)
qed

lemma int_number_facts:
  shows "show_number (int_number i) = show_int i" "wf_number (int_number i)" "number_real (int_number i) = of_int i"
    and "- (2 ^ 63) \<le> i \<Longrightarrow> i < 2 ^ 63 \<Longrightarrow> int_of_number (int_number i) = Some i"
proof -
  have v: "dec_val (show_nat k) = k" for k using show_nat_digits by blast
  show s: "show_number (int_number i) = show_int i" by (simp add: show_number_def int_number_def show_int_def)
  have m: "hd (show_nat k) \<noteq> CHR ''-''" "show_nat k \<noteq> []" for k using show_nat_hd [of k] by (auto simp: is_digit_def less_eq_char_def)
  show "wf_number (int_number i)"
    using scan_int_show [of "[]"] m unfolding wf_number_def s
    by (auto simp: scan_number_def show_int_def int_number_def scan_frac_def scan_exp_def number_stop_def Let_def)
  show "number_real (int_number i) = of_int i" by (simp add: number_real_def int_number_def v number_exp_def dec_val_def [of "[]"])
  show "- (2 ^ 63) \<le> i \<Longrightarrow> i < 2 ^ 63 \<Longrightarrow> int_of_number (int_number i) = Some i" by (simp add: int_of_number_def int_number_def v)
qed

end
