(* ===== verification/Json_Values.thy ===== *)
theory Json_Values
  imports Json Configuration "HOL-Library.Multiset"
begin

text \<open>
  The dynamic values of Go (\<^verbatim>\<open>map[string]any\<close>) as the program reads them from and writes them to
  JSON, and what is kept when a value that was read is written and read again. How a \<open>float64\<close> is
  formatted is the argument \<open>jf\<close>.
\<close>

section \<open>Dynamic values\<close>

datatype goval = GNil | GBool bool | GInt int | GFloat real | GString string | GSlice "goval list" | GMap "(string \<times> goval) list"

text \<open>Assigning to a key of a map.\<close>

definition put_key :: "(string \<times> 'a) list \<Rightarrow> string \<times> 'a \<Rightarrow> (string \<times> 'a) list" where
  "put_key m kv = filter (\<lambda>x. fst x \<noteq> fst kv) m @ [kv]"

text \<open>Decoding into an \<open>any\<close>: every number is a \<open>float64\<close>. \<open>None\<close>: a number out of range.\<close>

fun any_value :: "json \<Rightarrow> goval option" where
  "any_value JNull = Some GNil"
| "any_value (JBool b) = Some (GBool b)"
| "any_value (JNum n) = map_option GFloat (float_of n)"
| "any_value (JStr s) = Some (GString s)"
| "any_value (JArr vs) = map_option GSlice (those (map any_value vs))"
| "any_value (JObj ms) = map_option (\<lambda>kvs. GMap (foldl put_key [] kvs))
     (those (map (\<lambda>(k, v). map_option (Pair k) (any_value v)) ms))"

text \<open>Marshalling writes the keys of a map in order.\<close>

fun json_of :: "(real \<Rightarrow> number) \<Rightarrow> goval \<Rightarrow> json" where
  "json_of jf GNil = JNull"
| "json_of jf (GBool b) = JBool b"
| "json_of jf (GInt i) = JNum (int_number i)"
| "json_of jf (GFloat x) = JNum (jf x)"
| "json_of jf (GString s) = JStr s"
| "json_of jf (GSlice vs) = JArr (map (json_of jf) vs)"
| "json_of jf (GMap m) = JObj (sort_key fst (map (\<lambda>(k, v). (k, json_of jf v)) m))"

definition Marshal :: "(real \<Rightarrow> number) \<Rightarrow> goval \<Rightarrow> string" where
  "Marshal jf v = write_json (json_of jf v)"

text \<open>\<^verbatim>\<open>json.Unmarshal\<close> into a \<^verbatim>\<open>map[string]any\<close>; \<open>null\<close> leaves the map nil.\<close>

definition unmarshal_map :: "string \<Rightarrow> goval option" where
  "unmarshal_map s =
     (case unmarshal_value s of
        Some JNull \<Rightarrow> Some GNil
      | Some (JObj ms) \<Rightarrow> any_value (JObj ms)
      | _ \<Rightarrow> None)"

text \<open>What the accessors of a fault step see of a dynamic value.\<close>

definition any_of :: "goval \<Rightarrow> any_val" where
  "any_of v = (case v of GInt i \<Rightarrow> VInt i | GFloat x \<Rightarrow> VFloat x | GString s \<Rightarrow> VString s | _ \<Rightarrow> VOther)"

text \<open>A member that is read into a map that is already there is added to it.\<close>

definition put_params :: "(string \<rightharpoonup> any_val) \<Rightarrow> (string \<times> goval) list \<Rightarrow> string \<rightharpoonup> any_val" where
  "put_params old m = foldl (\<lambda>m (k, v). m(k \<mapsto> any_of v)) old m"

section \<open>Values are read back\<close>

text \<open>The floats of a value, and a formatting of floats that reads back as it should.\<close>

fun floats_of :: "goval \<Rightarrow> real set" where
  "floats_of (GFloat x) = {x}"
| "floats_of (GSlice vs) = (\<Union>v \<in> set vs. floats_of v)"
| "floats_of (GMap m) = (\<Union>kv \<in> set m. floats_of (snd kv))"
| "floats_of _ = {}"

definition formats :: "(real \<Rightarrow> number) \<Rightarrow> real \<Rightarrow> bool" where
  "formats jf x \<longleftrightarrow> wf_number (jf x) \<and> float_of (jf x) = Some x"

text \<open>A value that came from JSON and is written back without loss.\<close>

fun rewritable :: "(real \<Rightarrow> number) \<Rightarrow> goval \<Rightarrow> bool" where
  "rewritable jf (GInt i) = False"
| "rewritable jf (GFloat x) = formats jf x"
| "rewritable jf (GString s) = valid_utf8 s"
| "rewritable jf (GSlice vs) = (\<forall>v \<in> set vs. rewritable jf v)"
| "rewritable jf (GMap m) = (\<forall>kv \<in> set m. valid_utf8 (fst kv) \<and> rewritable jf (snd kv))"
| "rewritable jf _ = True"

lemma those_Some: "those xs = Some ys \<longleftrightarrow> xs = map Some ys"
  by (induction xs arbitrary: ys) (auto split: option.splits)

lemma map_Some: "\<forall>x \<in> set xs. \<exists>y. f x = Some y \<Longrightarrow> \<exists>ys. map f xs = map Some ys"
  by (induction xs) (auto simp: Cons_eq_map_conv)

lemma put_key_set: "set (foldl put_key m kvs) \<subseteq> set m \<union> set kvs"
proof (induction kvs arbitrary: m)
  case (Cons kv kvs)
  have "set (put_key m kv) \<subseteq> insert kv (set m)" by (auto simp: put_key_def)
  with Cons [of "put_key m kv"] show ?case by auto
qed simp

lemma put_key_distinct: "distinct (map fst m) \<Longrightarrow> distinct (map fst (foldl put_key m kvs))"
proof (induction kvs arbitrary: m)
  case (Cons kv kvs)
  have "distinct (map fst (put_key m kv))" using Cons.prems by (auto simp: put_key_def distinct_map_filter)
  with Cons.IH show ?case by simp
qed simp

lemma foldl_put_key_new: "distinct (map fst m @ map fst kvs) \<Longrightarrow> foldl put_key m kvs = m @ kvs"
proof (induction kvs arbitrary: m)
  case (Cons kv kvs)
  then have "fst kv \<notin> fst ` set m" by simp
  then have "filter (\<lambda>x. fst x \<noteq> fst kv) m = m" by (intro filter_True ballI) (metis image_eqI)
  with Cons.IH [of "m @ [kv]"] Cons.prems show ?case by (simp add: put_key_def)
qed simp

lemma any_value_rewritable:
  "any_value j = Some v \<Longrightarrow> strings_valid j \<Longrightarrow> \<forall>x \<in> floats_of v. formats jf x \<Longrightarrow> rewritable jf v"
proof (induction j arbitrary: v rule: any_value.induct)
  case (5 vs)
  then obtain us where us: "map any_value vs = map Some us" "v = GSlice us" by (auto simp: those_Some)
  have "rewritable jf u" if "u \<in> set us" for u
  proof -
    from that us(1) obtain w where "w \<in> set vs" "any_value w = Some u" by (metis (no_types, lifting) image_iff list.set_map)
    with 5 us that show ?thesis by auto
  qed
  with us show ?case by simp
next
  case (6 ms)
  then obtain us where us: "map (\<lambda>(k, v). map_option (Pair k) (any_value v)) ms = map Some us" "v = GMap (foldl put_key [] us)"
    by (auto simp: those_Some)
  have "valid_utf8 (fst u) \<and> rewritable jf (snd u)" if u: "u \<in> set (foldl put_key [] us)" for u
  proof -
    have "Some u \<in> set (map Some us)" using u put_key_set [of "[]" us] by auto
    then have "Some u \<in> set (map (\<lambda>(k, v). map_option (Pair k) (any_value v)) ms)" unfolding us(1) .
    then obtain kw where kw: "kw \<in> set ms" "Some u = (case kw of (k, v) \<Rightarrow> map_option (Pair k) (any_value v))"
      unfolding set_map by (elim imageE)
    obtain k w where "kw = (k, w)" by force
    with kw have "(k, w) \<in> set ms" "map_option (Pair k) (any_value w) = Some u" by simp_all
    moreover from this obtain x where "any_value w = Some x" "u = (k, x)" by auto
    moreover have "floats_of (snd u) \<subseteq> floats_of v" using u us(2) by auto
    ultimately show ?thesis using "6.IH" [of "(k, w)" k w x] "6.prems" by fastforce
  qed
  with us(2) show ?case by simp
qed (auto simp: formats_def)

lemma rewritable_wf: "rewritable jf v \<Longrightarrow> wf_json (json_of jf v)"
  by (induction jf v rule: json_of.induct) (auto simp: formats_def)

lemma rewritable_value: "rewritable jf v \<Longrightarrow> \<exists>v'. any_value (json_of jf v) = Some v' \<and> any_of v' = any_of v"
proof (induction jf v rule: json_of.induct)
  case (6 jf vs)
  have "\<forall>j \<in> set (map (json_of jf) vs). \<exists>v'. any_value j = Some v'" using 6 by auto
  from map_Some [OF this] show ?case by (auto simp: those_Some any_of_def)
next
  case (7 jf m)
  let ?l = "sort_key fst (map (\<lambda>(k, v). (k, json_of jf v)) m)"
  have "\<exists>v'. any_value j = Some v'" if "(k, j) \<in> set ?l" for k j
    using that "7.IH" "7.prems" by fastforce
  then have "\<forall>kj \<in> set ?l. \<exists>y. (\<lambda>(k, v). map_option (Pair k) (any_value v)) kj = Some y" by fastforce
  from map_Some [OF this] show ?case by (auto simp: those_Some any_of_def)
qed (auto simp: formats_def any_of_def)

lemma put_params_map_of:
  "distinct (map fst m) \<Longrightarrow> put_params old m k = (case map_of m k of Some v \<Rightarrow> Some (any_of v) | None \<Rightarrow> old k)"
proof (induction m arbitrary: old)
  case (Cons kv m)
  obtain x v where kv: "kv = (x, v)" by force
  with Cons.prems have n: "map_of m x = None" by (simp add: map_of_eq_None_iff)
  define new where "new = old(x \<mapsto> any_of v)"
  have "put_params old (kv # m) = put_params new m" by (simp add: put_params_def kv new_def)
  moreover have "new x = Some (any_of v)" "k \<noteq> x \<Longrightarrow> new k = old k" by (simp_all add: new_def)
  ultimately show ?case using Cons.IH [of new] Cons.prems kv n by (cases "k = x") (simp_all split: option.splits)
qed (simp add: put_params_def)

lemma read_members_map:
  assumes "map (\<lambda>(k, j). map_option (Pair k) (any_value j)) l = map Some us" "distinct (map fst l)"
  shows "map fst us = map fst l \<and> (\<forall>k. map_of us k = (case map_of l k of Some j \<Rightarrow> any_value j | None \<Rightarrow> None))"
  using assms
proof (induction l arbitrary: us)
  case (Cons kj l)
  obtain k j where kj: "kj = (k, j)" by force
  from Cons.prems(1) kj obtain v ws where us: "us = (k, v) # ws" "any_value j = Some v"
    "map (\<lambda>(k, j). map_option (Pair k) (any_value j)) l = map Some ws" by (auto simp: Cons_eq_map_conv)
  with Cons.IH [OF us(3)] Cons.prems(2) kj show ?case by simp
qed simp

lemma sort_key_distinct: "distinct (map fst l) \<Longrightarrow> distinct (map fst (sort_key fst l))"
proof -
  have "mset (map fst (sort_key fst l)) = mset (map fst l)" by simp
  then show "distinct (map fst l) \<Longrightarrow> distinct (map fst (sort_key fst l))" using mset_eq_imp_distinct_iff by blast
qed

lemma sort_key_map_of: "distinct (map fst l) \<Longrightarrow> map_of (sort_key fst l) = map_of l"
  using sort_key_distinct [of l] by (intro map_of_inject_set [THEN iffD2]) simp_all

lemma rewritable_map:
  assumes "rewritable jf (GMap m)" "distinct (map fst m)"
  shows "\<exists>m'. any_value (json_of jf (GMap m)) = Some (GMap m') \<and> put_params old m' = put_params old m"
proof -
  let ?f = "map (\<lambda>(k, v). (k, json_of jf v)) m"
  have df: "distinct (map fst ?f)" using assms(2) by (simp add: comp_def case_prod_unfold)
  have mf: "map_of ?f k = map_option (json_of jf) (map_of m k)" for k by (induction m) auto
  have ds: "distinct (map fst (sort_key fst ?f))" by (rule sort_key_distinct [OF df])
  from rewritable_value [OF assms(1)] obtain us where us: "map (\<lambda>(k, j). map_option (Pair k) (any_value j)) (sort_key fst ?f) = map Some us"
    by (auto simp: those_Some)
  note r = read_members_map [OF us ds]
  have du: "distinct (map fst us)" using r ds by simp
  have "put_params old us k = put_params old m k" for k
  proof (cases "map_of m k")
    case None
    with r mf show ?thesis by (simp add: put_params_map_of [OF du] put_params_map_of [OF assms(2)] sort_key_map_of [OF df])
  next
    case (Some v)
    then have "(k, v) \<in> set m" by (rule map_of_SomeD)
    with assms(1) have "rewritable jf v" by auto
    from rewritable_value [OF this] Some r mf show ?thesis
      by (auto simp: put_params_map_of [OF du] put_params_map_of [OF assms(2)] sort_key_map_of [OF df])
  qed
  moreover have "any_value (json_of jf (GMap m)) = Some (GMap us)"
    using us foldl_put_key_new [of "[]" us] du by (simp add: those_Some)
  ultimately show ?thesis by blast
qed

lemma unmarshal_map_cases:
  assumes "unmarshal_map s = Some p"
  obtains "p = GNil" | m where "p = GMap m" "distinct (map fst m)"
  using assms put_key_distinct [of "[]"] by (fastforce simp: unmarshal_map_def split: option.splits json.splits)

lemma unmarshal_map_rewritable: "unmarshal_map s = Some p \<Longrightarrow> \<forall>x \<in> floats_of p. formats jf x \<Longrightarrow> rewritable jf p"
  using any_value_rewritable [OF _ unmarshal_valid, of _ p s jf]
  by (auto simp: unmarshal_map_def simp del: any_value.simps split: option.splits json.splits)

end
