(* ===== verification/Codec.thy ===== *)
theory Codec
  imports Control Json_Values
begin

text \<open>
  The JSON that the program exchanges: the body of a fault request decoded into \<open>faultRequest\<close> by the rules of
  \<^verbatim>\<open>encoding/json\<close> for structs (\<^verbatim>\<open>internal/control/api.go\<close>), and the JSON form of the
  responses. How a \<open>float64\<close> is formatted is the argument \<open>jf\<close>; the text of an error that the
  decoder reports is the argument \<open>jerr\<close>.
\<close>

section \<open>The body of a fault request\<close>

definition request_fields :: "string list" where
  "request_fields = [''kind'', ''latency_ms'', ''drop_percent'', ''params'', ''for_ms'']"

text \<open>
  A key is matched exactly, or else up to case folding of its runes: besides the ASCII letters,
  U+017F folds with s and U+212A with k.
\<close>

definition fold_rune :: "nat \<Rightarrow> nat" where
  "fold_rune r = (if 97 \<le> r \<and> r \<le> 122 then r - 32 else if r = 383 then 83 else if r = 8490 then 75 else r)"

definition find_field :: "string \<Rightarrow> string option" where
  "find_field key =
     (if key \<in> set request_fields then Some key
      else find (\<lambda>f. map fold_rune (runes f) = map fold_rune (runes key)) request_fields)"

definition int_field :: "json \<Rightarrow> int \<Rightarrow> int option" where
  "int_field v old = (case v of JNull \<Rightarrow> Some old | JNum n \<Rightarrow> int_of_number n | _ \<Rightarrow> None)"

definition string_field :: "json \<Rightarrow> string \<Rightarrow> string option" where
  "string_field v old = (case v of JNull \<Rightarrow> Some old | JStr s \<Rightarrow> Some s | _ \<Rightarrow> None)"

definition params_field :: "json \<Rightarrow> (string \<rightharpoonup> any_val) \<Rightarrow> (string \<rightharpoonup> any_val) option" where
  "params_field v old =
     (case v of
        JNull \<Rightarrow> Some Map.empty
      | JObj ms \<Rightarrow> (case any_value (JObj ms) of Some (GMap m) \<Rightarrow> Some (put_params old m) | _ \<Rightarrow> None)
      | _ \<Rightarrow> None)"

definition set_field :: "string \<Rightarrow> json \<Rightarrow> faultRequest \<Rightarrow> faultRequest option" where
  "set_field f v req =
     (if f = ''kind'' then map_option (\<lambda>x. req\<lparr>fr_Kind := x\<rparr>) (string_field v (fr_Kind req))
      else if f = ''latency_ms'' then map_option (\<lambda>x. req\<lparr>fr_LatencyMs := x\<rparr>) (int_field v (fr_LatencyMs req))
      else if f = ''drop_percent'' then map_option (\<lambda>x. req\<lparr>fr_DropPercent := x\<rparr>) (int_field v (fr_DropPercent req))
      else if f = ''params'' then map_option (\<lambda>x. req\<lparr>fr_Params := x\<rparr>) (params_field v (fr_Params req))
      else map_option (\<lambda>x. req\<lparr>fr_ForMs := x\<rparr>) (int_field v (fr_ForMs req)))"

fun set_members :: "(string \<times> json) list \<Rightarrow> faultRequest \<Rightarrow> faultRequest option" where
  "set_members [] req = Some req"
| "set_members ((k, v) # ms) req =
     (case find_field k of
        None \<Rightarrow> set_members ms req
      | Some f \<Rightarrow> (case set_field f v req of None \<Rightarrow> None | Some req' \<Rightarrow> set_members ms req'))"

definition zero_request :: faultRequest where
  "zero_request = \<lparr>fr_Kind = [], fr_LatencyMs = 0, fr_DropPercent = 0, fr_Params = Map.empty, fr_ForMs = 0\<rparr>"

definition request_of :: "json \<Rightarrow> faultRequest option" where
  "request_of v = (case v of JNull \<Rightarrow> Some zero_request | JObj ms \<Rightarrow> set_members ms zero_request | _ \<Rightarrow> None)"

definition decode_request :: "(string \<Rightarrow> string) \<Rightarrow> string \<Rightarrow> string + faultRequest" where
  "decode_request jerr bdy =
     (case decode_value bdy of
        None \<Rightarrow> Inl (jerr bdy)
      | Some v \<Rightarrow> (case request_of v of None \<Rightarrow> Inl (jerr bdy) | Some req \<Rightarrow> Inr req))"

section \<open>A written request is read back\<close>

text \<open>The keys of a request in the order in which they are written.\<close>

lemma key_order [simp]:
  "''drop_percent'' \<le> ''for_ms''" "''drop_percent'' \<le> ''kind''" "''drop_percent'' \<le> ''params''"
  "''for_ms'' \<le> ''kind''" "''for_ms'' \<le> ''latency_ms''" "''for_ms'' \<le> ''params''"
  "''kind'' \<le> ''latency_ms''" "''kind'' \<le> ''params''" "''latency_ms'' \<le> ''params''"
  "\<not> ''kind'' \<le> ''drop_percent''" "\<not> ''kind'' \<le> ''for_ms''" "\<not> ''latency_ms'' \<le> ''for_ms''" "\<not> ''params'' \<le> ''for_ms''"
  "\<not> ''latency_ms'' \<le> ''kind''" "\<not> ''params'' \<le> ''kind''" "\<not> ''params'' \<le> ''latency_ms''" "\<not> ''params'' \<le> ''drop_percent''"
  "\<not> ''for_ms'' \<le> ''drop_percent''"
  by (simp_all add: less_char_def)

lemma known_field: "k \<in> set request_fields \<Longrightarrow> find_field k = Some k"
  by (simp add: find_field_def)

lemma ascii_keys [simp]: "valid_utf8 ''kind''" "valid_utf8 ''latency_ms''" "valid_utf8 ''drop_percent''" "valid_utf8 ''params''" "valid_utf8 ''for_ms''"
  by (rule ascii_valid; simp)+

section \<open>Responses\<close>

definition omitempty :: "string \<Rightarrow> string \<Rightarrow> (string \<times> json) list" where
  "omitempty k s = (if s = [] then [] else [(k, JStr s)])"

definition strings_json :: "string list \<Rightarrow> json" where
  "strings_json xs = JArr (map JStr xs)"

definition status_members :: "proxy_Status \<Rightarrow> (string \<times> json) list" where
  "status_members st =
     [(''name'', JStr (st_Name st)), (''listen_addr'', JStr (st_ListenAddr st)), (''upstream_addr'', JStr (st_UpstreamAddr st)),
      (''stream'', JStr (st_Stream st)), (''latency_ms'', JNum (int_number (st_LatencyMs st))),
      (''drop_percent'', JNum (int_number (st_DropPercent st))), (''partitioned'', JBool (st_Partitioned st)),
      (''crashed'', JBool (st_Crashed st)), (''active_faults'', strings_json (ActiveFaults st)),
      (''active_clients'', JNum (int_number (ActiveClients st)))]"

definition node_status_json :: "NodeStatus \<Rightarrow> json" where
  "node_status_json s =
     JObj (status_members (ns_Status s) @ omitempty ''role'' (ns_Role s) @ omitempty ''target'' (ns_Target s)
       @ [(''node_faults'', strings_json (ns_NodeFaults s))])"

definition check_row_json :: "checkResultJSON \<Rightarrow> json" where
  "check_row_json r =
     JObj ([(''node'', JStr (cj_Node r)), (''output'', JStr (cj_Output r))] @ omitempty ''error'' (cj_Error r)
       @ [(''diverges'', JBool (Diverges r))])"

text \<open>A slice that nothing was appended to is nil, which is written as \<open>null\<close>.\<close>

definition check_json :: "checkResponse \<Rightarrow> json" where
  "check_json c =
     JObj [(''results'', if Results c = [] then JNull else JArr (map check_row_json (Results c))), (''agree'', JBool (Agree c))]"

definition default_json :: "(real \<Rightarrow> number) \<Rightarrow> any_val option \<Rightarrow> (string \<times> json) list" where
  "default_json jf d =
     (case d of
        Some (VInt i) \<Rightarrow> [(''default'', JNum (int_number i))]
      | Some (VInt64 i) \<Rightarrow> [(''default'', JNum (int_number i))]
      | Some (VFloat x) \<Rightarrow> [(''default'', JNum (jf x))]
      | Some (VString s) \<Rightarrow> [(''default'', JStr s)]
      | _ \<Rightarrow> [])"

definition param_json :: "(real \<Rightarrow> number) \<Rightarrow> ParamInfo \<Rightarrow> json" where
  "param_json jf p =
     JObj ([(''name'', JStr (pi_Name p)), (''type'', JStr (pi_Type p))] @ default_json jf (pi_Default p)
       @ omitempty ''help'' (pi_Help p) @ (if pi_Enum p = [] then [] else [(''enum'', strings_json (pi_Enum p))]))"

definition kind_json :: "(real \<Rightarrow> number) \<Rightarrow> KindInfo \<Rightarrow> json" where
  "kind_json jf k =
     JObj ([(''kind'', JStr (ki_Kind k)), (''class'', JStr (ki_Class k)), (''description'', JStr (ki_Description k))]
       @ (if ki_Params k = [] then [] else [(''params'', JArr (map (param_json jf) (ki_Params k)))])
       @ omitempty ''stream'' (ki_Stream k) @ (if NeedsTarget k then [(''needs_target'', JBool True)] else []))"

text \<open>
  The bodies that are written as JSON. The list of scenarios is left out: its parameters come from
  YAML with types that \<open>any_val\<close> does not keep apart.
\<close>

definition body_json :: "(real \<Rightarrow> number) \<Rightarrow> body \<Rightarrow> json option" where
  "body_json jf b =
     (case b of
        BStatuses sts \<Rightarrow> Some (JArr (map node_status_json sts))
      | BStatus st \<Rightarrow> Some (JObj (status_members st))
      | BKinds ks \<Rightarrow> Some (JArr (map (kind_json jf) ks))
      | BMap m \<Rightarrow> Some (JObj (sort_key fst (map (\<lambda>(k, v). (k, JStr v)) m)))
      | BCheck c \<Rightarrow> Some (check_json c)
      | _ \<Rightarrow> None)"

text \<open>The bytes of such a body: the encoder ends it with a newline.\<close>

definition body_text :: "(real \<Rightarrow> number) \<Rightarrow> body \<Rightarrow> string option" where
  "body_text jf b = map_option (\<lambda>v. write_json v @ [CHR 0x0A]) (body_json jf b)"

section \<open>Responses tell what they should\<close>

lemma depth_le:
  "\<forall>(k, v) \<in> set ms. depth v \<le> n \<Longrightarrow> depth (JObj ms) \<le> Suc n" "\<forall>v \<in> set vs. depth v \<le> n \<Longrightarrow> depth (JArr vs) \<le> Suc n"
  by auto

lemma strings_depth: "depth (strings_json xs) \<le> 1"
  using depth_le(2) [of "map JStr xs" 0] by (simp add: strings_json_def del: depth.simps(1))

lemma node_status_depth: "depth (node_status_json s) \<le> 2"
proof -
  have "\<forall>(k, v) \<in> set (status_members (ns_Status s) @ omitempty ''role'' (ns_Role s) @ omitempty ''target'' (ns_Target s)
       @ [(''node_faults'', strings_json (ns_NodeFaults s))]). depth v \<le> 1"
    using strings_depth by (auto simp: status_members_def omitempty_def split: if_splits)
  from depth_le(1) [OF this] show ?thesis by (simp add: node_status_json_def del: depth.simps)
qed

definition status_valid :: "NodeStatus \<Rightarrow> bool" where
  "status_valid s \<longleftrightarrow>
     (\<forall>x \<in> set ([st_Name (ns_Status s), st_ListenAddr (ns_Status s), st_UpstreamAddr (ns_Status s), st_Stream (ns_Status s),
        ns_Role s, ns_Target s] @ ActiveFaults (ns_Status s) @ ns_NodeFaults s). valid_utf8 x)"

lemma status_keys:
  "\<forall>k \<in> {''name'', ''listen_addr'', ''upstream_addr'', ''stream'', ''latency_ms'', ''drop_percent'', ''partitioned'', ''crashed'',
     ''active_faults'', ''active_clients'', ''role'', ''target'', ''node_faults''}. valid_utf8 k"
  by (simp add: ascii_valid)

lemma node_status_wf: "status_valid s \<Longrightarrow> wf_json (node_status_json s)"
  using status_keys
  by (auto simp: status_valid_def node_status_json_def status_members_def omitempty_def strings_json_def int_number_facts)

lemma int_number_inj: "int_number i = int_number j \<Longrightarrow> i = j"
  by (metis int_number_facts(3) of_int_eq_iff)

lemma strings_json_inj: "strings_json xs = strings_json ys \<longleftrightarrow> xs = ys"
  by (simp add: strings_json_def inj_map_eq_map inj_def)

lemma node_status_inj: "node_status_json s = node_status_json t \<Longrightarrow> s = t"
proof -
  assume e: "node_status_json s = node_status_json t"
  have m: "status_members (ns_Status s) = status_members (ns_Status t)"
    and r: "omitempty ''role'' (ns_Role s) @ omitempty ''target'' (ns_Target s) @ [(''node_faults'', strings_json (ns_NodeFaults s))]
      = omitempty ''role'' (ns_Role t) @ omitempty ''target'' (ns_Target t) @ [(''node_faults'', strings_json (ns_NodeFaults t))]"
    using e by (simp_all add: node_status_json_def status_members_def)
  have "ns_Status s = ns_Status t"
    using m by (intro proxy_Status.equality) (auto simp: status_members_def strings_json_inj dest: int_number_inj)
  moreover have "ns_Role s = ns_Role t \<and> ns_Target s = ns_Target t \<and> ns_NodeFaults s = ns_NodeFaults t"
    using r by (auto simp: omitempty_def strings_json_inj split: if_splits)
  ultimately show "s = t" by (intro NodeStatus.equality) simp_all
qed

lemma body_read:
  assumes "body_json jf b = Some v" "wf_json v" "depth v \<le> maxNestingDepth"
  shows "\<exists>txt. body_text jf b = Some txt \<and> unmarshal_value txt = Some v"
proof -
  have "number_stop [CHR 0x0A]" by (simp add: number_stop_def is_digit_def less_eq_char_def)
  with assms read_write_json [of v "[CHR 0x0A]"] show ?thesis by (simp add: body_text_def unmarshal_value_def json_space_def)
qed

text \<open>
  C34: the status response is exact. Its bytes are JSON that reads back as the list of the
  nodes' states, and two different lists of states never have the same bytes: a client that
  parses the response knows every field of every node, absent optional ones included.
\<close>

theorem status_response_exact:
  assumes "list_all status_valid sts" "list_all status_valid sts'"
  shows "\<exists>txt. body_text jf (BStatuses sts) = Some txt \<and> unmarshal_value txt = Some (JArr (map node_status_json sts))
    \<and> (body_text jf (BStatuses sts') = Some txt \<longrightarrow> sts' = sts)"
proof -
  have rd: "\<exists>txt. body_text jf (BStatuses xs) = Some txt \<and> unmarshal_value txt = Some (JArr (map node_status_json xs))"
    if "list_all status_valid xs" for xs
  proof (rule body_read)
    show "wf_json (JArr (map node_status_json xs))" using that node_status_wf by (auto simp: list_all_iff)
    have "depth (JArr (map node_status_json xs)) \<le> Suc 2" using node_status_depth by (intro depth_le) auto
    then show "depth (JArr (map node_status_json xs)) \<le> maxNestingDepth" by (simp add: maxNestingDepth_def del: depth.simps)
  qed (simp add: body_json_def)
  have "inj node_status_json" using node_status_inj by (auto simp: inj_def)
  then have "map node_status_json sts' = map node_status_json sts \<Longrightarrow> sts' = sts" by (simp add: inj_map_eq_map)
  with rd [OF assms(1)] rd [OF assms(2)] show ?thesis by auto
qed

definition ex_node_status :: "bool \<Rightarrow> NodeStatus" where
  "ex_node_status v =
     \<lparr>ns_Status = \<lparr>st_Name = ''a'', st_ListenAddr = '':6432'', st_UpstreamAddr = ''db:5432'', st_Stream = ''query'', st_LatencyMs = 0,
        st_DropPercent = 0, st_Partitioned = v, st_Crashed = False, ActiveFaults = [''latency''], ActiveClients = 2\<rparr>,
      ns_Role = ''primary'', ns_Target = [], ns_NodeFaults = []\<rparr>"

theorem status_response_exact_witness:
  "body_text (\<lambda>x. int_number \<lfloor>x\<rfloor>) (BStatuses [ex_node_status True]) \<noteq> body_text (\<lambda>x. int_number \<lfloor>x\<rfloor>) (BStatuses [ex_node_status False])"
proof -
  have "list_all status_valid [ex_node_status v]" for v by (simp add: status_valid_def ex_node_status_def ascii_valid)
  from status_response_exact [OF this this, of "\<lambda>x. int_number \<lfloor>x\<rfloor>" True False] show ?thesis by (auto simp: ex_node_status_def)
qed

end
