(* ===== verification/Flags.thy ===== *)
theory Flags
  imports Json
begin

text \<open>
  What the commands (\<^verbatim>\<open>cmd/dbfailsim/main.go\<close>) use of Go's \<^verbatim>\<open>flag\<close> package: a set of named
  flags of type string, int or bool with their values, and the parsing of an argument list, which
  stops at the first argument that is no flag. Integers are read by
  \<^verbatim>\<open>strconv.ParseInt(s, 0, 64)\<close>, booleans by \<^verbatim>\<open>strconv.ParseBool\<close>.
\<close>

section \<open>Values\<close>

datatype flag_value = FvString string | FvInt int | FvBool bool

type_synonym flag_set = "(string \<times> flag_value) list"

definition lower_char :: "char \<Rightarrow> char" where
  "lower_char c = (let b = (of_char c :: nat) in if 65 \<le> b \<and> b \<le> 90 then char_of (b + 32) else c)"

definition digit_in_base :: "char \<Rightarrow> nat option" where
  "digit_in_base c =
     (let b = (of_char (lower_char c) :: nat)
      in if is_digit c then Some (digit_val c) else if 97 \<le> b \<and> b \<le> 122 then Some (b - 87) else None)"

text \<open>The base prefix of a literal and what follows it.\<close>

definition int_base :: "string \<Rightarrow> nat \<times> string" where
  "int_base s =
     (if hd s \<noteq> CHR ''0'' then (10, s)
      else if length s \<ge> 3 \<and> lower_char (s ! 1) = CHR ''b'' then (2, drop 2 s)
      else if length s \<ge> 3 \<and> lower_char (s ! 1) = CHR ''o'' then (8, drop 2 s)
      else if length s \<ge> 3 \<and> lower_char (s ! 1) = CHR ''x'' then (16, drop 2 s)
      else (8, tl s))"

fun digits_val :: "nat \<Rightarrow> nat \<Rightarrow> string \<Rightarrow> nat option" where
  "digits_val base n [] = Some n"
| "digits_val base n (c # s) =
     (if c = CHR ''_'' then digits_val base n s
      else case digit_in_base c of
        Some d \<Rightarrow> if d < base then digits_val base (n * base + d) s else None
      | None \<Rightarrow> None)"

text \<open>Underscores may only separate digits, the base prefix counting as one.\<close>

datatype saw = SawStart | SawDigit | SawUnderscore | SawOther

fun underscore_loop :: "bool \<Rightarrow> saw \<Rightarrow> string \<Rightarrow> bool" where
  "underscore_loop hex w [] = (w \<noteq> SawUnderscore)"
| "underscore_loop hex w (c # s) =
     (if is_digit c \<or> hex \<and> lower_char c \<in> set ''abcdef'' then underscore_loop hex SawDigit s
      else if c = CHR ''_'' then w = SawDigit \<and> underscore_loop hex SawUnderscore s
      else w \<noteq> SawUnderscore \<and> underscore_loop hex SawOther s)"

definition underscoreOK :: "string \<Rightarrow> bool" where
  "underscoreOK s =
     (if length s \<ge> 2 \<and> hd s = CHR ''0'' \<and> lower_char (s ! 1) \<in> set ''box''
      then underscore_loop (lower_char (s ! 1) = CHR ''x'') SawDigit (drop 2 s)
      else underscore_loop False SawStart s)"

definition ParseUint :: "string \<Rightarrow> nat option" where
  "ParseUint s =
     (if s = [] then None
      else case int_base s of
        (base, ds) \<Rightarrow>
          (case digits_val base 0 ds of
             None \<Rightarrow> None
           | Some n \<Rightarrow> if CHR ''_'' \<in> set ds \<and> \<not> underscoreOK s then None else Some n))"

definition ParseInt :: "string \<Rightarrow> int option" where
  "ParseInt s =
     (let neg = (s \<noteq> [] \<and> hd s = CHR ''-''); ds = (if s \<noteq> [] \<and> hd s \<in> {CHR ''-'', CHR ''+''} then tl s else s)
      in case ParseUint ds of
           None \<Rightarrow> None
         | Some n \<Rightarrow> if \<not> neg \<and> n \<ge> 2 ^ 63 \<or> neg \<and> n > 2 ^ 63 then None else Some (if neg then - int n else int n))"

definition ParseBool :: "string \<Rightarrow> bool option" where
  "ParseBool s =
     (if s \<in> {''1'', ''t'', ''T'', ''TRUE'', ''true'', ''True''} then Some True
      else if s \<in> {''0'', ''f'', ''F'', ''FALSE'', ''false'', ''False''} then Some False
      else None)"

section \<open>Parsing\<close>

datatype flag_result = FlagsParsed flag_set "string list" | FlagHelp | FlagError

text \<open>The \<open>Set\<close> of a flag of the type that \<open>v\<close> has.\<close>

definition flag_Set :: "flag_value \<Rightarrow> string \<Rightarrow> flag_value option" where
  "flag_Set v s =
     (case v of
        FvString _ \<Rightarrow> Some (FvString s)
      | FvInt _ \<Rightarrow> map_option FvInt (ParseInt s)
      | FvBool _ \<Rightarrow> map_option FvBool (ParseBool s))"

definition is_bool_flag :: "flag_value \<Rightarrow> bool" where
  "is_bool_flag v = (case v of FvBool _ \<Rightarrow> True | _ \<Rightarrow> False)"

definition put_flag :: "string \<Rightarrow> flag_value \<Rightarrow> flag_set \<Rightarrow> flag_set" where
  "put_flag name v fs = map (\<lambda>(k, w). (k, if k = name then v else w)) fs"

text \<open>The name and, after the first equals sign that is not at its start, the value.\<close>

definition split_flag :: "string \<Rightarrow> string \<times> string option" where
  "split_flag s =
     (let nm = hd s # takeWhile (\<lambda>c. c \<noteq> CHR ''='') (tl s); rest = dropWhile (\<lambda>c. c \<noteq> CHR ''='') (tl s)
      in (nm, if rest = [] then None else Some (tl rest)))"

definition flag_name :: "string \<Rightarrow> string" where
  "flag_name s = drop (if s ! 1 = CHR ''-'' then 2 else 1) s"

definition is_flag :: "string \<Rightarrow> bool" where
  "is_flag s \<longleftrightarrow> 2 \<le> length s \<and> hd s = CHR ''-''"

fun flags_Parse :: "flag_set \<Rightarrow> string list \<Rightarrow> flag_result" where
  "flags_Parse fs [] = FlagsParsed fs []"
| "flags_Parse fs (s # args) =
     (if \<not> is_flag s then FlagsParsed fs (s # args)
      else if s = ''--'' then FlagsParsed fs args
      else (let nm = flag_name s
            in if nm = [] \<or> hd nm = CHR ''-'' \<or> hd nm = CHR ''='' then FlagError
               else case split_flag nm of
                 (name, value) \<Rightarrow>
                   (case map_of fs name of
                      None \<Rightarrow> if name = ''help'' \<or> name = ''h'' then FlagHelp else FlagError
                    | Some v \<Rightarrow>
                        if is_bool_flag v then
                          (case flag_Set v (case value of Some x \<Rightarrow> x | None \<Rightarrow> ''true'') of
                             None \<Rightarrow> FlagError
                           | Some w \<Rightarrow> flags_Parse (put_flag name w fs) args)
                        else
                          (case value of
                             Some x \<Rightarrow> (case flag_Set v x of None \<Rightarrow> FlagError | Some w \<Rightarrow> flags_Parse (put_flag name w fs) args)
                           | None \<Rightarrow>
                               (case args of
                                  [] \<Rightarrow> FlagError
                                | x # args' \<Rightarrow>
                                    (case flag_Set v x of None \<Rightarrow> FlagError | Some w \<Rightarrow> flags_Parse (put_flag name w fs) args'))))))"

section \<open>Values are read back\<close>

definition show_flag :: "flag_value \<Rightarrow> string" where
  "show_flag v = (case v of FvString s \<Rightarrow> s | FvInt i \<Rightarrow> show_int i | FvBool b \<Rightarrow> if b then ''true'' else ''false'')"

definition flag_ok :: "flag_value \<Rightarrow> bool" where
  "flag_ok v = (case v of FvInt i \<Rightarrow> - (2 ^ 63) \<le> i \<and> i < 2 ^ 63 | _ \<Rightarrow> True)"

definition same_type :: "flag_value \<Rightarrow> flag_value \<Rightarrow> bool" where
  "same_type v w = (case (v, w) of (FvString _, FvString _) \<Rightarrow> True | (FvInt _, FvInt _) \<Rightarrow> True | (FvBool _, FvBool _) \<Rightarrow> True | _ \<Rightarrow> False)"

lemma digits_val_show:
  "\<forall>c \<in> set s. is_digit c \<Longrightarrow> digits_val 10 n s = Some (foldl (\<lambda>n c. n * 10 + digit_val c) n s)"
proof (induction s arbitrary: n)
  case (Cons c s)
  then have "c \<noteq> CHR ''_''" "digit_val c < 10" by (auto simp: is_digit_def digit_val_def less_eq_char_def)
  with Cons show ?case by (simp add: digit_in_base_def)
qed simp

lemma ParseUint_show: "ParseUint (show_nat n) = Some n"
proof (cases "n = 0")
  case True
  then have "show_nat n = ''0''" using char_of_char [of "CHR ''0''", where 'a = nat] by (subst show_nat.simps) (simp del: char_of_char)
  with True show ?thesis by (simp add: ParseUint_def int_base_def)
next
  case False
  have d: "\<forall>c \<in> set (show_nat n). is_digit c" "dec_val (show_nat n) = n" "hd (show_nat n) \<noteq> CHR ''0''" "show_nat n \<noteq> []"
    using show_nat_digits [of n] show_nat_hd [of n] False by auto
  have "CHR ''_'' \<notin> set (show_nat n)" using d(1) by (auto simp: is_digit_def less_eq_char_def)
  with d digits_val_show [OF d(1), of 0] show ?thesis by (simp add: ParseUint_def int_base_def dec_val_def)
qed

lemma ParseInt_show: "- (2 ^ 63) \<le> i \<Longrightarrow> i < 2 ^ 63 \<Longrightarrow> ParseInt (show_int i) = Some i"
proof -
  assume i: "- (2 ^ 63) \<le> i" "i < 2 ^ 63"
  have h: "show_nat k \<noteq> []" "hd (show_nat k) \<notin> {CHR ''-'', CHR ''+''}" for k
    using show_nat_hd [of k] by (auto simp: is_digit_def less_eq_char_def)
  show ?thesis using i h by (auto simp: ParseInt_def show_int_def ParseUint_show nat_less_iff Let_def)
qed

lemma flag_Set_show: "same_type v w \<Longrightarrow> flag_ok w \<Longrightarrow> flag_Set v (show_flag w) = Some w"
  using ParseInt_show by (cases v; cases w) (simp_all add: same_type_def flag_Set_def show_flag_def flag_ok_def ParseBool_def)

text \<open>A flag with its value as one argument or, unless it is boolean, as two.\<close>

definition flag_args :: "bool \<Rightarrow> string \<times> flag_value \<Rightarrow> string list" where
  "flag_args two nv =
     (if two \<and> \<not> is_bool_flag (snd nv) then [''--'' @ fst nv, show_flag (snd nv)]
      else [''--'' @ fst nv @ ''='' @ show_flag (snd nv)])"

definition name_ok :: "string \<Rightarrow> bool" where
  "name_ok nm \<longleftrightarrow> nm \<noteq> [] \<and> hd nm \<noteq> CHR ''-'' \<and> CHR ''='' \<notin> set nm"

lemma split_flag_name:
  assumes "name_ok nm"
  shows "split_flag nm = (nm, None)" "split_flag (nm @ CHR ''='' # s) = (nm, Some s)"
proof -
  obtain c r where n: "nm = c # r" "c \<noteq> CHR ''=''" "\<forall>x \<in> set r. x \<noteq> CHR ''=''" using assms by (cases nm) (auto simp: name_ok_def)
  have "takeWhile (\<lambda>c. c \<noteq> CHR ''='') r = r" "dropWhile (\<lambda>c. c \<noteq> CHR ''='') r = []" using n(3) by simp_all
  then show "split_flag nm = (nm, None)" by (simp add: split_flag_def n(1))
  have "takeWhile (\<lambda>c. c \<noteq> CHR ''='') (r @ CHR ''='' # s) = r" "dropWhile (\<lambda>c. c \<noteq> CHR ''='') (r @ CHR ''='' # s) = CHR ''='' # s"
    using n(3) by (simp_all add: takeWhile_append dropWhile_append)
  then show "split_flag (nm @ CHR ''='' # s) = (nm, Some s)" by (simp add: split_flag_def n(1))
qed

lemma is_bool_same: "same_type v w \<Longrightarrow> is_bool_flag v = is_bool_flag w"
  by (auto simp: same_type_def is_bool_flag_def split: flag_value.splits)

lemma Parse_flag:
  assumes "name_ok nm" "map_of fs nm = Some v" "same_type v w" "flag_ok w"
  shows "flags_Parse fs (flag_args two (nm, w) @ rest) = flags_Parse (put_flag nm w fs) rest"
proof -
  have n: "nm \<noteq> []" "hd nm \<noteq> CHR ''-''" "hd nm \<noteq> CHR ''=''" using assms(1) by (cases nm; auto simp: name_ok_def)+
  note s = split_flag_name [OF assms(1)]
  have f: "flag_name (''--'' @ x) = x" "is_flag (''--'' @ x)" "''--'' @ x \<noteq> ''--'' \<longleftrightarrow> x \<noteq> []" for x by (simp_all add: flag_name_def is_flag_def)
  show ?thesis
  proof (cases "two \<and> \<not> is_bool_flag w")
    case True
    then show ?thesis
      using n f(1,2) [of nm] s(1) assms(2) flag_Set_show [OF assms(3,4)] is_bool_same [OF assms(3)] by (simp add: flag_args_def)
  next
    case False
    then have "flag_args two (nm, w) = [''--'' @ nm @ ''='' @ show_flag w]" by (auto simp: flag_args_def)
    then show ?thesis
      using n f(1,2) [of "nm @ ''='' @ show_flag w"] s(2) [of "show_flag w"] assms(2) flag_Set_show [OF assms(3,4)] is_bool_same [OF assms(3)]
      by simp
  qed
qed

definition assigns :: "flag_set \<Rightarrow> string \<times> flag_value \<Rightarrow> bool" where
  "assigns fs nv \<longleftrightarrow> name_ok (fst nv) \<and> flag_ok (snd nv) \<and> (\<exists>v. map_of fs (fst nv) = Some v \<and> same_type v (snd nv))"

lemma map_of_put_flag: "map_of (put_flag nm w fs) k = (if k = nm then map_option (\<lambda>_. w) (map_of fs k) else map_of fs k)"
  by (induction fs) (auto simp: put_flag_def)

lemma same_type_trans: "same_type u v \<Longrightarrow> same_type u w \<Longrightarrow> same_type v w"
  by (auto simp: same_type_def split: flag_value.splits)

lemma assigns_put: "assigns fs (nm, w) \<Longrightarrow> assigns fs nv \<Longrightarrow> assigns (put_flag nm w fs) nv"
  by (auto simp: assigns_def map_of_put_flag intro: same_type_trans)

text \<open>Any list of assignments to flags of the set, in either form, is parsed to the set with these values.\<close>

lemma Parse_assignments:
  "list_all (assigns fs \<circ> snd) xs \<Longrightarrow>
   flags_Parse fs (concat (map (\<lambda>(two, nv). flag_args two nv) xs)) = FlagsParsed (foldl (\<lambda>fs (two, nm, w). put_flag nm w fs) fs xs) []"
proof (induction xs arbitrary: fs)
  case (Cons x xs)
  obtain two nm w where x: "x = (two, nm, w)" by (cases x)
  from Cons.prems x have a: "assigns fs (nm, w)" "list_all (assigns fs \<circ> snd) xs" by (simp_all add: list_all_iff)
  then have l: "list_all (assigns (put_flag nm w fs) \<circ> snd) xs" using assigns_put [OF a(1)] by (simp add: list_all_iff)
  moreover have "flags_Parse fs (flag_args two (nm, w) @ rest) = flags_Parse (put_flag nm w fs) rest" for rest
    using a(1) Parse_flag [of nm fs _ w two rest] by (auto simp: assigns_def)
  ultimately show ?case using Cons.IH [OF l] x by simp
qed simp

end
