(* ===== verification/Cli.thy ===== *)
theory Cli
  imports Codec Flags
begin

text \<open>
  The command line (\<^verbatim>\<open>cmd/dbfailsim/main.go\<close>): starting the proxies and the server
  from a configuration, and the client commands, each of which sends one request of the
  control API. \<open>cli_main\<close> goes from the argument list to what the process does: its flags are
  parsed as \<open>Flags\<close> has it, the body of a fault request is written as \<open>Codec\<close> has it. Loading
  the configuration, formatting floats and running check commands are arguments.
\<close>

section \<open>Dispatch\<close>

datatype command = CmdServe | CmdInject | CmdFault | CmdHeal | CmdStatus | CmdCheck | CmdKinds | CmdUsage

text \<open>\<open>Inr\<close>: the command with its arguments; \<open>Inl\<close>: usage text and exit code 1.\<close>

definition main_dispatch :: "string list \<Rightarrow> string option + command \<times> string list" where
  "main_dispatch args =
     (if length args < 2 then Inl None
      else (let c = args ! 1; rest = drop 2 args
            in if c = ''serve'' then Inr (CmdServe, rest)
               else if c = ''inject'' then Inr (CmdInject, rest)
               else if c = ''fault'' then Inr (CmdFault, rest)
               else if c = ''heal'' then Inr (CmdHeal, rest)
               else if c = ''status'' then Inr (CmdStatus, rest)
               else if c = ''check'' then Inr (CmdCheck, rest)
               else if c = ''kinds'' then Inr (CmdKinds, rest)
               else if c = ''-h'' \<or> c = ''--help'' \<or> c = ''help'' then Inr (CmdUsage, [])
               else Inl (Some c)))"

definition usage :: string where
  "usage = concat (map (\<lambda>l. l @ [newline])
     [''dbfailsim - Database Failure Simulator (Chaos for Data)'', [], ''Commands:'',
      ''  serve    Start proxies for every configured node plus the control API'',
      ''  inject   Run a named scenario against a running dbfailsim serve instance'',
      ''  fault    Apply a single fault to one node'',
      ''  heal     Clear all fault state, restoring normal operation'',
      ''  status   Show current health of every node's proxy'',
      ''  check    Query every node directly and show whether they agree'',
      ''  kinds    List every fault kind with its parameters and defaults'', [],
      ''Run 'dbfailsim <command> -h' for command-specific flags.''])"

text \<open>Left-justified in a field of \<open>k\<close> characters, as \<^verbatim>\<open>%-ks\<close> does it.\<close>

definition pad_right :: "nat \<Rightarrow> string \<Rightarrow> string" where
  "pad_right k s = s @ replicate (k - length s) (CHR '' '')"

text \<open>\<^verbatim>\<open>%v\<close> of a default; how a \<open>float64\<close> is printed is the argument \<open>ff\<close>.\<close>

definition show_default :: "(real \<Rightarrow> string) \<Rightarrow> any_val \<Rightarrow> string" where
  "show_default ff v = (case v of VInt i \<Rightarrow> show_int i | VInt64 i \<Rightarrow> show_int i | VFloat x \<Rightarrow> ff x | VString s \<Rightarrow> s | VOther \<Rightarrow> [])"

definition param_line :: "(real \<Rightarrow> string) \<Rightarrow> ParamInfo \<Rightarrow> string" where
  "param_line ff p =
     ''    '' @ pad_right 20 (pi_Name p) @ '' '' @ pad_right 9 (pi_Type p) @ '' '' @ pi_Help p
     @ (case pi_Default p of Some d \<Rightarrow> '' (default '' @ show_default ff d @ '')'' | None \<Rightarrow> []) @ [newline]"

definition kind_lines :: "(real \<Rightarrow> string) \<Rightarrow> KindInfo \<Rightarrow> string" where
  "kind_lines ff k =
     pad_right 22 (ki_Kind k) @ '' '' @ pad_right 10 (ki_Class k) @ '' '' @ ki_Description k
     @ (if ki_Stream k \<noteq> [] then ''  ['' @ ki_Stream k @ '' stream]'' else [])
     @ (if NeedsTarget k then ''  [needs target]'' else []) @ [newline]
     @ concat (map (param_line ff) (ki_Params k))"

definition cmdKinds :: "(real \<Rightarrow> string) \<Rightarrow> string" where
  "cmdKinds ff = concat (map (kind_lines ff) Catalog_all)"

section \<open>Serving\<close>

definition node_proxy :: "Node \<Rightarrow> proxy" where
  "node_proxy n =
     (let p = proxy_New (Name n) (ListenAddr n) (UpstreamAddr n)
      in if IsReplicationStream n then p\<lparr>p_Stream := ReplicationStream\<rparr> else p)"

definition put_proxy :: "string \<Rightarrow> proxy \<Rightarrow> (string \<times> proxy) list \<Rightarrow> (string \<times> proxy) list" where
  "put_proxy k p ps = filter (\<lambda>x. fst x \<noteq> k) ps @ [(k, p)]"

definition serve_proxies :: "Node list \<Rightarrow> (string \<times> proxy) list" where
  "serve_proxies ns = foldl (\<lambda>ps n. put_proxy (Name n) (node_proxy n) ps) [] ns"

definition cmdServe :: "Config \<Rightarrow> net_state \<Rightarrow> 's \<Rightarrow> 's server" where
  "cmdServe cfg ns m = NewServer cfg (engine_New (serve_proxies (Nodes cfg)) (Some cfg) ns m)"

section \<open>Client commands\<close>

text \<open>\<^verbatim>\<open>url.PathEscape\<close> percent-encodes every byte that may not stand in a path segment.\<close>

definition is_letter :: "char \<Rightarrow> bool" where
  "is_letter c \<longleftrightarrow> (let u = (of_char c :: nat) in (65 \<le> u \<and> u \<le> 90) \<or> (97 \<le> u \<and> u \<le> 122))"

definition unreserved :: "char \<Rightarrow> bool" where
  "unreserved c \<longleftrightarrow> is_letter c \<or> is_digit c \<or> c \<in> set ''-_.~$&+:=@''"

definition hex_digit :: "nat \<Rightarrow> char" where
  "hex_digit n = (if n < 10 then char_of (48 + n) else char_of (55 + n))"

definition PathEscape :: "string \<Rightarrow> string" where
  "PathEscape s =
     concat (map (\<lambda>c. if unreserved c then [c] else [CHR ''%'', hex_digit (of_char c div 16), hex_digit (of_char c mod 16)]) s)"

text \<open>
  The request that a client sends: the token of its configuration goes into the header, and a
  request without a body has the empty one here.
\<close>

definition apiRequest :: "Config \<Rightarrow> string \<Rightarrow> string \<Rightarrow> string \<Rightarrow> request" where
  "apiRequest cfg meth path bdy =
     \<lparr>rq_Method = meth, rq_Path = path,
      rq_Auth = (if ControlToken cfg \<noteq> [] then ''Bearer '' @ ControlToken cfg else []),
      rq_Query = [], rq_Body = bdy\<rparr>"

definition cmdInject :: "Config \<Rightarrow> string \<Rightarrow> request" where
  "cmdInject cfg scenarioName = apiRequest cfg ''POST'' (''/scenarios/'' @ PathEscape scenarioName @ ''/run'') []"

definition cmdHeal :: "Config \<Rightarrow> request" where
  "cmdHeal cfg = apiRequest cfg ''POST'' ''/heal'' []"

definition cmdStatus :: "Config \<Rightarrow> request" where
  "cmdStatus cfg = apiRequest cfg ''GET'' ''/status'' []"

record fault_flags =
  fl_config :: string
  fl_node :: string
  fl_kind :: string
  fl_value :: int
  fl_params :: string
  fl_for :: int
  fl_remove :: bool

text \<open>The map that is sent; \<open>None\<close> when the text of \<open>--params\<close> is no JSON object.\<close>

definition fault_body :: "fault_flags \<Rightarrow> goval option" where
  "fault_body fl =
     (case (if fl_params fl = [] then Some [] else map_option (\<lambda>p. [(''params'', p)]) (unmarshal_map (fl_params fl))) of
        None \<Rightarrow> None
      | Some ps \<Rightarrow>
          Some (GMap ([(''kind'', GString (fl_kind fl))]
            @ (if fl_kind fl = ''latency'' then [(''latency_ms'', GInt (fl_value fl))]
               else if fl_kind fl = ''drop'' then [(''drop_percent'', GInt (fl_value fl))] else [])
            @ ps @ (if fl_for fl > 0 then [(''for_ms'', GInt (fl_for fl))] else []))))"

definition cmdFault :: "(real \<Rightarrow> number) \<Rightarrow> Config \<Rightarrow> fault_flags \<Rightarrow> request option" where
  "cmdFault jf cfg fl =
     (if fl_remove fl
      then Some (apiRequest cfg ''DELETE'' (''/nodes/'' @ PathEscape (fl_node fl) @ ''/faults/'' @ PathEscape (fl_kind fl)) [])
      else map_option (\<lambda>b. apiRequest cfg ''POST'' (''/nodes/'' @ PathEscape (fl_node fl) @ ''/fault'') (Marshal jf b)) (fault_body fl))"

text \<open>What it prints, or \<open>None\<close> for exit code 1.\<close>

definition cmdCheck :: "'s shell \<Rightarrow> Config \<Rightarrow> string \<Rightarrow> 's \<Rightarrow> string option \<times> 's" where
  "cmdCheck sh cfg query s =
     (if query = [] then (None, s)
      else (case check_Run sh cfg query s of (rs, s') \<Rightarrow> (Some (Render rs), s')))"

section \<open>From the argument list\<close>

definition config_flag :: "string \<times> flag_value" where
  "config_flag = (''config'', FvString ''config.yaml'')"

definition inject_flag_set :: flag_set where
  "inject_flag_set = [config_flag, (''scenario'', FvString [])]"

definition fault_flag_set :: flag_set where
  "fault_flag_set = [config_flag, (''node'', FvString []), (''kind'', FvString []), (''value'', FvInt 0), (''params'', FvString []),
     (''for'', FvInt 0), (''remove'', FvBool False)]"

definition check_flag_set :: flag_set where
  "check_flag_set = [config_flag, (''query'', FvString [])]"

definition string_flag :: "flag_set \<Rightarrow> string \<Rightarrow> string" where
  "string_flag fs k = (case map_of fs k of Some (FvString s) \<Rightarrow> s | _ \<Rightarrow> [])"

definition int_flag :: "flag_set \<Rightarrow> string \<Rightarrow> int" where
  "int_flag fs k = (case map_of fs k of Some (FvInt i) \<Rightarrow> i | _ \<Rightarrow> 0)"

definition bool_flag :: "flag_set \<Rightarrow> string \<Rightarrow> bool" where
  "bool_flag fs k = (case map_of fs k of Some (FvBool b) \<Rightarrow> b | _ \<Rightarrow> False)"

definition flags_of :: "flag_set \<Rightarrow> fault_flags" where
  "flags_of fs =
     \<lparr>fl_config = string_flag fs ''config'', fl_node = string_flag fs ''node'', fl_kind = string_flag fs ''kind'',
      fl_value = int_flag fs ''value'', fl_params = string_flag fs ''params'', fl_for = int_flag fs ''for'',
      fl_remove = bool_flag fs ''remove''\<rparr>"

datatype outcome = Exits nat | Serves Config | Sends request | Prints string

text \<open>
  \<^verbatim>\<open>flag.ExitOnError\<close>: help exits with 0, an error with 2. \<open>must\<close> exits with 1.
\<close>

definition with_flags :: "flag_set \<Rightarrow> string list \<Rightarrow> (flag_set \<Rightarrow> outcome \<times> 's) \<Rightarrow> 's \<Rightarrow> outcome \<times> 's" where
  "with_flags fs args k m =
     (case flags_Parse fs args of FlagHelp \<Rightarrow> (Exits 0, m) | FlagError \<Rightarrow> (Exits 2, m) | FlagsParsed fs' _ \<Rightarrow> k fs')"

definition must :: "'e + 'a \<Rightarrow> ('a \<Rightarrow> outcome \<times> 's) \<Rightarrow> 's \<Rightarrow> outcome \<times> 's" where
  "must r k m = (case r of Inl _ \<Rightarrow> (Exits 1, m) | Inr x \<Rightarrow> k x)"

definition must_Some :: "'a option \<Rightarrow> ('a \<Rightarrow> outcome) \<Rightarrow> outcome" where
  "must_Some r k = (case r of None \<Rightarrow> Exits 1 | Some x \<Rightarrow> k x)"

definition run_command ::
  "(string \<Rightarrow> config_error + Config) \<Rightarrow> (real \<Rightarrow> number) \<Rightarrow> (real \<Rightarrow> string) \<Rightarrow> 's shell \<Rightarrow> command \<Rightarrow> string list \<Rightarrow> 's
     \<Rightarrow> outcome \<times> 's" where
  "run_command load jf ff sh cmd args m =
     (let loaded = (\<lambda>fs k. must (load (string_flag fs ''config'')) k m)
      in case cmd of
        CmdServe \<Rightarrow> with_flags [config_flag] args (\<lambda>fs. loaded fs (\<lambda>cfg. (Serves cfg, m))) m
      | CmdInject \<Rightarrow> with_flags inject_flag_set args (\<lambda>fs. loaded fs (\<lambda>cfg. (Sends (cmdInject cfg (string_flag fs ''scenario'')), m))) m
      | CmdFault \<Rightarrow> with_flags fault_flag_set args (\<lambda>fs. loaded fs (\<lambda>cfg. (must_Some (cmdFault jf cfg (flags_of fs)) Sends, m))) m
      | CmdHeal \<Rightarrow> with_flags [config_flag] args (\<lambda>fs. loaded fs (\<lambda>cfg. (Sends (cmdHeal cfg), m))) m
      | CmdStatus \<Rightarrow> with_flags [config_flag] args (\<lambda>fs. loaded fs (\<lambda>cfg. (Sends (cmdStatus cfg), m))) m
      | CmdCheck \<Rightarrow> with_flags check_flag_set args (\<lambda>fs. loaded fs (\<lambda>cfg.
          (case cmdCheck sh cfg (string_flag fs ''query'') m of (out, m') \<Rightarrow> (must_Some out Prints, m')))) m
      | CmdKinds \<Rightarrow> with_flags [] args (\<lambda>fs. (Prints (cmdKinds ff), m)) m
      | CmdUsage \<Rightarrow> (Exits 0, m))"

definition cli_main ::
  "(string \<Rightarrow> config_error + Config) \<Rightarrow> (real \<Rightarrow> number) \<Rightarrow> (real \<Rightarrow> string) \<Rightarrow> 's shell \<Rightarrow> string list \<Rightarrow> 's \<Rightarrow> outcome \<times> 's" where
  "cli_main load jf ff sh args m =
     (case main_dispatch args of
        Inl _ \<Rightarrow> (Exits 1, m)
      | Inr (cmd, rest) \<Rightarrow> run_command load jf ff sh cmd rest m)"

text \<open>What a client command prints of the response to its request.\<close>

definition print_response :: "command \<Rightarrow> string \<Rightarrow> string \<Rightarrow> string" where
  "print_response cmd status out = (if cmd = CmdStatus then out else status @ '': '' @ out) @ [newline]"

section \<open>Serving a validated configuration\<close>

lemma serve_proxies_distinct:
  "distinct (map Name ns) \<Longrightarrow> serve_proxies ns = map (\<lambda>n. (Name n, node_proxy n)) ns"
proof (induction ns rule: rev_induct)
  case (snoc n ns)
  then have "filter (\<lambda>x. fst x \<noteq> Name n) (map (\<lambda>n. (Name n, node_proxy n)) ns) = map (\<lambda>n. (Name n, node_proxy n)) ns"
    by (intro filter_True) force
  with snoc show ?case by (simp add: serve_proxies_def put_proxy_def)
qed (simp add: serve_proxies_def)

lemma valid_config_facts:
  assumes "Config_Validate cfg = None"
  shows "distinct (map Name (Nodes cfg))"
    and "sc \<in> set (Scenarios cfg) \<Longrightarrow> st \<in> set (Steps sc) \<Longrightarrow> step_Node st = ''*'' \<or> step_Node st \<in> Name ` set (Nodes cfg)"
proof -
  obtain seen where v: "validate_nodes {} (Nodes cfg) = Inr seen" "validate_scenarios seen (Scenarios cfg) = None"
    using assms by (auto simp: Config_Validate_def split: if_splits sum.splits)
  from v(1) show "distinct (map Name (Nodes cfg))" by (simp add: validate_nodes_Inr)
  show "sc \<in> set (Scenarios cfg) \<Longrightarrow> st \<in> set (Steps sc) \<Longrightarrow> step_Node st = ''*'' \<or> step_Node st \<in> Name ` set (Nodes cfg)"
    using v by (auto simp: validate_nodes_Inr validate_scenarios_None list_all_iff)
qed

section \<open>Properties\<close>

text \<open>
  C35: what a validated configuration serves. There is one proxy per node, in the order of the
  configuration, with the node's addresses and stream and without a fault; and every step of
  every scenario names proxies that exist, so that no scenario run can fail on an unknown
  target.
\<close>

theorem serve_valid_config:
  assumes "Config_Validate cfg = None"
  shows "map fst (Proxies (sv_engine (cmdServe cfg ns m))) = map Name (Nodes cfg)
    \<and> (\<forall>n \<in> set (Nodes cfg). \<exists>p. map_of (Proxies (sv_engine (cmdServe cfg ns m))) (Name n) = Some p
         \<and> p_UpstreamAddr p = UpstreamAddr n \<and> (p_Stream p = ReplicationStream \<longleftrightarrow> Stream n = ''replication'')
         \<and> \<not> severed p \<and> Names (p_reg p) = [])
    \<and> (\<forall>sc \<in> set (Scenarios cfg). \<forall>st \<in> set (Steps sc). \<exists>ts.
         targets (sv_engine (cmdServe cfg ns m)) (step_Node st) = Inr ts \<and> ts \<noteq> [])"
proof -
  note f = valid_config_facts [OF assms]
  let ?ps = "map (\<lambda>n. (Name n, node_proxy n)) (Nodes cfg)"
  have ps: "Proxies (sv_engine (cmdServe cfg ns m)) = ?ps"
    by (simp add: cmdServe_def NewServer_def engine_New_def serve_proxies_distinct [OF f(1)])
  have "map_of ?ps (Name n) = Some (node_proxy n)" if "n \<in> set (Nodes cfg)" for n
    using f(1) that by (intro map_of_is_SomeI) (auto simp: comp_def)
  moreover have "p_UpstreamAddr (node_proxy n) = UpstreamAddr n
      \<and> (p_Stream (node_proxy n) = ReplicationStream \<longleftrightarrow> Stream n = ''replication'')
      \<and> \<not> severed (node_proxy n) \<and> Names (p_reg (node_proxy n)) = []" for n
    by (simp add: node_proxy_def proxy_New_def IsReplicationStream_def severed_def Names_def NewRegistry_def Let_def)
  moreover have "\<exists>ts. targets (sv_engine (cmdServe cfg ns m)) (step_Node st) = Inr ts \<and> ts \<noteq> []"
    if "sc \<in> set (Scenarios cfg)" "st \<in> set (Steps sc)" for sc st
    using f(2) [OF that] assms by (auto simp: targets_def ps image_image Config_Validate_def split: if_splits)
  ultimately show ?thesis unfolding ps by (simp add: comp_def)
qed

definition ex_served :: Config where
  "ex_served = \<lparr>Nodes = [ex_check_node ''a'' [], ex_check_node ''b'' []],
     Scenarios = [\<lparr>sc_Name = ''lag'', Description = [], Steps = [(ex_fault ''latency'' 0)\<lparr>step_Node := ''b''\<rparr>]\<rparr>],
     ControlAddr = ''127.0.0.1:8080'', ControlToken = ''secret''\<rparr>"

lemma ex_served_valid: "Config_Validate ex_served = None"
  by (simp add: Config_Validate_def ex_served_def ex_check_node_def ex_fault_def stream_known_def)

theorem serve_valid_config_witness:
  "map fst (Proxies (sv_engine (cmdServe ex_served ex_net ()))) = [''a'', ''b'']"
  using serve_valid_config [OF ex_served_valid, of ex_net "()"] by (simp add: ex_served_def ex_check_node_def)

text \<open>The step that the flags of \<open>fault\<close> ask for.\<close>

definition flag_params :: "fault_flags \<Rightarrow> string \<rightharpoonup> any_val" where
  "flag_params fl = (case unmarshal_map (fl_params fl) of Some (GMap m) \<Rightarrow> put_params Map.empty m | _ \<Rightarrow> Map.empty)"

definition flag_step :: "fault_flags \<Rightarrow> FaultStep" where
  "flag_step fl =
     \<lparr>step_Node = fl_node fl, Kind = fl_kind fl,
      LatencyMs = (if fl_kind fl = ''latency'' then fl_value fl else 0),
      DropPercent = (if fl_kind fl = ''drop'' then fl_value fl else 0),
      Params = flag_params fl, AfterMs = 0, ForMs = max 0 (fl_for fl)\<rparr>"

lemma fault_body_sorted:
  assumes "fault_body fl = Some b"
  obtains ps where "json_of jf b = JObj
      ((if fl_kind fl = ''drop'' then [(''drop_percent'', JNum (int_number (fl_value fl)))] else [])
       @ (if fl_for fl > 0 then [(''for_ms'', JNum (int_number (fl_for fl)))] else [])
       @ [(''kind'', JStr (fl_kind fl))]
       @ (if fl_kind fl = ''latency'' then [(''latency_ms'', JNum (int_number (fl_value fl)))] else [])
       @ map (\<lambda>p. (''params'', json_of jf p)) ps)"
    and "fl_params fl = [] \<and> ps = [] \<or> (\<exists>p. ps = [p] \<and> unmarshal_map (fl_params fl) = Some p)"
    and "floats_of b = (\<Union>p \<in> set ps. floats_of p)"
proof (cases "fl_params fl = []")
  case True
  from assms True have "b = GMap ([(''kind'', GString (fl_kind fl))]
      @ (if fl_kind fl = ''latency'' then [(''latency_ms'', GInt (fl_value fl))]
         else if fl_kind fl = ''drop'' then [(''drop_percent'', GInt (fl_value fl))] else [])
      @ (if fl_for fl > 0 then [(''for_ms'', GInt (fl_for fl))] else []))"
    by (simp add: fault_body_def)
  with True show ?thesis by (intro that [of "[]"]) auto
next
  case False
  with assms obtain p where p: "unmarshal_map (fl_params fl) = Some p" by (auto simp: fault_body_def split: option.splits)
  with assms False have "b = GMap ([(''kind'', GString (fl_kind fl))]
      @ (if fl_kind fl = ''latency'' then [(''latency_ms'', GInt (fl_value fl))]
         else if fl_kind fl = ''drop'' then [(''drop_percent'', GInt (fl_value fl))] else [])
      @ [(''params'', p)] @ (if fl_for fl > 0 then [(''for_ms'', GInt (fl_for fl))] else []))"
    by (simp add: fault_body_def)
  with p show ?thesis by (intro that [of "[p]"]) auto
qed

text \<open>The server reads from the body what the flags say.\<close>

lemma fault_body_decodes:
  assumes b: "fault_body fl = Some b" and k: "valid_utf8 (fl_kind fl)"
    and r: "- (2 ^ 63) \<le> fl_value fl" "fl_value fl < 2 ^ 63" "fl_for fl < 2 ^ 63"
    and f: "\<forall>x \<in> floats_of b. formats jf x" and d: "depth (json_of jf b) \<le> maxNestingDepth"
  shows "\<exists>req. decode_request jerr (Marshal jf b) = Inr req \<and> step_of (fl_node fl) req = flag_step fl"
proof -
  from b obtain ps where j: "json_of jf b = JObj
      ((if fl_kind fl = ''drop'' then [(''drop_percent'', JNum (int_number (fl_value fl)))] else [])
       @ (if fl_for fl > 0 then [(''for_ms'', JNum (int_number (fl_for fl)))] else [])
       @ [(''kind'', JStr (fl_kind fl))]
       @ (if fl_kind fl = ''latency'' then [(''latency_ms'', JNum (int_number (fl_value fl)))] else [])
       @ map (\<lambda>p. (''params'', json_of jf p)) ps)"
    and ps: "fl_params fl = [] \<and> ps = [] \<or> (\<exists>p. ps = [p] \<and> unmarshal_map (fl_params fl) = Some p)"
    and fl: "floats_of b = (\<Union>p \<in> set ps. floats_of p)" by (rule fault_body_sorted)
  have rw: "rewritable jf p" if "ps = [p]" "unmarshal_map (fl_params fl) = Some p" for p
    using unmarshal_map_rewritable [OF that(2)] f fl that(1) by simp
  have "wf_json (json_of jf b)" using k ps rw by (auto simp: j int_number_facts(2) rewritable_wf)
  then have dec: "decode_value (Marshal jf b) = Some (json_of jf b)" using d by (simp add: Marshal_def decode_written)
  have pm: "set_members (map (\<lambda>p. (''params'', json_of jf p)) ps) req = Some (req\<lparr>fr_Params := flag_params fl\<rparr>)"
    if "fr_Params req = Map.empty" for req
  proof -
    have "unmarshal_map [] = None" by (simp add: unmarshal_map_def unmarshal_value_def read_json.simps)
    then show ?thesis
      using ps that
    proof (elim disjE exE conjE)
      fix p
      assume p: "ps = [p]" "unmarshal_map (fl_params fl) = Some p"
      from p(2) show ?thesis
      proof (cases rule: unmarshal_map_cases)
        case 1
        with p that show ?thesis by (simp add: known_field request_fields_def set_field_def params_field_def flag_params_def)
      next
        case (2 m)
        with rewritable_map [of jf m "Map.empty"] rw [OF p] obtain m' where
          "any_value (json_of jf (GMap m)) = Some (GMap m')" "put_params Map.empty m' = put_params Map.empty m" by blast
        with 2 p that show ?thesis
          by (simp add: known_field request_fields_def set_field_def params_field_def flag_params_def del: any_value.simps)
      qed
    qed (simp add: flag_params_def)
  qed
  have "\<exists>req. request_of (json_of jf b) = Some req \<and> step_of (fl_node fl) req = flag_step fl"
    using r pm
    by (simp add: j request_of_def known_field request_fields_def set_field_def int_field_def string_field_def int_number_facts zero_request_def step_of_def flag_step_def max_def)
  with dec show ?thesis by (auto simp: decode_request_def)
qed

lemma client_authorised:
  assumes "sv_cfg s = cfg" "h \<notin> {HIndex, HStatic}" "chi (public_routes @ api_routes) (apiRequest cfg meth path bdy) = Some (h, ps)"
  shows "Handler sys fmt sh decode chi (apiRequest cfg meth path bdy) s
    = (case serve_api sys fmt sh decode h ps (apiRequest cfg meth path bdy) s of (resp, s1) \<Rightarrow> (Some resp, s1))"
  using assms bearer_accepts [of "rq_Auth (apiRequest cfg meth path bdy)" "ControlToken cfg"]
  by (auto simp: Handler_def requireBearerToken_def public_routes_def apiRequest_def bearer_def)

text \<open>The arguments that set the flags, each flag and its value in one argument or in two.\<close>

definition fault_assignments :: "fault_flags \<Rightarrow> (string \<times> flag_value) list" where
  "fault_assignments fl =
     [(''config'', FvString (fl_config fl)), (''node'', FvString (fl_node fl)), (''kind'', FvString (fl_kind fl)),
      (''value'', FvInt (fl_value fl)), (''params'', FvString (fl_params fl)), (''for'', FvInt (fl_for fl)), (''remove'', FvBool (fl_remove fl))]"

definition fault_args :: "(string \<Rightarrow> bool) \<Rightarrow> fault_flags \<Rightarrow> string list" where
  "fault_args two fl = concat (map (\<lambda>nv. flag_args (two (fst nv)) nv) (fault_assignments fl))"

lemma fault_args_parsed:
  assumes "- (2 ^ 63) \<le> fl_value fl" "fl_value fl < 2 ^ 63" "- (2 ^ 63) \<le> fl_for fl" "fl_for fl < 2 ^ 63"
  shows "\<exists>fs. flags_Parse fault_flag_set (fault_args two fl) = FlagsParsed fs [] \<and> flags_of fs = fl"
proof -
  let ?xs = "map (\<lambda>nv. (two (fst nv), nv)) (fault_assignments fl)"
  have "list_all (assigns fault_flag_set \<circ> snd) ?xs"
    using assms by (simp add: fault_assignments_def assigns_def fault_flag_set_def config_flag_def name_ok_def flag_ok_def same_type_def)
  from Parse_assignments [OF this] show ?thesis
    by (simp add: fault_args_def comp_def)
      (simp add: fault_assignments_def fault_flag_set_def config_flag_def put_flag_def flags_of_def string_flag_def int_flag_def bool_flag_def)
qed

text \<open>
  C33: the fault command, from its arguments to the engine. Run with flags that set the values
  \<open>fl\<close>, each flag with its value in one argument or in two, it sends a request that a server
  with the same configuration, token included, reads back and applies to the engine as exactly the
  step that these values describe: if the engine accepts it, the answer is 200 and the proxies
  are as that step leaves them; if it refuses it, the answer is 400 and they are unchanged. The
  router gives the node of the path to the fault handler, floats are formatted so that they
  read back, the kind is valid UTF-8 and the parameters are nested less than 10000 deep.
\<close>

theorem fault_command_applies:
  assumes "- (2 ^ 63) \<le> fl_value fl" "fl_value fl < 2 ^ 63" "- (2 ^ 63) \<le> fl_for fl" "fl_for fl < 2 ^ 63"
    and "load (fl_config fl) = Inr (sv_cfg s)" "\<not> fl_remove fl" "fault_body fl = Some b"
    and "valid_utf8 (fl_kind fl)" "\<forall>x \<in> floats_of b. formats jf x" "depth (json_of jf b) \<le> maxNestingDepth"
    and "fl_node fl \<in> fst ` set (Proxies (sv_engine s))"
    and "\<And>r. rq_Method r = ''POST'' \<Longrightarrow> rq_Path r = ''/nodes/'' @ PathEscape (fl_node fl) @ ''/fault'' \<Longrightarrow>
           chi (public_routes @ api_routes) r = Some (HFault, ps)"
    and "ps ''node'' = fl_node fl" "engine_Apply sys fmt (flag_step fl) (sv_engine s) = (err, e)"
  shows "\<exists>r resp s'. cli_main load jf ff sh (prog # ''fault'' # fault_args two fl) m = (Sends r, m)
    \<and> Handler sys fmt sh' (decode_request jerr) chi r s = (Some resp, s')
    \<and> rs_Code resp = (if err = None then 200 else 400) \<and> Proxies (sv_engine s') = Proxies e
    \<and> (err \<noteq> None \<longrightarrow> Proxies e = Proxies (sv_engine s))"
proof -
  let ?r = "apiRequest (sv_cfg s) ''POST'' (''/nodes/'' @ PathEscape (fl_node fl) @ ''/fault'') (Marshal jf b)"
  from fault_args_parsed [OF assms(1-4)] obtain fs where fs: "flags_Parse fault_flag_set (fault_args two fl) = FlagsParsed fs []" "flags_of fs = fl"
    by blast
  then have "string_flag fs ''config'' = fl_config fl" by (auto simp: flags_of_def)
  with fs assms(5-7) have sent: "cli_main load jf ff sh (prog # ''fault'' # fault_args two fl) m = (Sends ?r, m)"
    by (simp add: cli_main_def main_dispatch_def run_command_def with_flags_def must_def must_Some_def cmdFault_def)
  obtain p where p: "map_of (Proxies (sv_engine s)) (fl_node fl) = Some p"
    using assms(11) by (metis map_of_eq_None_iff not_None_eq)
  from fault_body_decodes [OF assms(7,8,1,2,4,9,10), of jerr] obtain req where
    req: "decode_request jerr (Marshal jf b) = Inr req" "step_of (fl_node fl) req = flag_step fl" by blast
  have c: "chi (public_routes @ api_routes) ?r = Some (HFault, ps)" by (rule assms(12)) (simp_all add: apiRequest_def)
  have "Handler sys fmt sh' (decode_request jerr) chi ?r s =
    (case serve_api sys fmt sh' (decode_request jerr) HFault ps ?r s of (resp, s1) \<Rightarrow> (Some resp, s1))"
    by (rule client_authorised) (use c in simp_all)
  moreover have "serve_api sys fmt sh' (decode_request jerr) HFault ps ?r s
      = handleFault sys fmt (decode_request jerr) (fl_node fl) (Marshal jf b) s"
    by (simp add: serve_api_def assms(13)) (simp add: apiRequest_def)
  moreover have "err = Some x \<Longrightarrow> Proxies e = Proxies (sv_engine s)" for x
    using assms(14) apply_kind_frame [of sys fmt "flag_step fl" _ "sv_engine s" x e]
    by (auto simp: engine_Apply_def split: sum.splits)
  ultimately show ?thesis
    using sent p req assms(14)
    by (cases err) (auto simp: handleFault_def respond_status_def writeJSON_def http_Error_def after_status_def)
qed

definition ex_flags :: fault_flags where
  "ex_flags = \<lparr>fl_config = ''c.yaml'', fl_node = ''a'', fl_kind = ''partition'', fl_value = 0, fl_params = [], fl_for = 0, fl_remove = False\<rparr>"

definition ex_fault_chi :: router where
  "ex_fault_chi rts r = (if rq_Path r = ''/nodes/a/fault'' then Some (HFault, \<lambda>_. ''a'') else None)"

definition ex_format :: "real \<Rightarrow> number" where
  "ex_format x = int_number \<lfloor>x\<rfloor>"

definition ex_params :: json where
  "ex_params = JObj [(''delay'', JNum (int_number 250))]"

definition ex_param_flags :: fault_flags where
  "ex_param_flags = ex_flags\<lparr>fl_kind := ''latency'', fl_value := 100, fl_params := write_json ex_params\<rparr>"

lemma ex_params_read: "unmarshal_map (write_json ex_params) = Some (GMap [(''delay'', GFloat 250)])"
proof -
  have "valid_utf8 ''delay''" by (rule ascii_valid) simp
  then have "unmarshal_value (write_json ex_params) = Some ex_params"
    by (intro unmarshal_written) (simp_all add: ex_params_def int_number_facts maxNestingDepth_def)
  moreover have "float_of (int_number 250) = Some 250" by (simp add: float_of_def int_number_facts)
  ultimately show ?thesis by (simp add: unmarshal_map_def ex_params_def put_key_def)
qed

theorem fault_command_applies_witness:
  "\<exists>r resp s'. cli_main (\<lambda>_. Inr (sv_cfg (ex_server ''secret''))) ex_format (\<lambda>_. []) ex_shell
        (''dbfailsim'' # ''fault'' # fault_args (\<lambda>n. n = ''kind'') ex_param_flags) () = (Sends r, ())
     \<and> Handler ex_remote (\<lambda>t. []) ex_node_shell (decode_request (\<lambda>_. [])) ex_fault_chi r (ex_server ''secret'') = (Some resp, s')
     \<and> rs_Code resp = 200"
proof -
  let ?s = "ex_server ''secret''" and ?fl = ex_param_flags
  let ?b = "GMap [(''kind'', GString ''latency''), (''latency_ms'', GInt 100), (''params'', GMap [(''delay'', GFloat 250)])]"
  have ne: "write_json ex_params \<noteq> []" by (simp add: ex_params_def)
  have b: "fault_body ?fl = Some ?b" using ne by (simp add: fault_body_def ex_param_flags_def ex_flags_def ex_params_read)
  have fm: "\<forall>x \<in> floats_of ?b. formats ex_format x" by (simp add: formats_def ex_format_def int_number_facts float_of_def)
  have dp: "depth (json_of ex_format ?b) \<le> maxNestingDepth" by (simp add: maxNestingDepth_def)
  have k: "valid_utf8 (fl_kind ?fl)" by (rule ascii_valid) (simp add: ex_param_flags_def)
  have n: "fl_node ?fl \<in> fst ` set (Proxies (sv_engine ?s))" "\<not> fl_remove ?fl" "(\<lambda>_. ''a'') ''node'' = fl_node ?fl"
    by (simp_all add: ex_param_flags_def ex_flags_def ex_server_def NewServer_def ex_engine_def engine_New_def)
  obtain e where e: "engine_Apply ex_remote (\<lambda>t. []) (flag_step ?fl) (sv_engine ?s) = (None, e)"
    by (simp add: engine_Apply_def flag_step_def ex_param_flags_def ex_flags_def apply_kind_def targets_def ex_server_def NewServer_def
        ex_engine_def engine_New_def Let_def)
  have c: "ex_fault_chi (public_routes @ api_routes) r = Some (HFault, \<lambda>_. ''a'')"
    if "rq_Path r = ''/nodes/'' @ PathEscape (fl_node ?fl) @ ''/fault''" for r
    using that by (simp add: ex_fault_chi_def ex_param_flags_def ex_flags_def PathEscape_def unreserved_def is_letter_def)
  have z: "- (2 ^ 63) \<le> fl_value ?fl" "fl_value ?fl < 2 ^ 63" "- (2 ^ 63) \<le> fl_for ?fl" "fl_for ?fl < 2 ^ 63"
    by (simp_all add: ex_param_flags_def ex_flags_def)
  show ?thesis
    using fault_command_applies [where fl = ?fl and s = ?s and load = "\<lambda>_. Inr (sv_cfg ?s)" and ps = "\<lambda>_. ''a''" and chi = ex_fault_chi,
        OF z refl n(2) b k fm dp n(1) c n(3) e, of "\<lambda>_. []" ex_shell "''dbfailsim''" "\<lambda>n. n = ''kind''" "()" ex_node_shell "\<lambda>_. []"]
    by auto
qed

end
