(* ===== verification/System.thy ===== *)
theory System
  imports Engine_Moves Cli
begin

text \<open>
  The running server as a whole: what \<^verbatim>\<open>dbfailsim serve\<close> starts
  (\<^verbatim>\<open>cmd/dbfailsim/main.go\<close>), with its goroutines as the steps of one transition system.
  A step is a request to the control API, the start or the next step of a scenario that a
  request started, a timer that goes off, time that passes, a beat of a fault's ticker, a
  connection that is accepted, a read of one of its two pumps, or its end. Steps of different
  goroutines interleave in any order; each of them is atomic.
\<close>

section \<open>State and steps\<close>

text \<open>\<open>runs\<close>: the scenarios under way, each with its start and the steps it has left. \<open>lives\<close>: the connections being served.\<close>

record 's deployment =
  srv :: "'s server"
  runs :: "(instant \<times> FaultStep list) list"
  lives :: "(string \<times> served) list"

datatype event = Request request | Scenario_runs | Timer_fires | Time_passes | Ticker_beats | Traffic

definition eng :: "'s deployment \<Rightarrow> 's engine" where
  "eng S = sv_engine (srv S)"

definition with_engine :: "'s engine \<Rightarrow> 's deployment \<Rightarrow> 's deployment" where
  "with_engine e S = S\<lparr>srv := (srv S)\<lparr>sv_engine := e\<rparr>\<rparr>"

definition boot :: "Config \<Rightarrow> net_state \<Rightarrow> 's \<Rightarrow> 's deployment" where
  "boot cfg ns m = \<lparr>srv = cmdServe cfg ns m, runs = [], lives = []\<rparr>"

definition source_of :: "Direction \<Rightarrow> session \<Rightarrow> conn_id" where
  "source_of dir ss = (case dir of DirectionClientToUpstream \<Rightarrow> s_client ss | DirectionUpstreamToClient \<Rightarrow> s_upstream ss)"

text \<open>The sockets of the connections of a node, with the number of their session.\<close>

definition sockets_of :: "(string \<times> served) list \<Rightarrow> string \<Rightarrow> (conn_id \<times> conn_id \<times> nat) list" where
  "sockets_of L n = map (\<lambda>(m, v). (s_client (sv_session v), s_upstream (sv_session v), sess_id (sv_session v)))
     (filter (\<lambda>(m, v). m = n) L)"

inductive sys_step ::
  "'s system \<Rightarrow> (instant \<Rightarrow> string) \<Rightarrow> 's shell \<Rightarrow> (string \<Rightarrow> string + faultRequest) \<Rightarrow> router
     \<Rightarrow> event \<Rightarrow> 's deployment \<Rightarrow> 's deployment \<Rightarrow> bool" for sys fmt sh decode chi where
  request: "sys_step sys fmt sh decode chi (Request r) S (S\<lparr>srv := snd (Handler sys fmt sh decode chi r (srv S))\<rparr>)"
| launch: "spawned (srv S) = xs @ sc # ys \<Longrightarrow>
     sys_step sys fmt sh decode chi Scenario_runs S
       (S\<lparr>srv := (srv S)\<lparr>spawned := xs @ ys\<rparr>, runs := runs S @ [(clock (eng S), sort_key AfterMs (Steps sc))]\<rparr>)"
| run: "runs S = xs @ (start, step # steps) # ys \<Longrightarrow> After step \<le> time_Sub (clock (eng S)) start \<Longrightarrow>
     engine_Apply sys fmt step (eng S) = (err, e') \<Longrightarrow>
     sys_step sys fmt sh decode chi Scenario_runs S
       ((with_engine e' S)\<lparr>runs := xs @ (case err of None \<Rightarrow> [(start, steps)] | Some _ \<Rightarrow> []) @ ys\<rparr>)"
| complete: "runs S = xs @ (start, []) # ys \<Longrightarrow> sys_step sys fmt sh decode chi Scenario_runs S (S\<lparr>runs := xs @ ys\<rparr>)"
| timer: "timers (eng S) = xs @ (d, act) # ys \<Longrightarrow> d \<le> clock (eng S) \<Longrightarrow>
     sys_step sys fmt sh decode chi Timer_fires S (with_engine (fire sys fmt act ((eng S)\<lparr>timers := xs @ ys\<rparr>)) S)"
| time: "clock (eng S) \<le> t \<Longrightarrow> sys_step sys fmt sh decode chi Time_passes S (with_engine (set_clock t (eng S)) S)"
| beat: "map_of (Proxies (eng S)) n = Some p \<Longrightarrow>
     sys_step sys fmt sh decode chi Ticker_beats S
       (with_engine ((eng S)\<lparr>e_net := (e_net (eng S))\<lparr>net := ticker_fire name (p_reg p) (net (e_net (eng S)))\<rparr>\<rparr>) S)"
| accept: "map_of (Proxies (eng S)) n = Some p \<Longrightarrow>
     (\<And>m. c \<notin> set (socks (sockets_of (lives S) m))) \<Longrightarrow>
     (\<And>u m. d = Some u \<Longrightarrow> u \<noteq> c \<and> u \<notin> set (socks (sockets_of (lives S) m))) \<Longrightarrow>
     Serve_accept c i d p ((e_net (eng S))\<lparr>open_conns := insert c (open_conns (e_net (eng S)))\<rparr>) = (res, p', ns) \<Longrightarrow>
     sys_step sys fmt sh decode chi Traffic S
       ((with_engine ((on_proxy (\<lambda>_. p') n (eng S))\<lparr>e_net := ns\<rparr>) S)
         \<lparr>lives := (case res of Serving ss \<Rightarrow> [(n, start_legs ss)] | _ \<Rightarrow> []) @ lives S\<rparr>)"
| read: "lives S = xs @ (n, v) # ys \<Longrightarrow> map_of (Proxies (eng S)) n = Some p \<Longrightarrow>
     source_of dir (sv_session v) \<in> open_conns (e_net (eng S)) \<or> data = [] \<and> err \<Longrightarrow>
     leg_read p ctx (dir, data, err) (v, e_net (eng S)) = (v', ns) \<Longrightarrow>
     sys_step sys fmt sh decode chi Traffic S
       ((with_engine ((eng S)\<lparr>e_net := ns\<rparr>) S)\<lparr>lives := xs @ (n, v') # ys\<rparr>)"
| finish: "lives S = xs @ (n, v) # ys \<Longrightarrow> up_done v \<Longrightarrow> down_done v \<Longrightarrow>
     sys_step sys fmt sh decode chi Traffic S
       ((with_engine (on_proxy_net (handle_close (sv_session v)) n (eng S)) S)\<lparr>lives := xs @ ys\<rparr>)"

inductive exec ::
  "'s system \<Rightarrow> (instant \<Rightarrow> string) \<Rightarrow> 's shell \<Rightarrow> (string \<Rightarrow> string + faultRequest) \<Rightarrow> router
     \<Rightarrow> event list \<Rightarrow> 's deployment \<Rightarrow> 's deployment \<Rightarrow> bool" for sys fmt sh decode chi where
  exec_done: "exec sys fmt sh decode chi [] S S"
| exec_step: "sys_step sys fmt sh decode chi ev S S1 \<Longrightarrow> exec sys fmt sh decode chi evs S1 S' \<Longrightarrow>
     exec sys fmt sh decode chi (ev # evs) S S'"

lemmas sys_intros = request launch run complete timer time beat accept read finish

lemma eng_with [simp]:
  "eng (with_engine e S) = e" "runs (with_engine e S) = runs S" "lives (with_engine e S) = lives S"
  "spawned (srv (with_engine e S)) = spawned (srv S)" "sv_cfg (srv (with_engine e S)) = sv_cfg (srv S)"
  "eng (S\<lparr>runs := rs\<rparr>) = eng S" "eng (S\<lparr>lives := ls\<rparr>) = eng S" "eng (S\<lparr>srv := s\<rparr>) = sv_engine s"
  by (simp_all add: eng_def with_engine_def)

section \<open>Requests\<close>

lemma status_loop_moves: "moves may e (snd (status_loop out ns e))"
proof (induction ns arbitrary: e)
  case (Cons n ns)
  show ?case
  proof (cases "map_of (Proxies e) (Name n)")
    case (Some p)
    from Some moves_step [OF after_status_move [of may e p] Cons.IH] show ?thesis by (simp add: case_prod_unfold Let_def)
  qed (use Cons.IH in simp)
qed simp

lemma respond_status_moves: "moves may (sv_engine s) (sv_engine (snd (respond_status p s)))"
  by (simp add: respond_status_def r_into_rtranclp after_status_move)

lemma handleFault_moves: "moves True (sv_engine s) (sv_engine (snd (handleFault sys fmt decode node bdy s)))"
proof -
  have 1: "moves True (sv_engine s) e" if "engine_Apply sys fmt step (sv_engine s) = (err, e)" for step err e
    using engine_Apply_moves [of "sv_engine s" sys fmt step] that by simp
  moreover have "moves True (sv_engine s) (sv_engine (snd (respond_status p (s\<lparr>sv_engine := e\<rparr>))))"
    if "engine_Apply sys fmt step (sv_engine s) = (err, e)" for step err e p
    using rtranclp_trans [OF 1 [OF that]] respond_status_moves [of True "s\<lparr>sv_engine := e\<rparr>" p] by simp
  ultimately show ?thesis by (auto simp: handleFault_def split: option.splits sum.splits prod.splits)
qed

lemma handleFaultRemove_moves: "moves may (sv_engine s) (sv_engine (snd (handleFaultRemove sys fmt node name s)))"
proof -
  obtain r e where r: "RemoveFault sys fmt node name (sv_engine s) = (r, e)" by force
  have 1: "moves may (sv_engine s) e" using RemoveFault_moves [of may "sv_engine s" sys fmt node name] r by simp
  from rtranclp_trans [OF 1, of "sv_engine (snd (respond_status p (s\<lparr>sv_engine := e\<rparr>)))" for p]
    respond_status_moves [of may "s\<lparr>sv_engine := e\<rparr>"] 1 r
  show ?thesis by (auto simp: handleFaultRemove_def Let_def split: sum.splits option.splits)
qed

lemma serve_api_moves:
  assumes "may \<or> h \<noteq> HFault"
  shows "moves may (sv_engine s) (sv_engine (snd (serve_api sys fmt sh decode h ps r s)))"
proof (cases h)
  case HStatus
  then show ?thesis using status_loop_moves [of may "sv_engine s" "Outstanding (sv_engine s)" "Nodes (sv_cfg s)"]
    by (simp add: serve_api_def handleStatus_def case_prod_unfold)
next
  case HFault
  with assms handleFault_moves show ?thesis by (simp add: serve_api_def)
next
  case HFaultRemove
  then show ?thesis using handleFaultRemove_moves by (simp add: serve_api_def)
next
  case HHeal
  then show ?thesis using HealAll_moves by (simp add: serve_api_def handleHeal_def)
next
  case HCheck
  have "moves may (sv_engine s) ((sv_engine s)\<lparr>machine := m\<rparr>)" for m
    using move_nodes_only [of "injected (sv_engine s)" "sv_engine s" may m] by (simp add: r_into_rtranclp)
  with HCheck show ?thesis by (auto simp: serve_api_def handleCheck_def split: prod.splits)
next
  case HScenarioRun
  then show ?thesis by (simp add: serve_api_def handleScenarioRun_def split: option.splits)
qed (simp_all add: serve_api_def handleKinds_def handleScenarios_def)

lemma serve_api_spawned:
  "h \<noteq> HScenarioRun \<Longrightarrow> spawned (snd (serve_api sys fmt sh decode h ps r s)) = spawned s"
  by (auto simp: serve_api_def handleStatus_def handleKinds_def handleFault_def handleFaultRemove_def handleScenarios_def
      handleHeal_def handleCheck_def respond_status_def Let_def
      split: handler.splits option.splits sum.splits prod.splits)

text \<open>The requests that may add faults.\<close>

definition quiet :: "router \<Rightarrow> event \<Rightarrow> bool" where
  "quiet chi ev =
     (case ev of
        Request r \<Rightarrow> (case chi (public_routes @ api_routes) r of
                        Some (h, ps) \<Rightarrow> h \<noteq> HFault \<and> h \<noteq> HScenarioRun
                      | None \<Rightarrow> True)
      | _ \<Rightarrow> True)"

lemma Handler_cases:
  "snd (Handler sys fmt sh decode chi r s) = s
   \<or> (\<exists>h ps. chi (public_routes @ api_routes) r = Some (h, ps)
        \<and> snd (Handler sys fmt sh decode chi r s) = snd (serve_api sys fmt sh decode h ps r s))"
  by (auto simp: Handler_def requireBearerToken_def case_prod_unfold split: option.splits)

lemma Handler_moves:
  assumes "may \<or> quiet chi (Request r)"
  shows "moves may (sv_engine s) (sv_engine (snd (Handler sys fmt sh decode chi r s)))"
proof -
  from Handler_cases [of sys fmt sh decode chi r s] show ?thesis
  proof (elim disjE exE conjE)
    fix h ps
    assume c: "chi (public_routes @ api_routes) r = Some (h, ps)"
      and e: "snd (Handler sys fmt sh decode chi r s) = snd (serve_api sys fmt sh decode h ps r s)"
    have "may \<or> h \<noteq> HFault" using assms c by (auto simp: quiet_def)
    from serve_api_moves [OF this] show ?thesis unfolding e .
  qed simp
qed

lemma Handler_spawned:
  assumes "quiet chi (Request r)"
  shows "spawned (snd (Handler sys fmt sh decode chi r s)) = spawned s"
  using Handler_cases [of sys fmt sh decode chi r s] assms serve_api_spawned by (auto simp: quiet_def)

section \<open>The invariant of the running server\<close>

definition sys_ok :: "'s deployment \<Rightarrow> bool" where
  "sys_ok S \<longleftrightarrow> regs_typed (eng S) \<and> distinct (map fst (Proxies (eng S)))
     \<and> (\<forall>(n, v) \<in> set (lives S). session_typed (e_net (eng S)) (sv_session v))
     \<and> (\<forall>(n, p) \<in> set (Proxies (eng S)). tracks p (sockets_of (lives S) n))"

lemma sys_okI:
  assumes "regs_typed (eng S)" "distinct (map fst (Proxies (eng S)))"
    and "\<And>n v. (n, v) \<in> set (lives S) \<Longrightarrow> session_typed (e_net (eng S)) (sv_session v)"
    and "\<And>n p. (n, p) \<in> set (Proxies (eng S)) \<Longrightarrow> tracks p (sockets_of (lives S) n)"
  shows "sys_ok S"
  using assms by (auto simp: sys_ok_def)

lemma sys_okD:
  assumes "sys_ok S"
  shows "regs_typed (eng S)" "distinct (map fst (Proxies (eng S)))"
    and "(n, v) \<in> set (lives S) \<Longrightarrow> session_typed (e_net (eng S)) (sv_session v)"
    and "(n, p) \<in> set (Proxies (eng S)) \<Longrightarrow> tracks p (sockets_of (lives S) n)"
  using assms by (auto simp: sys_ok_def)

text \<open>What the engine does on its own keeps the invariant.\<close>

lemma sys_ok_moves:
  assumes "sys_ok S" "moves True (eng S) (eng S')" "lives S' = lives S"
  shows "sys_ok S'"
proof -
  have 1: "regs_typed (eng S') \<and> net_ext (e_net (eng S)) (e_net (eng S'))"
    using objects.kept_moves [OF assms(2), of "e_net (eng S)"] assms(1) by (simp add: sys_ok_def)
  have 2: "distinct (map fst (books (eng S))) \<and> books (eng S') = books (eng S)"
    using bookkeeping.kept_moves [OF assms(2), of "books (eng S)"] assms(1) by (simp add: sys_ok_def books_names)
  have "tracks p (sockets_of (lives S) n)" if "(n, p) \<in> set (Proxies (eng S'))" for n p
  proof -
    have "(n, conns p, active p) \<in> set (books (eng S'))" using that by (force simp: books_def)
    then have "(n, conns p, active p) \<in> set (books (eng S))" using 2 by simp
    then obtain q where "(n, q) \<in> set (Proxies (eng S))" "conns p = conns q" "active p = active q"
      by (auto simp: books_def)
    with assms(1) show ?thesis by (force simp: sys_ok_def intro: tracks_keep)
  qed
  with 1 2 assms(1,3) show ?thesis
    by (auto simp: sys_ok_def books_names intro: session_typed_mono)
qed

lemma on_proxy_mem:
  "(k, q) \<in> set (Proxies (on_proxy g n e)) \<longleftrightarrow> (\<exists>p. (k, p) \<in> set (Proxies e) \<and> q = (if k = n then g p else p))"
  by (force simp: on_proxy_def)

lemma leg_read_typed:
  assumes "leg_read p ctx (dir, data, err) (v, ns) = (v', ns')" "reg_typed ns (p_reg p)" "session_typed ns (sv_session v)"
  shows "same_objs (net ns) (net ns') \<and> dom (hooks ns') = dom (hooks ns) \<and> session_typed ns' (sv_session v')"
proof -
  obtain r ss1 s1 where 1: "(if data = [] then (PumpGoesOn, sv_session v, ns)
      else pump_chunk p dir (session_ctx ctx (sv_session v) ns) data (sv_session v) ns) = (r, ss1, s1)" by (metis prod.exhaust)
  have t: "same_objs (net ns) (net s1) \<and> dom (hooks s1) = dom (hooks ns) \<and> session_typed s1 ss1"
    using 1 assms(2,3) pump_chunk_typed [of p dir _ data "sv_session v" ns r ss1 s1] by (auto split: if_splits)
  have "session_typed (cancel i s1) ss1" for i using t by (simp add: session_typed_def cancel_def)
  then have t': "same_objs (net ns) (net s2) \<and> dom (hooks s2) = dom (hooks ns) \<and> session_typed s2 ss1"
    if "s2 = s1 \<or> s2 = cancel i s1" for s2 i using t that by (elim disjE) (simp_all add: cancel_def)
  have "leg_done dir v \<and> v' = v \<and> ns' = ns \<or> sv_session v' = ss1 \<and> (ns' = s1 \<or> ns' = cancel (sess_id ss1) s1)"
    using 1 assms(1) by (cases "data = []") (auto simp: leg_read_def split: if_splits)
  with t' [of ns' "sess_id ss1"] assms(3) show ?thesis by auto
qed

lemma accept_frame:
  assumes "Serve_accept c i d p ns = (res, p', ns')"
  shows "p_reg p' = p_reg p \<and> partitioned p' = partitioned p \<and> crashed p' = crashed p \<and> net ns' = net ns \<and> hooks ns' = hooks ns
    \<and> (\<forall>ss. res = Serving ss \<longrightarrow> (\<exists>u. d = Some u \<and> s_client ss = c \<and> s_upstream ss = u \<and> sess_id ss = i)
         \<and> wrapped (toUpstream ss) = None \<and> wrapped (toClient ss) = None)"
  using assms
  by (auto simp: Serve_accept_def handle_open_def track_def untrack_def close_conn_def cancel_def Wrap_def Let_def
      split: if_splits option.splits)

lemma sockets_of_simps [simp]:
  "sockets_of [] n = []"
  "sockets_of ((m, v) # L) n =
     (if m = n then [(s_client (sv_session v), s_upstream (sv_session v), sess_id (sv_session v))] else []) @ sockets_of L n"
  "sockets_of (L @ L') n = sockets_of L n @ sockets_of L' n"
  by (simp_all add: sockets_of_def)

lemma sys_ok_accept:
  assumes ok: "sys_ok S" and p: "map_of (Proxies (eng S)) n = Some p"
    and c: "\<And>m. c \<notin> set (socks (sockets_of (lives S) m))"
    and d: "\<And>u m. d = Some u \<Longrightarrow> u \<noteq> c \<and> u \<notin> set (socks (sockets_of (lives S) m))"
    and acc: "Serve_accept c i d p ((e_net (eng S))\<lparr>open_conns := oc\<rparr>) = (res, p', ns)"
  shows "sys_ok ((with_engine ((on_proxy (\<lambda>_. p') n (eng S))\<lparr>e_net := ns\<rparr>) S)
         \<lparr>lives := (case res of Serving ss \<Rightarrow> [(n, start_legs ss)] | _ \<Rightarrow> []) @ lives S\<rparr>)" (is "sys_ok ?S")
proof -
  have pin: "(n, p) \<in> set (Proxies (eng S))" using p by (rule map_of_SomeD)
  note f = accept_frame [OF acc]
  have reg: "reg_ok (p_reg p) \<and> reg_typed (e_net (eng S)) (p_reg p)"
    using ok pin by (force simp: sys_ok_def regs_typed_def list_all_iff)
  have "regs_typed (on_proxy (\<lambda>_. p') n (eng S))" using ok reg f by (intro regs_typed_on_proxy) (auto simp: sys_ok_def)
  moreover have x: "net_ext (e_net (eng S)) ns \<and> fresh ns"
    using ext_same [of "e_net (eng S)" ns] f ok by (simp add: sys_ok_def regs_typed_def)
  ultimately have "regs_typed (eng ?S)" using regs_typed_net [of "on_proxy (\<lambda>_. p') n (eng S)" ns] by simp
  moreover have "\<forall>(m, v) \<in> set (lives ?S). session_typed (e_net (eng ?S)) (sv_session v)"
    using ok x f by (auto simp: sys_ok_def start_legs_def session_typed_def lc_typed_def
        intro: session_typed_mono [unfolded session_typed_def lc_typed_def] split: handle_result.splits)
  moreover have "tracks q (sockets_of (lives ?S) m)" if m: "(m, q) \<in> set (Proxies (eng ?S))" for m q
  proof (cases "m = n")
    case False
    with m ok show ?thesis by (auto simp: on_proxy_mem sys_ok_def split: handle_result.splits)
  next
    case True
    then have q: "q = p'" using m by (auto simp: on_proxy_mem)
    have tr: "tracks p (sockets_of (lives S) n)" using ok pin by (auto simp: sys_ok_def)
    show ?thesis
    proof (cases "\<exists>ss. res = Serving ss")
      case s: True
      then obtain ss u where ss: "res = Serving ss" "d = Some u" "s_client ss = c" "s_upstream ss = u" "sess_id ss = i"
        using f by blast
      have "distinct (c # u # socks (sockets_of (lives S) n))" using c d [OF ss(2)] tr by (auto simp: tracks_def)
      with tracks_serve [OF tr, of c i u "(e_net (eng S))\<lparr>open_conns := oc\<rparr>" ss p' ns] acc ss True show ?thesis
        by (simp add: q start_legs_def)
    next
      case False
      with tracks_refuse [OF tr acc _ c] d True show ?thesis by (auto simp: q split: handle_result.splits)
    qed
  qed
  ultimately show ?thesis using ok by (auto simp: sys_ok_def)
qed

lemma sys_ok_read:
  assumes ok: "sys_ok S" and l: "lives S = xs @ (n, v) # ys" and p: "map_of (Proxies (eng S)) n = Some p"
    and r: "leg_read p ctx (dir, data, err) (v, e_net (eng S)) = (v', ns)"
  shows "sys_ok ((with_engine ((eng S)\<lparr>e_net := ns\<rparr>) S)\<lparr>lives := xs @ (n, v') # ys\<rparr>)"
proof -
  have pin: "(n, p) \<in> set (Proxies (eng S))" using p by (rule map_of_SomeD)
  have "reg_typed (e_net (eng S)) (p_reg p)" using ok pin by (force simp: sys_ok_def regs_typed_def list_all_iff)
  moreover have "session_typed (e_net (eng S)) (sv_session v)" using ok l by (auto simp: sys_ok_def)
  ultimately have t: "same_objs (net (e_net (eng S))) (net ns)" "dom (hooks ns) = dom (hooks (e_net (eng S)))"
    "session_typed ns (sv_session v')" using leg_read_typed [OF r] by auto
  then have x: "net_ext (e_net (eng S)) ns \<and> fresh ns" using ext_same [of "e_net (eng S)" ns] ok by (simp add: sys_ok_def regs_typed_def)
  have "same_sockets (v, e_net (eng S)) (v', ns)" using leg_read_sockets [of "(v, e_net (eng S))" p ctx "(dir, data, err)"] r by simp
  then have so: "sockets_of (xs @ (n, v') # ys) m = sockets_of (lives S) m" for m by (simp add: l same_sockets_def)
  show ?thesis
  proof (rule sys_okI)
    fix m w
    assume "(m, w) \<in> set (lives ((with_engine ((eng S)\<lparr>e_net := ns\<rparr>) S)\<lparr>lives := xs @ (n, v') # ys\<rparr>))"
    then have "w = v' \<or> (m, w) \<in> set (lives S)" by (auto simp: l)
    then show "session_typed (e_net (eng ((with_engine ((eng S)\<lparr>e_net := ns\<rparr>) S)\<lparr>lives := xs @ (n, v') # ys\<rparr>))) (sv_session w)"
      using sys_okD(3) [OF ok] x t(3) by (auto intro: session_typed_mono)
  qed (use sys_okD [OF ok] x regs_typed_net [of "eng S" ns] so in \<open>auto simp del: sockets_of_simps\<close>)
qed

lemma sys_ok_finish:
  assumes ok: "sys_ok S" and l: "lives S = xs @ (n, v) # ys"
  shows "sys_ok ((with_engine (on_proxy_net (handle_close (sv_session v)) n (eng S)) S)\<lparr>lives := xs @ ys\<rparr>)" (is "sys_ok ?S")
proof -
  let ?x = "(s_client (sv_session v), s_upstream (sv_session v), sess_id (sv_session v))"
  have e: "regs_typed (eng ?S) \<and> net_ext (e_net (eng S)) (e_net (eng ?S))"
    using regs_typed_on_proxy_net [of "eng S" "handle_close (sv_session v)" n] ok
    by (simp add: sys_ok_def handle_close_def untrack_def close_conn_def cancel_def)
  have dis: "distinct (map fst (Proxies (eng ?S)))" using ok by (simp add: sys_ok_def on_proxy_net_def split: option.splits prod.splits)
  have "tracks q (sockets_of (xs @ ys) m)" if m: "(m, q) \<in> set (Proxies (eng ?S))" for m q
  proof (cases "map_of (Proxies (eng S)) n")
    case None
    then have "n \<notin> fst ` set (Proxies (eng S))" by (simp add: map_of_eq_None_iff)
    then have "m \<noteq> n" using m None by (force simp: on_proxy_net_def)
    with m None ok l show ?thesis by (auto simp: sys_ok_def on_proxy_net_def)
  next
    case (Some p)
    obtain p' ns where h: "handle_close (sv_session v) p (e_net (eng S)) = (p', ns)" by force
    have tr: "tracks p (sockets_of (lives S) n)" using ok map_of_SomeD [OF Some] by (auto simp: sys_ok_def)
    show ?thesis
    proof (cases "m = n")
      case False
      with m Some h ok l show ?thesis by (auto simp: sys_ok_def on_proxy_net_def on_proxy_mem)
    next
      case True
      then have "q = p'" using m Some h by (auto simp: on_proxy_net_def on_proxy_mem)
      moreover have "distinct (sockets_of (lives S) n)" using tr distinct_socks by (auto simp: tracks_def)
      then have "remove1 ?x (sockets_of (lives S) n) = sockets_of (xs @ ys) n" using True by (simp add: l remove1_append)
      ultimately show ?thesis using tracks_finish [OF tr _ h] True l by simp
    qed
  qed
  moreover have "session_typed (e_net (eng ?S)) (sv_session w)" if "(m, w) \<in> set (lives ?S)" for m w
    using that e l sys_okD(3) [OF ok, of m w] by (auto intro: session_typed_mono)
  ultimately show ?thesis using e dis by (intro sys_okI) (simp_all del: sockets_of_simps)
qed

lemma ticker_objs: "same_objs w (ticker_fire name r w)"
  by (auto simp: ticker_fire_def Latency_Tick_def Let_def intro!: same_objs_update split: option.splits Fault.splits conn_obj.splits)

lemma ticker_now: "now (ticker_fire name r w) = now w" "wire (ticker_fire name r w) = wire w"
  by (simp_all add: ticker_fire_def split: option.splits Fault.splits conn_obj.splits)

lemma sys_ok_step: "sys_step sys fmt sh decode chi ev S S' \<Longrightarrow> sys_ok S \<Longrightarrow> sys_ok S'"
proof (induction rule: sys_step.induct)
  case (request r S)
  then show ?case using Handler_moves [of True chi r "srv S" sys fmt sh decode]
    by (intro sys_ok_moves [OF request]) (simp_all add: eng_def)
next
  case (launch S xs sc ys)
  then show ?case by (intro sys_ok_moves [OF launch(2)]) (simp_all add: eng_def)
next
  case (run S xs start step steps ys err e')
  then show ?case using engine_Apply_moves [of "eng S" sys fmt step] by (intro sys_ok_moves [OF run(4)]) simp_all
next
  case (complete S xs start ys)
  then show ?case by (intro sys_ok_moves [OF complete(2)]) simp_all
next
  case (timer S xs d act ys)
  then show ?case using moves_step [OF move_timers [of True "eng S" "xs @ ys"] fire_moves [of True _ sys fmt act]]
    by (intro sys_ok_moves [OF timer(3)]) simp_all
next
  case (time S t)
  then show ?case using set_clock_moves [of True "eng S" t] by (intro sys_ok_moves [OF time(2)]) (simp_all add: r_into_rtranclp)
next
  case (beat S n p name)
  then show ?case using world [OF ticker_objs [of "net (e_net (eng S))" name "p_reg p"], where may = True, OF eq_refl [OF ticker_now(1) [symmetric]] ticker_now(2)]
    by (intro sys_ok_moves [OF beat(2)]) (simp_all add: r_into_rtranclp)
next
  case (accept S n p c d i res p' ns)
  then show ?case by (intro sys_ok_accept)
next
  case (read S xs n v ys p dir data err ctx v' ns)
  then show ?case by (intro sys_ok_read)
next
  case (finish S xs n v ys)
  then show ?case by (intro sys_ok_finish)
qed

lemma sys_ok_exec: "exec sys fmt sh decode chi evs S S' \<Longrightarrow> sys_ok S \<Longrightarrow> sys_ok S'"
  by (induction rule: exec.induct) (auto intro: sys_ok_step)

lemma put_proxy_distinct: "distinct (map fst ps) \<Longrightarrow> distinct (map fst (put_proxy n p ps))"
  by (auto simp: put_proxy_def distinct_map_filter)

lemma sys_ok_boot:
  assumes "heap (net ns) = Map.empty" "hooks ns = Map.empty"
  shows "sys_ok (boot cfg ns m)"
proof -
  have "distinct (map fst (serve_proxies nodes)) \<and> (\<forall>(n, p) \<in> set (serve_proxies nodes). \<exists>x. p = node_proxy x)" for nodes
  proof (induction nodes rule: rev_induct)
    case (snoc x nodes)
    then show ?case using put_proxy_distinct [of "serve_proxies nodes"] by (auto simp: serve_proxies_def put_proxy_def)
  qed (simp add: serve_proxies_def)
  from this [of "Nodes cfg"] have d: "distinct (map fst (Proxies (eng (boot cfg ns m))))"
    and q: "\<And>n p. (n, p) \<in> set (Proxies (eng (boot cfg ns m))) \<Longrightarrow> \<exists>x. p = node_proxy x"
    by (auto simp: eng_def boot_def cmdServe_def NewServer_def engine_New_def)
  have n: "p_reg (node_proxy x) = NewRegistry" "tracks (node_proxy x) []" for x
    by (simp_all add: node_proxy_def proxy_New_def tracks_def Let_def)
  have "regs_typed (eng (boot cfg ns m))"
    using q n reg_ok_new assms
    by (fastforce simp: regs_typed_def list_all_iff reg_typed_def NewRegistry_def fresh_def kinds_def
        eng_def boot_def cmdServe_def NewServer_def engine_New_def)
  then show ?thesis using d q n by (fastforce simp: sys_ok_def boot_def)
qed

section \<open>A healed server\<close>

definition idle :: "'s deployment \<Rightarrow> bool" where
  "idle S \<longleftrightarrow> runs S = [] \<and> spawned (srv S) = []"

lemma healthy_step:
  "sys_step sys fmt sh decode chi ev S S' \<Longrightarrow> quiet chi ev \<Longrightarrow> idle S \<Longrightarrow> all_healthy (eng S) \<Longrightarrow> idle S' \<and> all_healthy (eng S')"
proof (induction rule: sys_step.induct)
  case (request r S)
  have "all_healthy (sv_engine (snd (Handler sys fmt sh decode chi r (srv S))))"
    by (rule health.kept_moves [OF Handler_moves]) (use request in \<open>simp_all add: eng_def\<close>)
  with request show ?case by (simp add: idle_def Handler_spawned)
next
  case (timer S xs d act ys)
  then show ?case by (simp add: idle_def health.kept_fire health.kept_timers)
next
  case (time S t)
  then show ?case by (simp add: idle_def health.kept_clock)
next
  case (accept S n p c d i res p' ns)
  have "healthy p" using accept.prems(3) map_of_SomeD [OF accept.hyps(1)] by (force simp: all_healthy_def list_all_iff)
  then have "healthy p'" using accept_frame [OF accept.hyps(4)] by (simp add: healthy_def)
  with accept.prems on_proxy_all [of healthy "eng S" "\<lambda>_. p'" n] show ?case by (simp add: idle_def all_healthy_def)
next
  case (finish S xs n v ys)
  then show ?case using on_proxy_net_all [of healthy "eng S" "handle_close (sv_session v)" n]
    by (simp add: idle_def all_healthy_def handle_close_def untrack_def healthy_def)
qed (simp_all add: idle_def all_healthy_def)

lemma healthy_exec:
  "exec sys fmt sh decode chi evs S S' \<Longrightarrow> list_all (quiet chi) evs \<Longrightarrow> idle S \<Longrightarrow> all_healthy (eng S) \<Longrightarrow> all_healthy (eng S')"
proof (induction rule: exec.induct)
  case (exec_step ev S S1 evs S')
  then show ?case using healthy_step [OF exec_step.hyps(1)] by simp
qed simp

inductive_cases exec_ConsE: "exec sys fmt sh decode chi (ev # evs) S S'"
inductive_cases request_stepE: "sys_step sys fmt sh decode chi (Request r) S S'"

section \<open>A scenario run in one go is an interleaving\<close>

definition reaches ::
  "'s system \<Rightarrow> (instant \<Rightarrow> string) \<Rightarrow> 's shell \<Rightarrow> (string \<Rightarrow> string + faultRequest) \<Rightarrow> router \<Rightarrow> 's deployment \<Rightarrow> 's deployment \<Rightarrow> bool" where
  "reaches sys fmt sh decode chi S S' \<longleftrightarrow>
     (\<exists>evs. set evs \<subseteq> {Scenario_runs, Timer_fires, Time_passes} \<and> exec sys fmt sh decode chi evs S S')"

lemma exec_append: "exec sys fmt sh decode chi evs S S1 \<Longrightarrow> exec sys fmt sh decode chi evs' S1 S' \<Longrightarrow> exec sys fmt sh decode chi (evs @ evs') S S'"
  by (induction rule: exec.induct) (auto intro: exec_step)

lemma reaches_refl [simp]: "reaches sys fmt sh decode chi S S"
  unfolding reaches_def by (rule exI [of _ "[]"]) (simp add: exec_done)

lemma reaches_trans:
  assumes "reaches sys fmt sh decode chi S S1" "reaches sys fmt sh decode chi S1 S'"
  shows "reaches sys fmt sh decode chi S S'"
proof -
  obtain evs evs' where "set evs \<subseteq> {Scenario_runs, Timer_fires, Time_passes}" "exec sys fmt sh decode chi evs S S1"
    "set evs' \<subseteq> {Scenario_runs, Timer_fires, Time_passes}" "exec sys fmt sh decode chi evs' S1 S'"
    using assms unfolding reaches_def by blast
  then have "set (evs @ evs') \<subseteq> {Scenario_runs, Timer_fires, Time_passes}" "exec sys fmt sh decode chi (evs @ evs') S S'"
    by (auto intro: exec_append)
  then show ?thesis unfolding reaches_def by blast
qed

lemma reaches_step:
  assumes "sys_step sys fmt sh decode chi ev S S'" "ev \<in> {Scenario_runs, Timer_fires, Time_passes}"
  shows "reaches sys fmt sh decode chi S S'"
proof -
  have "exec sys fmt sh decode chi [ev] S S'" by (rule exec_step [OF assms(1) exec_done])
  then show ?thesis unfolding reaches_def using assms(2) by (intro exI [of _ "[ev]"]) simp
qed

text \<open>Timers and the rest of the engine's state do not depend on each other while timers go off.\<close>

definition go_off :: "'s system \<Rightarrow> (instant \<Rightarrow> string) \<Rightarrow> 's engine \<Rightarrow> instant \<times> timer_action \<Rightarrow> 's engine" where
  "go_off sys fmt e x = fire sys fmt (snd x) (set_clock (fst x) e)"

lemma go_off_timers: "go_off sys fmt (e\<lparr>timers := T\<rparr>) x = (go_off sys fmt e x)\<lparr>timers := T\<rparr>"
  by (cases "snd x") (simp_all add: go_off_def fire_def set_clock_def on_registry_def on_proxy_def on_proxy_net_def revertNodeFaults_def
      clock_def split: option.splits prod.splits)

lemma go_off_fold_timers: "foldl (go_off sys fmt) (e\<lparr>timers := T\<rparr>) xs = (foldl (go_off sys fmt) e xs)\<lparr>timers := T\<rparr>"
  by (induction xs arbitrary: e) (simp_all add: go_off_timers)

lemma set_clock_max: "set_clock (max d (clock e)) e = set_clock d e"
  by (simp add: set_clock_def clock_def)

lemma set_clock_timers: "(set_clock d e)\<lparr>timers := T\<rparr> = set_clock d (e\<lparr>timers := T\<rparr>)"
  by (cases e) (simp add: set_clock_def)

lemma reaches_clock: "reaches sys fmt sh decode chi S (with_engine (set_clock d (eng S)) S)"
  using reaches_step [OF time [of S "max d (clock (eng S))"]] by (simp add: set_clock_max)

lemma with_engine_twice [simp]: "with_engine e (with_engine e' S) = with_engine e S" "with_engine (eng S) S = S"
  by (simp_all add: with_engine_def eng_def)

lemma reaches_timer:
  assumes "x \<in> set (timers (eng S))"
  shows "reaches sys fmt sh decode chi S (with_engine (go_off sys fmt ((eng S)\<lparr>timers := remove1 x (timers (eng S))\<rparr>) x) S)"
proof -
  obtain d act where x: "x = (d, act)" by (cases x)
  let ?S1 = "with_engine (set_clock d (eng S)) S"
  obtain xs ys where t: "timers (eng S) = xs @ x # ys" "x \<notin> set xs" using assms by (meson split_list_first)
  then have T: "timers (eng ?S1) = xs @ (d, act) # ys" "remove1 x (timers (eng S)) = xs @ ys"
    by (simp_all add: x set_clock_def remove1_append)
  have "d \<le> clock (eng ?S1)" by (simp add: set_clock_def clock_def)
  from reaches_trans [OF reaches_clock reaches_step [OF timer [OF T(1) this]]] show ?thesis
    unfolding T(2) by (simp add: go_off_def x set_clock_timers)
qed

lemma reaches_timers:
  "mset ds \<subseteq># mset (timers (eng S)) \<Longrightarrow>
     reaches sys fmt sh decode chi S
       (with_engine ((foldl (go_off sys fmt) (eng S) ds)\<lparr>timers := foldl (\<lambda>T x. remove1 x T) (timers (eng S)) ds\<rparr>) S)"
proof (induction ds arbitrary: S)
  case Nil
  show ?case by simp
next
  case (Cons x ds)
  let ?T = "remove1 x (timers (eng S))"
  let ?S = "with_engine (go_off sys fmt ((eng S)\<lparr>timers := ?T\<rparr>) x) S"
  have x: "x \<in> set (timers (eng S))" and ds: "mset ds \<subseteq># mset ?T"
    using Cons.prems by (auto simp: insert_subset_eq_iff)
  have e: "eng ?S = (go_off sys fmt (eng S) x)\<lparr>timers := ?T\<rparr>" by (simp add: go_off_timers)
  have "reaches sys fmt sh decode chi ?S
      (with_engine ((foldl (go_off sys fmt) (eng ?S) ds)\<lparr>timers := foldl (\<lambda>T x. remove1 x T) (timers (eng ?S)) ds\<rparr>) ?S)"
    by (rule Cons.IH) (use ds e in simp)
  from reaches_trans [OF reaches_timer [OF x] this] show ?case unfolding e by (simp add: go_off_fold_timers)
qed

lemma remove_filtered:
  assumes "mset ds = mset (filter P T)"
  shows "foldl (\<lambda>T x. remove1 x T) T ds = filter (\<lambda>x. \<not> P x) T"
  using assms
proof (induction ds arbitrary: T)
  case Nil
  then show ?case by (metis filter_True filter_empty_conv mset.simps(1) mset_zero_iff_right foldl_Nil)
next
  case (Cons x ds)
  have "x \<in># mset (filter P T)" using Cons.prems by (metis list.set_intros(1) set_mset_mset)
  then have x: "P x" "x \<in> set T" by simp_all
  have "filter P (remove1 x T) = remove1 x (filter P T)" "filter (\<lambda>x. \<not> P x) (remove1 x T) = filter (\<lambda>x. \<not> P x) T"
    using x(1) by (simp_all add: filter_remove1 remove1_idem)
  with Cons.IH [of "remove1 x T"] Cons.prems [symmetric] show ?case by simp
qed

lemma advance_alt:
  "advance sys fmt t e = set_clock t ((foldl (go_off sys fmt) e (sort_key fst (filter (\<lambda>x. fst x \<le> t) (timers e))))
     \<lparr>timers := filter (\<lambda>x. \<not> fst x \<le> t) (timers e)\<rparr>)"
proof -
  have "go_off sys fmt = (\<lambda>e (d, act). fire sys fmt act (set_clock d e))" by (auto simp: go_off_def fun_eq_iff)
  then show ?thesis unfolding advance_def Let_def using go_off_fold_timers [where sys = sys and fmt = fmt and e = e] by simp
qed

lemma reaches_advance: "reaches sys fmt sh decode chi S (with_engine (advance sys fmt t (eng S)) S)"
proof -
  let ?ds = "sort_key fst (filter (\<lambda>x. fst x \<le> t) (timers (eng S)))"
  have "mset ?ds = mset (filter (\<lambda>x. fst x \<le> t) (timers (eng S)))" by simp
  note remove_filtered [OF this]
  moreover have "mset ?ds \<subseteq># mset (timers (eng S))" by (simp add: multiset_filter_subset)
  note reaches_timers [OF this, of sys fmt sh decode chi]
  ultimately show ?thesis unfolding advance_alt using reaches_trans reaches_clock by fastforce
qed

lemma clock_advance: "t \<le> clock (advance sys fmt t e)"
  by (simp add: advance_alt set_clock_def clock_def)

lemma due_after_wait:
  assumes "start \<le> t" "0 < After step - time_Sub t start"
  shows "After step \<le> time_Sub (t + (After step - time_Sub t start)) start"
  using assms wrap64_range [of "AfterMs step * Millisecond"] by (auto simp: After_def time_Sub_def)

lemma time_Sub_mono: "t \<le> t' \<Longrightarrow> time_Sub t u \<le> time_Sub t' u"
  by (simp add: time_Sub_def)

lemma reaches_run_steps:
  "runs S = rs @ [(start, steps)] \<Longrightarrow> start \<le> clock (eng S) \<Longrightarrow>
     reaches sys fmt sh decode chi S ((with_engine (snd (run_steps sys fmt None start steps (eng S))) S)\<lparr>runs := rs\<rparr>)"
proof (induction steps arbitrary: S)
  case Nil
  then show ?case using reaches_step [OF complete [of S rs start "[]"]] by simp
next
  case (Cons step steps)
  let ?wait = "After step - time_Sub (clock (eng S)) start"
  define e1 where "e1 = (if ?wait > 0 then advance sys fmt (clock (eng S) + ?wait) (eng S) else eng S)"
  obtain err e2 where e2: "engine_Apply sys fmt step e1 = (err, e2)" by force
  let ?S1 = "with_engine e1 S"
  have 1: "reaches sys fmt sh decode chi S ?S1" by (simp add: e1_def reaches_advance)
  have due: "After step \<le> time_Sub (clock (eng ?S1)) start"
  proof (cases "?wait > 0")
    case True
    have "time_Sub (clock (eng S) + ?wait) start \<le> time_Sub (clock e1) start"
      using True clock_advance by (intro time_Sub_mono) (simp add: e1_def)
    with due_after_wait [OF Cons.prems(2) True] show ?thesis by simp
  qed (simp add: e1_def)
  let ?S2 = "(with_engine e2 S)\<lparr>runs := rs @ (case err of None \<Rightarrow> [(start, steps)] | Some _ \<Rightarrow> [])\<rparr>"
  have "reaches sys fmt sh decode chi ?S1 ?S2"
    using reaches_step [OF run [where S = ?S1 and xs = rs and ys = "[]", OF _ due]] Cons.prems(1) e2 by simp
  with 1 have 2: "reaches sys fmt sh decode chi S ?S2" by (rule reaches_trans)
  have c: "start \<le> clock e1" using Cons.prems(2) clock_advance [of "clock (eng S) + ?wait" sys fmt "eng S"] by (auto simp: e1_def)
  have rs: "run_steps sys fmt None start (step # steps) (eng S) =
      (case err of Some x \<Rightarrow> (Some x, e2) | None \<Rightarrow> run_steps sys fmt None start steps e2)"
    using e2 by (simp add: e1_def Let_def split: option.splits)
  show ?case
  proof (cases err)
    case None
    have "start \<le> clock e2" using time.kept_Apply [of start e1 sys fmt step] c e2 by simp
    with None Cons.IH [of ?S2] have "reaches sys fmt sh decode chi ?S2
        ((with_engine (snd (run_steps sys fmt None start steps e2)) ?S2)\<lparr>runs := rs\<rparr>)" by simp
    from reaches_trans [OF 2 this] show ?thesis using None rs by (simp add: with_engine_def)
  next
    case (Some x)
    with 2 rs show ?thesis by simp
  qed
qed

section \<open>Properties\<close>

definition ex_machine :: "string list list" where
  "ex_machine = []"

lemma ex_serves: "Proxies (eng (boot ex_served ex_net ex_machine)) = [(''a'', node_proxy (ex_check_node ''a'' [])), (''b'', node_proxy (ex_check_node ''b'' []))]"
  using serve_proxies_distinct [of "Nodes ex_served"]
  by (simp add: eng_def boot_def cmdServe_def NewServer_def engine_New_def ex_served_def ex_check_node_def)

text \<open>
  C9: connections are accounted for. In every reachable state of the server the number of
  clients that a node's status reports is the number of connections being served for it,
  and the sockets its proxy tracks, which a partition or crash would close, are exactly
  those of these connections.
\<close>

theorem server_sessions_accounted:
  assumes "exec sys fmt sh decode chi evs (boot cfg ns m) S" "heap (net ns) = Map.empty" "hooks ns = Map.empty"
    and "(n, p) \<in> set (Proxies (eng S))"
  shows "ActiveClients (fst (proxy_status p (net (e_net (eng S))))) = int (length (filter (\<lambda>(k, v). k = n) (lives S)))
    \<and> fst ` set (conns p) = set (socks (sockets_of (lives S) n)) \<and> distinct (socks (sockets_of (lives S) n))"
proof -
  have "sys_ok S" by (rule sys_ok_exec [OF assms(1) sys_ok_boot [OF assms(2,3)]])
  then have "tracks p (sockets_of (lives S) n)" using assms(4) by (rule sys_okD(4))
  with tracks_socks [OF this] show ?thesis by (simp add: tracks_def proxy_status_def sockets_of_def split: prod.splits)
qed

lemma ex_accepts:
  "\<exists>S p. exec sys fmt sh decode chi [Traffic] (boot ex_served ex_net ex_machine) S \<and> (''a'', p) \<in> set (Proxies (eng S))
     \<and> map fst (lives S) = [''a'']"
proof -
  let ?B = "boot ex_served ex_net ex_machine" and ?p = "node_proxy (ex_check_node ''a'' [])"
  let ?ns = "(e_net (eng ?B))\<lparr>open_conns := insert 7 (open_conns (e_net (eng ?B)))\<rparr>"
  have "\<exists>ss p' ns. Serve_accept 7 0 (Some 8) ?p ?ns = (Serving ss, p', ns)"
    by (simp add: Serve_accept_def handle_open_def allowed_def severed_def node_proxy_def proxy_New_def NewRegistry_def track_def Let_def)
  then obtain ss p' ns where a: "Serve_accept 7 0 (Some 8) ?p ?ns = (Serving ss, p', ns)" by blast
  have m: "map_of (Proxies (eng ?B)) ''a'' = Some ?p" by (simp add: ex_serves)
  have "lives ?B = []" by (simp add: boot_def)
  from exec_step [OF accept [OF m _ _ a] exec_done] this show ?thesis
    by (fastforce simp: on_proxy_mem ex_serves)
qed

theorem server_sessions_accounted_witness:
  "\<exists>S p. exec ex_remote (\<lambda>t. []) ex_node_shell (\<lambda>_. Inl []) ex_chi [Traffic] (boot ex_served ex_net ex_machine) S
     \<and> (''a'', p) \<in> set (Proxies (eng S)) \<and> ActiveClients (fst (proxy_status p (net (e_net (eng S))))) = 1"
proof -
  obtain S p where S: "exec ex_remote (\<lambda>t. []) ex_node_shell (\<lambda>_. Inl []) ex_chi [Traffic] (boot ex_served ex_net ex_machine) S"
    "(''a'', p) \<in> set (Proxies (eng S))" "map fst (lives S) = [''a'']"
    using ex_accepts [of "ex_remote" "\<lambda>t. []" ex_node_shell "\<lambda>_. Inl []" ex_chi] by (elim exE conjE) (rule that)
  then obtain v where "lives S = [(''a'', v)]" by auto
  with server_sessions_accounted [OF S(1) _ _ S(2)] S(1,2) show ?thesis by (fastforce simp: ex_net_def ex_world_def)
qed

text \<open>
  C5: a healed server stays healed. After an authorised heal request, with no scenario under
  way, no node is partitioned or crashed, no fault is registered and no node fault is
  outstanding, and this stays so whatever happens (timers of old windows, traffic, status,
  removal and check requests), until a fault or a scenario is requested.
\<close>

theorem healed_stays_healed:
  assumes "exec sys fmt sh decode chi (Request r # evs) S S'" "chi (public_routes @ api_routes) r = Some (HHeal, ps)"
    and "ControlToken (sv_cfg (srv S)) = [] \<or> rq_Auth r = bearer @ ControlToken (sv_cfg (srv S))"
    and "runs S = []" "spawned (srv S) = []" "list_all (quiet chi) evs"
  shows "list_all (\<lambda>(n, p). \<not> partitioned p \<and> \<not> crashed p \<and> Names (p_reg p) = []) (Proxies (eng S'))
    \<and> Outstanding (eng S') n = []"
proof -
  let ?S1 = "S\<lparr>srv := snd (Handler sys fmt sh decode chi r (srv S))\<rparr>"
  have ex: "exec sys fmt sh decode chi evs ?S1 S'"
    using assms(1) by (elim exec_ConsE request_stepE) simp
  have "prefix bearer (rq_Auth r) \<and> drop (length bearer) (rq_Auth r) = ControlToken (sv_cfg (srv S))"
    if "ControlToken (sv_cfg (srv S)) \<noteq> []"
    using that assms(3) bearer_accepts by blast
  then have h: "snd (Handler sys fmt sh decode chi r (srv S)) = (srv S)\<lparr>sv_engine := HealAll sys fmt (eng S)\<rparr>"
    using assms(2) by (simp add: Handler_def requireBearerToken_def public_routes_def serve_api_def handleHeal_def eng_def)
  have "all_healthy (HealAll sys fmt (eng S))"
    using HealAll_healthy by (fastforce simp: all_healthy_def list_all_iff HealAll_def revertNodeFaults_def)
  with healthy_exec [OF ex assms(6)] h assms(4,5) have "all_healthy (eng S')" by (simp add: idle_def)
  then show ?thesis by (auto simp: all_healthy_def healthy_def no_faults_def Names_def Outstanding_def list_all_iff)
qed

theorem healed_stays_healed_witness:
  "\<exists>S'. exec ex_remote (\<lambda>t. []) ex_node_shell (\<lambda>_. Inl []) ex_chi
       [Request (ex_request ''POST'' ''/heal'' (bearer @ ''secret'')), Time_passes] (boot ex_served ex_net ex_machine) S'
     \<and> list_all (\<lambda>(n, p). \<not> partitioned p \<and> \<not> crashed p \<and> Names (p_reg p) = []) (Proxies (eng S'))"
proof -
  let ?r = "ex_request ''POST'' ''/heal'' (bearer @ ''secret'')" and ?B = "boot ex_served ex_net ex_machine"
  let ?S1 = "?B\<lparr>srv := snd (Handler ex_remote (\<lambda>t. []) ex_node_shell (\<lambda>_. Inl []) ex_chi ?r (srv ?B))\<rparr>"
  let ?S2 = "with_engine (set_clock (clock (eng ?S1) + 1) (eng ?S1)) ?S1"
  have ex: "exec ex_remote (\<lambda>t. []) ex_node_shell (\<lambda>_. Inl []) ex_chi [Request ?r, Time_passes] ?B ?S2"
    by (rule exec_step [OF request exec_step [OF time exec_done]]) simp
  have c: "ex_chi (public_routes @ api_routes) ?r = Some (HHeal, \<lambda>_. [])"
    by (simp add: ex_chi_def ex_request_def public_routes_def api_routes_def)
  have "rq_Auth ?r = bearer @ ControlToken (sv_cfg (srv ?B))" "runs ?B = []" "spawned (srv ?B) = []" "list_all (quiet ex_chi) [Time_passes]"
    by (simp_all add: ex_request_def boot_def cmdServe_def NewServer_def ex_served_def quiet_def)
  with healed_stays_healed [OF ex c] ex show ?thesis by blast
qed

text \<open>
  A scenario under way is not stopped by healing: the heal request leaves its remaining steps
  to be applied.
\<close>

lemma heal_leaves_runs:
  assumes "sys_step sys fmt sh decode chi (Request r) S S'"
  shows "runs S' = runs S"
  using assms by (elim request_stepE) simp

text \<open>
  Scenarios in the running server. Running a started scenario to its end in one go,
  waiting where its steps have to wait and letting the timers that come due meanwhile go off in
  order, is one of the executions of the server in which nothing else happens: launching
  it, applying its steps when they are due, passing time and firing timers.
\<close>

lemma scenario_run_is_execution:
  assumes "spawned (srv S) = sc # scs"
  shows "\<exists>evs S'. set evs \<subseteq> {Scenario_runs, Timer_fires, Time_passes} \<and> exec sys fmt sh decode chi evs S S'
    \<and> srv S' = run_spawned sys fmt (srv S) \<and> runs S' = runs S \<and> lives S' = lives S"
proof -
  let ?start = "clock (eng S)" and ?steps = "sort_key AfterMs (Steps sc)"
  let ?S1 = "S\<lparr>srv := (srv S)\<lparr>spawned := scs\<rparr>, runs := runs S @ [(?start, ?steps)]\<rparr>"
  have e: "eng ?S1 = eng S" by (simp add: eng_def)
  have "reaches sys fmt sh decode chi S ?S1"
    using reaches_step [OF launch [of S "[]" sc scs]] assms by simp
  moreover have "reaches sys fmt sh decode chi ?S1
      ((with_engine (snd (run_steps sys fmt None ?start ?steps (eng ?S1))) ?S1)\<lparr>runs := runs S\<rparr>)"
    by (rule reaches_run_steps) (simp_all add: eng_def)
  ultimately have "reaches sys fmt sh decode chi S
      ((with_engine (snd (run_steps sys fmt None ?start ?steps (eng S))) ?S1)\<lparr>runs := runs S\<rparr>)" (is "reaches _ _ _ _ _ S ?S2")
    unfolding e by (rule reaches_trans)
  moreover have "srv ?S2 = run_spawned sys fmt (srv S)"
    using assms by (simp add: run_spawned_def engine_Run_def with_engine_def eng_def)
  moreover have "runs ?S2 = runs S" "lives ?S2 = lives S" by simp_all
  ultimately show ?thesis unfolding reaches_def by blast
qed

end
