(* ===== verification/Isolation.thy ===== *)
theory Isolation
  imports System
begin

text \<open>
  What goes over the wires of the running server of \<open>System\<close>: only a read of a pump can
  deliver bytes, only to the other end of its own connection, and only while the proxy of
  the node (\<^verbatim>\<open>internal/proxy/proxy.go\<close>) lets traffic through. For this the chain of wrappers of
  every connection has to stay on the socket it was made for, and no socket may serve two
  connections.
\<close>

section \<open>Writing to a connection\<close>

text \<open>The wrapped chain, if there is one, sits on the connection's own raw socket.\<close>

definition on_own_socket :: "liveConn \<Rightarrow> bool" where
  "on_own_socket c \<longleftrightarrow> (case wrapped c of None \<Rightarrow> True | Some ch \<Rightarrow> raw_of ch = lc_raw c)"

lemma Write_grows: "Write c p w = (res, w') \<Longrightarrow> grows UNIV (raw_of c) w w'"
  using safe_writerD [OF Write_safe [OF subset_UNIV], of p UNIV w c res w'] by (simp add: holds_only_def)

lemma rewrap_own_socket:
  assumes "rewrap r c w = Some (c', w')" "on_own_socket c"
  shows "on_own_socket c' \<and> lc_raw c' = lc_raw c \<and> wire w' = wire w"
proof (cases "wrapped c = None \<or> lc_gen c \<noteq> gen r")
  case True
  with assms(1) obtain ch g where "reg_wrap r (Raw (lc_raw c)) (lc_dir c) w = Some (ch, g, w')" "c' = c\<lparr>wrapped := Some ch, lc_gen := g\<rparr>"
    by (auto simp: rewrap_def split: option.splits)
  with reg_wrap_layers [OF this(1)] show ?thesis by (simp add: on_own_socket_def wrap_frame_def)
qed (use assms in \<open>auto simp: rewrap_def\<close>)

lemma liveConn_Write_grows:
  assumes "liveConn_Write r c p w = (res, c', w')" "on_own_socket c"
  shows "on_own_socket c' \<and> lc_raw c' = lc_raw c \<and> grows UNIV (lc_raw c) w w'"
proof (cases "rewrap r c w")
  case (Some x)
  then obtain c1 w1 where 1: "rewrap r c w = Some (c1, w1)" by (cases x) auto
  note own = rewrap_own_socket [OF 1 assms(2)]
  show ?thesis
  proof (cases "wrapped c1")
    case None
    with assms(1) 1 own show ?thesis by (auto simp: liveConn_Write_def intro: grows_refl)
  next
    case (Some ch)
    then have "Write ch p w1 = (res, w')" "c' = c1" using assms(1) 1 by (auto simp: liveConn_Write_def split: prod.splits)
    with Write_grows [OF this(1)] own Some show ?thesis by (simp add: on_own_socket_def grows_def)
  qed
qed (use assms in \<open>simp add: liveConn_Write_def grows_refl\<close>)

lemma packet_loop_wire: "packet_loop fs ctx stream chunk w = (q, w') \<Longrightarrow> wire w' = wire w"
proof (induction fs ctx stream chunk w rule: packet_loop.induct)
  case (2 pf pfs ctx stream chunk w)
  obtain q1 w1 where 1: "Packet_Apply pf ctx chunk stream w = Some (q1, w1)" "wire w1 = wire w" using packet_apply_total by blast
  show ?case
  proof (cases "ctx_done ctx w1 \<or> q1 = []")
    case True
    with 1 "2.prems" show ?thesis by (auto split: if_splits)
  next
    case False
    with 1 "2.prems" have "packet_loop pfs ctx stream q1 w1 = (q, w')" by simp
    with "2.IH" [OF 1(1) refl] False 1(2) show ?thesis by simp
  qed
qed simp

lemma hook_loop_wire: "hook_loop as q chunk s = (c, s') \<Longrightarrow> wire (net s') = wire (net s)"
proof (induction "as" q chunk s rule: hook_loop.induct)
  case (2 a "as" q chunk s)
  have "wire w' = wire w" if "MaybeServeStale f q' c w = (c', f', w')" for f q' c w c' f' w'
    using that by (auto simp: MaybeServeStale_def Float64_def Let_def case_prod_unfold split: option.splits if_splits)
  with 2 show ?case by (fastforce split: option.splits prod.splits)
qed simp

section \<open>A read of a pump\<close>

text \<open>The socket a direction delivers to.\<close>

definition sink_of :: "Direction \<Rightarrow> session \<Rightarrow> conn_id" where
  "sink_of dir ss = (case dir of DirectionClientToUpstream \<Rightarrow> s_upstream ss | DirectionUpstreamToClient \<Rightarrow> s_client ss)"

definition wired :: "session \<Rightarrow> bool" where
  "wired ss \<longleftrightarrow> (\<forall>dir. on_own_socket (dest_lc dir ss) \<and> lc_raw (dest_lc dir ss) = sink_of dir ss)"

lemma wired_other:
  "wired (ss\<lparr>lastQuery := q\<rparr>) = wired ss" "sink_of dir (ss\<lparr>lastQuery := q\<rparr>) = sink_of dir ss"
  by (auto simp: wired_def sink_of_def dest_lc_def split: Direction.splits)

lemma pump_write_grows:
  assumes "pump_write p dir chunk ss s = (r, ss', s')" "wired ss"
  shows "wired ss' \<and> grows UNIV (sink_of dir ss) (net s) (net s')"
proof (cases "chunk = []")
  case False
  obtain res lc' w' where w: "liveConn_Write (p_reg p) (dest_lc dir ss) chunk (net s) = (res, lc', w')" by (metis prod.exhaust)
  with assms(1) False have e: "s' = s\<lparr>net := w'\<rparr>" "ss' = (if dir = DirectionClientToUpstream then ss\<lparr>toUpstream := lc'\<rparr> else ss\<lparr>toClient := lc'\<rparr>)"
    by (auto simp: pump_write_def dest_lc_def split: if_splits)
  have "on_own_socket lc' \<and> lc_raw lc' = sink_of dir ss \<and> grows UNIV (sink_of dir ss) (net s) w'"
    using liveConn_Write_grows [OF w] assms(2) by (simp add: wired_def)
  with assms(2) show ?thesis by (cases dir) (simp_all add: e wired_def sink_of_def dest_lc_def split: Direction.splits)
qed (use assms in \<open>simp add: pump_write_def grows_refl\<close>)

lemma pump_chunk_grows:
  assumes "pump_chunk p dir ctx data ss s = (r, ss', s')" "wired ss"
  shows "wired ss' \<and> grows UNIV (sink_of dir ss) (net s) (net s') \<and> (\<not> allowed p \<longrightarrow> net s' = net s)"
proof (cases "allowed p")
  case True
  obtain q w where q: "packet_loop (packetFaults (p_reg p)) ctx (p_Stream p) data (net s) = (q, w)" by force
  note ww = packet_loop_wire [OF q]
  show ?thesis
  proof (cases q)
    case None
    with True q assms ww show ?thesis by (auto simp: pump_chunk_def intro: grows_refl)
  next
    case (Some c)
    have "\<exists>c1 ss1 s1. pump_write p dir c1 ss1 s1 = (r, ss', s') \<and> wired ss1 \<and> sink_of dir ss1 = sink_of dir ss \<and> wire (net s1) = wire (net s)"
      using True q Some assms ww wired_other [where ss = ss and q = c]
      by (cases dir) (fastforce simp: pump_chunk_def dest: hook_loop_wire split: prod.splits)+
    then obtain c1 ss1 s1 where 1: "pump_write p dir c1 ss1 s1 = (r, ss', s')" "wired ss1" "sink_of dir ss1 = sink_of dir ss"
      "wire (net s1) = wire (net s)" by blast
    from pump_write_grows [OF 1(1,2)] 1(3,4) True show ?thesis by (simp add: grows_def)
  qed
qed (use assms in \<open>simp add: pump_chunk_def grows_refl\<close>)

lemma leg_read_grows:
  assumes "leg_read p ctx (dir, data, err) (v, s) = (v', s')" "wired (sv_session v)"
  shows "wired (sv_session v') \<and> grows UNIV (sink_of dir (sv_session v)) (net s) (net s') \<and> (\<not> allowed p \<longrightarrow> net s' = net s)"
proof -
  obtain r ss1 s1 where 1: "(if data = [] then (PumpGoesOn, sv_session v, s)
      else pump_chunk p dir (session_ctx ctx (sv_session v) s) data (sv_session v) s) = (r, ss1, s1)" by (metis prod.exhaust)
  have "wired ss1 \<and> grows UNIV (sink_of dir (sv_session v)) (net s) (net s1) \<and> (\<not> allowed p \<longrightarrow> net s1 = net s)"
    using 1 assms(2) pump_chunk_grows [of p dir _ data "sv_session v" s r ss1 s1] by (auto simp: grows_refl split: if_splits)
  moreover have "v' = v \<and> s' = s \<or> sv_session v' = ss1 \<and> net s' = net s1"
    using 1 assms(1) by (cases "data = []") (auto simp: leg_read_def cancel_def split: if_splits)
  ultimately show ?thesis using assms(2) by (auto simp: grows_refl)
qed

section \<open>The running server\<close>

definition all_sockets :: "(string \<times> served) list \<Rightarrow> conn_id list" where
  "all_sockets L = socks (map (\<lambda>(m, v). (s_client (sv_session v), s_upstream (sv_session v), sess_id (sv_session v))) L)"

lemma all_sockets_simps [simp]:
  "all_sockets [] = []"
  "all_sockets ((m, v) # L) = s_client (sv_session v) # s_upstream (sv_session v) # all_sockets L"
  "all_sockets (L @ L') = all_sockets L @ all_sockets L'"
  by (simp_all add: all_sockets_def socks_def)

lemma all_sockets_of: "x \<in> set (all_sockets L) \<longleftrightarrow> (\<exists>m. x \<in> set (socks (sockets_of L m)))"
proof (induction L)
  case (Cons y L)
  then show ?case by (cases y) (auto split: if_splits)
qed simp

definition separate :: "'s deployment \<Rightarrow> bool" where
  "separate S \<longleftrightarrow> distinct (all_sockets (lives S)) \<and> (\<forall>(n, v) \<in> set (lives S). wired (sv_session v))"

lemma accept_wired:
  assumes "Serve_accept c i d p ns = (Serving ss, p', ns')"
  shows "wired ss"
  using assms
  by (auto simp: Serve_accept_def handle_open_def wired_def on_own_socket_def sink_of_def dest_lc_def Wrap_def Let_def
      split: if_splits option.splits Direction.splits)

lemma separate_step: "sys_step sys fmt sh decode chi ev S S' \<Longrightarrow> separate S \<Longrightarrow> separate S'"
proof (induction rule: sys_step.induct)
  case (accept S n p c d i res p' ns)
  show ?case
  proof (cases "\<exists>ss. res = Serving ss")
    case True
    then obtain ss where ss: "res = Serving ss" by blast
    then obtain u where u: "d = Some u" "s_client ss = c" "s_upstream ss = u" using accept_frame [OF accept.hyps(4)] by blast
    have "c \<notin> set (all_sockets (lives S))" "u \<noteq> c" "u \<notin> set (all_sockets (lives S))"
      using accept.hyps(2) accept.hyps(3) [OF u(1)] unfolding all_sockets_of by auto
    with accept.prems accept_wired [OF accept.hyps(4) [unfolded ss]] ss u show ?thesis by (simp add: separate_def start_legs_def)
  qed (use accept.prems in \<open>auto simp: separate_def split: handle_result.splits\<close>)
next
  case (read S xs n v ys p dir data err ctx v' ns)
  have "same_sockets (v, e_net (eng S)) (v', ns)" using leg_read_sockets [of "(v, e_net (eng S))" p ctx "(dir, data, err)"] read.hyps(4) by simp
  with read.prems read.hyps(1) leg_read_grows [OF read.hyps(4)] show ?case by (auto simp: separate_def same_sockets_def)
qed (auto simp: separate_def)

lemma separate_exec: "exec sys fmt sh decode chi evs S S' \<Longrightarrow> separate S \<Longrightarrow> separate S'"
  by (induction rule: exec.induct) (auto intro: separate_step)

text \<open>No step but a read of a pump touches the wires.\<close>

definition delivers :: "event \<Rightarrow> 's deployment \<Rightarrow> conn_id \<Rightarrow> bool" where
  "delivers ev S i \<longleftrightarrow> ev = Traffic
     \<and> (\<exists>n v dir p. (n, v) \<in> set (lives S) \<and> map_of (Proxies (eng S)) n = Some p \<and> allowed p \<and> i = sink_of dir (sv_session v))"

definition delivered :: "'s deployment \<Rightarrow> conn_id \<Rightarrow> chunk list" where
  "delivered S = wire (net (e_net (eng S)))"

lemma grows_upd: "grows P i w w' \<Longrightarrow> \<exists>ext. wire w' = (wire w)(i := wire w i @ ext)"
  by (auto simp: grows_def fun_eq_iff)

lemma wires_step:
  "sys_step sys fmt sh decode chi ev S S' \<Longrightarrow> separate S \<Longrightarrow>
     delivered S' = delivered S \<or> (\<exists>i ext. delivers ev S i \<and> delivered S' = (delivered S)(i := delivered S i @ ext))"
proof (induction rule: sys_step.induct)
  case (request r S)
  then show ?case using wires.kept_moves [OF Handler_moves [of True chi r "srv S" sys fmt sh decode]] by (simp add: delivered_def eng_def)
next
  case (run S xs start step steps ys err e')
  then show ?case using wires.kept_Apply [of "eng S" _ sys fmt step] by (simp add: delivered_def)
next
  case (timer S xs d act ys)
  then show ?case using wires.kept_fire [of "(eng S)\<lparr>timers := xs @ ys\<rparr>" _ sys fmt act] by (simp add: delivered_def)
next
  case (time S t)
  then show ?case using wires.kept_clock [of "eng S" _ t] by (simp add: delivered_def)
next
  case (accept S n p c d i res p' ns)
  then show ?case using accept_frame [OF accept.hyps(4)] by (simp add: delivered_def)
next
  case (read S xs n v ys p dir data err ctx v' ns)
  let ?i = "sink_of dir (sv_session v)"
  have g: "grows UNIV ?i (net (e_net (eng S))) (net ns)" "\<not> allowed p \<longrightarrow> net ns = net (e_net (eng S))"
    using leg_read_grows [OF read.hyps(4)] read.prems read.hyps(1) by (auto simp: separate_def)
  show ?case
  proof (cases "allowed p")
    case True
    then have "delivers Traffic S ?i" using read.hyps(1,2) unfolding delivers_def by (intro conjI exI [of _ n] exI [of _ v] exI [of _ dir] exI [of _ p]) simp_all
    moreover from grows_upd [OF g(1)] obtain ext where "wire (net ns) = (wire (net (e_net (eng S))))(?i := wire (net (e_net (eng S))) ?i @ ext)" ..
    ultimately show ?thesis unfolding delivered_def by (intro disjI2 exI [of _ ?i] exI [of _ ext]) simp
  qed (use g(2) in \<open>simp add: delivered_def\<close>)
next
  case (finish S xs n v ys)
  have "net (snd (handle_close ss p ns)) = net ns" for ss p ns by (simp add: handle_close_def untrack_def close_conn_def cancel_def)
  then have "net (e_net (on_proxy_net (handle_close (sv_session v)) n (eng S))) = net (e_net (eng S))" by (rule on_proxy_net_wire)
  then show ?case by (simp add: delivered_def)
qed (simp_all add: delivered_def ticker_now eng_def with_engine_def)

lemma separate_owner:
  assumes "distinct (all_sockets L)" "(n, v) \<in> set L" "(m, v') \<in> set L" "sink_of dir (sv_session v) = sink_of dir' (sv_session v')"
  shows "(n, v) = (m, v')"
  using assms
proof (induction L)
  case (Cons y L)
  have sink: "sink_of d (sv_session w) \<in> set (all_sockets L)" if "(k, w) \<in> set L" for d k w
    using split_list [OF that] by (auto simp: sink_of_def split: Direction.splits)
  show ?case
  proof (cases "(n, v) = y \<longleftrightarrow> (m, v') = y")
    case True
    with Cons show ?thesis by (cases y) auto
  next
    case False
    with Cons.prems sink [of n v dir] sink [of m v' dir'] show ?thesis
      by (cases y) (auto simp: sink_of_def split: Direction.splits)
  qed
qed simp

section \<open>Properties\<close>

text \<open>
  C6: traffic is isolated. In every reachable state of the server, whatever happens next
  (requests, timers, scenarios, tickers, connections that come and go), what was delivered on a
  socket stays delivered, and new bytes arrive on at most one socket: only through a read of
  a connection being served, at the other end of that connection, while the proxy of its node
  lets traffic through. A connection of a partitioned or crashed node gets nothing on either end.
\<close>

theorem traffic_isolated:
  assumes "exec sys fmt sh decode chi evs (boot cfg ns m) S" "sys_step sys fmt sh decode chi ev S S'"
  shows "(delivered S' = delivered S \<or> (\<exists>i ext. delivers ev S i \<and> delivered S' = (delivered S)(i := delivered S i @ ext)))
    \<and> (\<forall>n v p. (n, v) \<in> set (lives S) \<longrightarrow> map_of (Proxies (eng S)) n = Some p \<longrightarrow> partitioned p \<or> crashed p \<longrightarrow>
         delivered S' (s_client (sv_session v)) = delivered S (s_client (sv_session v))
         \<and> delivered S' (s_upstream (sv_session v)) = delivered S (s_upstream (sv_session v)))"
proof -
  have sep: "separate S" by (rule separate_exec [OF assms(1)]) (simp add: separate_def boot_def)
  note st = wires_step [OF assms(2) sep]
  have "delivered S' (sink_of dir (sv_session v)) = delivered S (sink_of dir (sv_session v))"
    if live: "(n, v) \<in> set (lives S)" "map_of (Proxies (eng S)) n = Some p" "partitioned p \<or> crashed p" for n v p dir
  proof -
    have "sink_of dir (sv_session v) \<noteq> i" if d: "delivers ev S i" for i
    proof
      assume i: "sink_of dir (sv_session v) = i"
      from d obtain n' v' dir' p' where d': "(n', v') \<in> set (lives S)" "map_of (Proxies (eng S)) n' = Some p'" "allowed p'"
        "i = sink_of dir' (sv_session v')" by (auto simp: delivers_def)
      with separate_owner [OF _ live(1) d'(1)] i sep have "n' = n" by (auto simp: separate_def)
      with d'(2,3) live(2,3) not_allowed_severed show False by auto
    qed
    with st show ?thesis by auto
  qed
  from this [where dir = DirectionClientToUpstream] this [where dir = DirectionUpstreamToClient] st show ?thesis by (simp add: sink_of_def)
qed

text \<open>A server with one connection, client 7 and upstream 8, on which the client sends two bytes.\<close>

lemma ex_delivery:
  "\<exists>S S'. exec sys fmt sh decode chi [Traffic] (boot ex_served ex_net ex_machine) S \<and> sys_step sys fmt sh decode chi Traffic S S'
     \<and> delivered S' 8 = delivered S 8 @ [[1, 2]]"
proof -
  let ?B = "boot ex_served ex_net ex_machine" and ?p = "node_proxy (ex_check_node ''a'' [])" and ?up = DirectionClientToUpstream
  let ?ns = "(e_net (eng ?B))\<lparr>open_conns := insert 7 (open_conns (e_net (eng ?B)))\<rparr>"
  have "\<exists>ss p' ns. Serve_accept 7 0 (Some 8) ?p ?ns = (Serving ss, p', ns) \<and> p_reg p' = NewRegistry \<and> allowed p'
      \<and> plain_session p' ss \<and> s_client ss = 7 \<and> lc_raw (toUpstream ss) = 8 \<and> 7 \<in> open_conns ns \<and> net ns = net ex_net"
    by (simp add: Serve_accept_def handle_open_def allowed_def severed_def node_proxy_def proxy_New_def NewRegistry_def track_def
        plain_session_def plain_lc_def Wrap_def Let_def eng_def boot_def cmdServe_def NewServer_def engine_New_def)
  then obtain ss p' ns where a: "Serve_accept 7 0 (Some 8) ?p ?ns = (Serving ss, p', ns)" "p_reg p' = NewRegistry" "allowed p'"
    "plain_session p' ss" "s_client ss = 7" "lc_raw (toUpstream ss) = 8" "7 \<in> open_conns ns" "net ns = net ex_net" by blast
  have m: "map_of (Proxies (eng ?B)) ''a'' = Some ?p" and l: "lives ?B = []" by (simp_all add: ex_serves) (simp add: boot_def)
  let ?S = "(with_engine ((on_proxy (\<lambda>_. p') ''a'' (eng ?B))\<lparr>e_net := ns\<rparr>) ?B)\<lparr>lives := [(''a'', start_legs ss)]\<rparr>"
  have ex: "exec sys fmt sh decode chi [Traffic] ?B ?S"
    using exec_step [OF accept [OF m _ _ a(1)] exec_done] l by simp
  obtain v' ns' where r: "leg_read p' None (?up, [1, 2], False) (start_legs ss, ns) = (v', ns')" by force
  have "wire (net ns') 8 = wire (net ns) 8 @ [[1, 2]]"
    using plain_read [OF _ a(3) _ _ _ r] a by (simp add: no_faults_def NewRegistry_def start_legs_def leg_done_def ex_net_def ex_world_def)
  moreover have "sys_step sys fmt sh decode chi Traffic ?S
      ((with_engine ((eng ?S)\<lparr>e_net := ns'\<rparr>) ?S)\<lparr>lives := [] @ (''a'', v') # []\<rparr>)"
    by (rule read) (use a(5,7) r in \<open>simp_all add: on_proxy_def ex_serves source_of_def start_legs_def\<close>)
  ultimately show ?thesis using ex
    by (intro exI [of _ ?S] exI [of _ "(with_engine ((eng ?S)\<lparr>e_net := ns'\<rparr>) ?S)\<lparr>lives := [] @ (''a'', v') # []\<rparr>"]) (simp add: delivered_def)
qed

theorem traffic_isolated_witness:
  "\<exists>S S'. exec ex_remote (\<lambda>t. []) ex_node_shell (\<lambda>_. Inl []) ex_chi [Traffic] (boot ex_served ex_net ex_machine) S
     \<and> sys_step ex_remote (\<lambda>t. []) ex_node_shell (\<lambda>_. Inl []) ex_chi Traffic S S'
     \<and> delivered S' = (delivered S)(8 := delivered S 8 @ [[1, 2]]) \<and> delivers Traffic S 8"
proof -
  obtain S S' where S: "exec ex_remote (\<lambda>t. []) ex_node_shell (\<lambda>_. Inl []) ex_chi [Traffic] (boot ex_served ex_net ex_machine) S"
    "sys_step ex_remote (\<lambda>t. []) ex_node_shell (\<lambda>_. Inl []) ex_chi Traffic S S'" "delivered S' 8 = delivered S 8 @ [[1, 2]]"
    using ex_delivery [of "ex_remote" "\<lambda>t. []" ex_node_shell "\<lambda>_. Inl []" ex_chi] by (elim exE conjE) (rule that)
  from traffic_isolated [OF S(1,2)] S(3) obtain i ext where i: "delivers Traffic S i" "delivered S' = (delivered S)(i := delivered S i @ ext)"
    by auto
  then have "i = 8" using S(3) by (simp split: if_splits)
  with i S show ?thesis by (intro exI [of _ S] exI [of _ S']) simp
qed

end
