(* ===== verification/Scenario_Run.thy ===== *)
theory Scenario_Run
  imports Engine_Moves
begin

text \<open>
  When the steps of a scenario happen (\<open>Run\<close> of \<^verbatim>\<open>internal/scenario/scenario.go\<close>), on a
  background context as the control API runs it: the schedule that \<open>engine_Run\<close> keeps.
\<close>

section \<open>The clock\<close>

text \<open>Applying a step and firing a timer take no time.\<close>

lemma clock_fold: "(\<And>e n. clock (g e n) = clock e) \<Longrightarrow> clock (foldl g e ns) = clock e"
  by (induction ns arbitrary: e) simp_all

lemma clock_registry [simp]: "clock (on_registry g n e) = clock e"
  by (simp add: on_registry_def)

lemma clock_flags [simp]:
  "clock (on_proxy_net (SetPartitioned v) n e) = clock e" "clock (on_proxy_net (SetCrashed v) n e) = clock e"
  using on_proxy_net_wire [of "SetPartitioned v" n e] on_proxy_net_wire [of "SetCrashed v" n e]
  by (simp_all add: clock_def SetPartitioned_def SetCrashed_def severConns_eq Let_def)

lemma clock_revert [simp]: "clock (revertNodeFaults sys fmt m e) = clock e"
  by (simp add: clock_def)

lemma clock_register [simp]:
  "clock (registerConn step ns f e) = clock e" "clock (registerPacket step ns pf e) = clock e"
  "clock (registerHook step ns h e) = clock e" "clock (registerDNS step ns e) = clock e"
  "clock (registerObj step ns mk ob e) = clock e"
proof -
  show conn: "clock (registerConn step ns f e) = clock e" for f and e :: "'s engine" by (simp add: registerConn_def clock_fold)
  show "clock (registerPacket step ns pf e) = clock e" by (simp add: registerPacket_def clock_fold)
  show "clock (registerHook step ns h e) = clock e"
    by (simp add: registerHook_def Let_def clock_fold) (simp add: clock_def)
  show "clock (registerDNS step ns e) = clock e" by (simp add: registerDNS_def clock_fold)
  show "clock (registerObj step ns mk ob e) = clock e"
    by (simp add: registerObj_def alloc_def conn) (simp add: clock_def)
qed

lemma clock_inject: "clock (snd (inject_nodes sys fmt step nf ns e)) = clock e"
proof (induction ns arbitrary: e)
  case (Cons n ns)
  obtain r e1 where d: "driverFor (Kind step) n e = (r, e1)" by force
  have c: "clock e1 = clock e" using driverFor_frame [OF d] by (simp add: clock_def)
  have m: "clock (e1\<lparr>machine := m\<rparr>) = clock e1" "clock (e1\<lparr>machine := m, injected := js\<rparr>) = clock e1" for m js
    by (simp_all add: clock_def)
  show ?case
  proof (cases r)
    case (Inr dr)
    obtain err m where i: "Inject sys fmt (clock e1) nf dr (machine e1) = (err, m)" by force
    with Cons.IH Inr d c m show ?thesis by (cases err) (simp_all add: Let_def)
  qed (use d c in simp)
qed simp

lemma clock_node_fault: "clock (snd (runNodeFault sys fmt step nf e)) = clock e"
  by (simp add: runNodeFault_def clock_inject del: inject_nodes.simps split: option.splits)

lemma clock_Apply: "clock (snd (engine_Apply sys fmt step e)) = clock e"
  by (simp add: engine_Apply_def apply_kind_def apply_flag_def apply_heal_def apply_drop_def clock_fold clock_node_fault Let_def
      split: sum.splits option.splits)

lemma clock_fire: "clock (fire sys fmt act e) = clock e"
  by (simp add: fire_def split: timer_action.splits)

lemma clock_set: "clock (set_clock t e) = max t (clock e)"
  by (simp add: clock_def set_clock_def)

lemma clock_due:
  "\<forall>x \<in> set due. fst x \<le> t \<Longrightarrow> clock e \<le> t \<Longrightarrow> clock (foldl (\<lambda>e (d, act). fire sys fmt act (set_clock d e)) e due) \<le> t"
  by (induction due arbitrary: e) (auto simp: clock_fire clock_set)

lemma clock_advance_eq:
  assumes "clock e \<le> t"
  shows "clock (advance sys fmt t e) = t"
proof -
  let ?due = "sort_key fst (filter (\<lambda>x. fst x \<le> t) (timers e))"
  let ?e = "e\<lparr>timers := filter (\<lambda>x. \<not> fst x \<le> t) (timers e)\<rparr>"
  have "clock ?e \<le> t" using assms by (simp add: clock_def)
  with clock_due [of ?due t ?e sys fmt] show ?thesis by (simp add: advance_def Let_def clock_set)
qed

section \<open>The schedule\<close>

definition stable_order :: "FaultStep list \<Rightarrow> FaultStep list \<Rightarrow> bool" where
  "stable_order given steps \<longleftrightarrow> sorted (map AfterMs steps) \<and> mset steps = mset given
     \<and> (\<forall>ms. filter (\<lambda>s. AfterMs s = ms) steps = filter (\<lambda>s. AfterMs s = ms) given)"

text \<open>
  The steps that have been applied, from \<open>e\<close> on: \<open>n\<close> of them, with the engine as it is after each. A
  step is applied when the clock shows its offset, in the engine the previous step left or
  in that engine after a wait. Only the last one may have failed, and then the others are left.
\<close>

definition kept_schedule ::
  "'s system \<Rightarrow> (instant \<Rightarrow> string) \<Rightarrow> instant \<Rightarrow> FaultStep list \<Rightarrow> 's engine \<Rightarrow> engine_error option \<Rightarrow> 's engine
     \<Rightarrow> nat \<Rightarrow> (nat \<Rightarrow> 's engine) \<Rightarrow> bool" where
  "kept_schedule sys fmt start steps e r e' n es \<longleftrightarrow>
     es 0 = e \<and> es n = e' \<and> n \<le> length steps \<and> (if r = None then n = length steps else 0 < n)
     \<and> (\<forall>i < n. \<exists>f. clock f = start + AfterMs (steps ! i) * Millisecond
          \<and> (f = es i \<or> f = advance sys fmt (clock f) (es i))
          \<and> engine_Apply sys fmt (steps ! i) f = (if Suc i = n then r else None, es (Suc i)))"

lemma After_exact: "0 \<le> AfterMs s \<Longrightarrow> AfterMs s * Millisecond < 2 ^ 63 \<Longrightarrow> After s = AfterMs s * Millisecond"
  by (simp add: After_def wrap64_id Millisecond_def)

lemma run_steps_schedule:
  assumes "run_steps sys fmt None start steps e = (r, e')" "sorted (map AfterMs steps)" "start \<le> clock e"
    and "\<forall>s \<in> set steps. 0 \<le> AfterMs s \<and> AfterMs s * Millisecond < 2 ^ 63 \<and> clock e \<le> start + AfterMs s * Millisecond"
  shows "\<exists>n es. kept_schedule sys fmt start steps e r e' n es"
  using assms
proof (induction steps arbitrary: e)
  case Nil
  then show ?case by (intro exI [of _ 0] exI [of _ "\<lambda>_. e"]) (auto simp: kept_schedule_def)
next
  case (Cons step steps)
  let ?t = "start + AfterMs step * Millisecond"
  have bound: "0 \<le> AfterMs step" "AfterMs step * Millisecond < 2 ^ 63" "clock e \<le> ?t" using Cons.prems(4) by auto
  have sub: "time_Sub (clock e) start = clock e - start" using Cons.prems(3) bound by (simp add: time_Sub_def)
  define f where "f = (if ?t > clock e then advance sys fmt ?t e else e)"
  have f: "clock f = ?t" "f = e \<or> f = advance sys fmt (clock f) e"
    using bound(3) clock_advance_eq [of e ?t sys fmt] by (auto simp: f_def)
  obtain err e1 where a: "engine_Apply sys fmt step f = (err, e1)" by force
  have c1: "clock e1 = ?t" using clock_Apply [of sys fmt step f] a f(1) by simp
  have run: "run_steps sys fmt None start (step # steps) e =
      (case err of Some x \<Rightarrow> (Some x, e1) | None \<Rightarrow> run_steps sys fmt None start steps e1)"
    using a by (simp add: sub After_exact [OF bound(1,2)] f_def Let_def algebra_simps split: option.splits if_splits)
  show ?case
  proof (cases err)
    case (Some x)
    with run Cons.prems(1) a f show ?thesis
      by (intro exI [of _ 1] exI [of _ "\<lambda>i. if i = 0 then e else e1"]) (auto simp: kept_schedule_def)
  next
    case None
    have "\<forall>s \<in> set steps. 0 \<le> AfterMs s \<and> AfterMs s * Millisecond < 2 ^ 63 \<and> clock e1 \<le> start + AfterMs s * Millisecond"
      using Cons.prems(2,4) by (auto simp: c1 Millisecond_def)
    moreover have "start \<le> clock e1" using bound(1) by (simp add: c1 Millisecond_def)
    ultimately obtain n es where k: "kept_schedule sys fmt start steps e1 r e' n es"
      using Cons.IH [of e1] Cons.prems(1,2) run None by auto
    have "kept_schedule sys fmt start (step # steps) e r e' (Suc n) (\<lambda>i. case i of 0 \<Rightarrow> e | Suc j \<Rightarrow> es j)"
      unfolding kept_schedule_def
    proof (intro conjI allI impI)
      fix i
      assume i: "i < Suc n"
      show "\<exists>f. clock f = start + AfterMs ((step # steps) ! i) * Millisecond
          \<and> (f = (case i of 0 \<Rightarrow> e | Suc j \<Rightarrow> es j) \<or> f = advance sys fmt (clock f) (case i of 0 \<Rightarrow> e | Suc j \<Rightarrow> es j))
          \<and> engine_Apply sys fmt ((step # steps) ! i) f = (if Suc i = Suc n then r else None, case Suc i of 0 \<Rightarrow> e | Suc j \<Rightarrow> es j)"
      proof (cases i)
        case 0
        have "n = 0 \<longrightarrow> r = None" "es 0 = e1" using k by (auto simp: kept_schedule_def split: if_splits)
        with 0 a None f show ?thesis by (intro exI [of _ f]) auto
      next
        case (Suc j)
        with i k show ?thesis by (simp add: kept_schedule_def)
      qed
    qed (use k in \<open>simp_all add: kept_schedule_def\<close>)
    then show ?thesis by blast
  qed
qed


definition ex_late :: "int \<Rightarrow> string \<Rightarrow> FaultStep" where
  "ex_late ms k = (ex_fault k 0)\<lparr>AfterMs := ms\<rparr>"

definition ex_scenario :: Scenario where
  "ex_scenario = \<lparr>sc_Name = ''late'', Description = [], Steps = [ex_late 500 ''gremlin'', ex_late 100 ''heal'']\<rparr>"


end
