(* ===== verification/Spec2Isabelle.thy ===== *)
theory Spec2Isabelle
  imports Raft_Election Data_Store Consistency Workload Isolation Scenario_Run
begin

text \<open>
  A verification development for dbfailsim, a database failure simulator written in Go. The
  program puts a TCP proxy in front of every database node and injects faults: on the bytes
  of connections, on database messages, on the processes and containers of nodes, on the
  view of the cluster, on stored data and on sessions. A scenario engine turns steps of a
  configuration, or requests to a control API, into such faults with time windows. A small
  Raft leader election with a simulated cluster belongs to the repository as well.

  \<^bold>\<open>Theories and code.\<close>
  \<^item> \<open>Prelude\<close>, \<open>Go_Time\<close>, \<open>Sha256\<close>, \<open>Json\<close>, \<open>Json_Values\<close>, \<open>Flags\<close>: what the program uses of Go and
    its standard library: bytes and 64-bit words, random draws, runes, durations with
    wrap-around, \<^verbatim>\<open>ParseDuration\<close>, SHA-256, UTF-8, \<^verbatim>\<open>encoding/json\<close> with its dynamic
    values, \<^verbatim>\<open>flag\<close>.
  \<^item> \<open>Raft_Node\<close> (\<^verbatim>\<open>internal/raft/raft.go\<close>), \<open>Raft_Cluster\<close>
    (\<^verbatim>\<open>internal/raft/sim.go\<close>): \<open>Tick\<close> and \<open>Step\<close> of a participant as functions on the record
    \<open>node\<close>, a cluster with pending messages and blocked links; \<open>Raft_Election\<close> has the
    properties of elections.
  \<^item> \<open>Configuration\<close> (\<^verbatim>\<open>internal/config/config.go\<close>): schema, parameters, validation.
  \<^item> \<open>Net_Faults\<close> (\<^verbatim>\<open>internal/faults/network.go\<close>), \<open>Db_Faults\<close>
    (\<^verbatim>\<open>internal/faults/db.go\<close>): connection wrappers around a raw connection with their
    fault objects in a heap, packet faults, stale reads. The interfaces of
    \<^verbatim>\<open>internal/faults/types.go\<close> are datatypes of their implementations.
  \<^item> \<open>Registry\<close> (\<^verbatim>\<open>internal/proxy/registry.go\<close>), \<open>Proxy\<close>
    (\<^verbatim>\<open>internal/proxy/proxy.go\<close>): registered faults, live rebuilding of a connection's
    chain, tickers; flags, connections and pumps of a proxy. \<open>Sessions\<close> has the life of a proxied
    connection with its two interleaved pumps, the listener, and closing.
  \<^item> \<open>Driver\<close> (\<^verbatim>\<open>internal/faults/driver.go\<close>), \<open>Node_Faults\<close>
    (\<^verbatim>\<open>internal/faults/node.go\<close>): the command lines that act on processes, units and
    containers, also over ssh, and the faults made of them.
  \<^item> \<open>Topology\<close> (\<^verbatim>\<open>topology.go\<close>), \<open>Data_Store\<close> (\<^verbatim>\<open>data.go\<close>), \<open>Consistency\<close>
    (\<^verbatim>\<open>consistency.go\<close>), \<open>Workload\<close> (\<^verbatim>\<open>workload.go\<close>), all under
    \<^verbatim>\<open>internal/faults\<close>: partitions and roles, stored rows and logs, the checker of client
    histories, sessions with transactions.
  \<^item> \<open>Engine\<close> (\<^verbatim>\<open>internal/scenario/scenario.go\<close>), \<open>Catalog\<close>
    (\<^verbatim>\<open>internal/scenario/catalog.go\<close>): applying, removing and healing faults, timers,
    timed scenarios, the catalogue of kinds. \<open>Engine_Moves\<close> breaks every operation of the engine
    into elementary changes, on which its invariants are checked; \<open>Scenario_Run\<close> has the times at
    which the steps of a scenario happen.
  \<^item> \<open>Check\<close> (\<^verbatim>\<open>internal/check/check.go\<close>), \<open>Control\<close>
    (\<^verbatim>\<open>internal/control/api.go\<close>), \<open>Cli\<close> (\<^verbatim>\<open>cmd/dbfailsim/main.go\<close>): the check across nodes, the
    control API with its token, the commands from their argument lists. \<open>Codec\<close> has the bytes
    that go over the API: the decoding of fault requests and the JSON of the responses.
  \<^item> \<open>System\<close>: the running server as one transition system over all of the above: requests,
    scenarios step by step, timers, time, tickers and connections interleave in any order.
    \<open>Isolation\<close> follows the bytes on the sockets through it.

  \<^bold>\<open>How the code is represented.\<close> A struct is a record, an interface a datatype of the types
  that implement it, an error result an option or a sum with an error datatype, a panic \<open>None\<close>
  or a result of its own. Mutable objects that several parts share (the fault objects of
  \<open>Net_Faults\<close>) live in a heap; other state is passed through. Time is an instant in the
  state; a sleep moves it. Random draws come from a sequence in the state, so that every
  theorem holds for every outcome of the draws. A goroutine is given by its beats, its timer,
  a schedule, or the steps of \<open>System\<close>. What lies outside the repository is an argument: running a command
  (\<open>sys\<close>, \<open>sh\<close>), the database behind a session, the HTTP router, YAML decoding, the formatting of floats
  and of times, the texts of JSON errors, reading files and the environment.

  \<^bold>\<open>Interfaces.\<close> Locales state what one part relies on of another, and each is interpreted on
  the definitions that provide it: \<open>quorum_system\<close> (majorities) and \<open>node_invariant\<close> (what every
  operation of a participant keeps) for Raft, \<open>fault_table\<close> (the four tables of the registry),
  \<open>remote_shell\<close> (ssh under the drivers), \<open>role_view\<close> (the cluster view), \<open>data_store\<close> (the
  in-memory store), \<open>engine_invariant\<close> (what every
  elementary change of the engine keeps: interpreted for health, the types of fault objects, the
  clock, the bytes on the sockets and the bookkeeping of connections).

  \<^bold>\<open>What is shown.\<close>
  \<^item> Raft: at most one leader per term, under any partitions and message losses, with a majority
    of votes behind it; a minority side elects nobody; timers stay in range; the election loop
    ends, and a single node elects itself. The proofs carry an invariant on the history of votes
    along every reachable cluster. Terms are 64-bit words: fewer than \<open>2 ^ 64\<close> ticks is the bound
    under which a term cannot wrap around.
  \<^item> Configuration: validation accepts exactly the well-formed configurations; a validated one is
    served by one clean proxy per node and its scenarios name existing targets.
  \<^item> Faults in flight: no chain of connection faults alters or invents bytes; reordering keeps every
    chunk while the registry does not change, and a change loses what is held; packet faults keep
    lengths and stay on their stream, a stale answer is an earlier response of the same query and
    young enough.
  \<^item> Registry and proxy: the registry implements a map from names to faults, with tickers exactly
    for the time-varying ones; a write goes through the faults registered now; a severed node is
    unreachable; on a proxy without faults every interleaving of the two pumps of a connection
    delivers both directions exactly.
  \<^item> Drivers and node faults: targets resolve exactly when valid; quoting for ssh is exact against
    the word splitting of a POSIX shell, and a driver over ssh acts as the local one; what a
    target cannot do is reported and nothing else is; the crash loop restarts what it kills.
    Docker, systemd, kill and ssh are known only through the commands that are run: the facts hold
    for whatever these answer, and that on ssh assumes what the standard says of a simple command.
  \<^item> Topology, data, clients: reachability under partitions, voters blocked whatever docker answers,
    reversible row corruption, a read-your-writes check that is exact for clients with keys of
    their own and without false alarms on fresh histories. The faults on sessions are described by
    the calls they make, on any database: which transactions they begin, lock with and end.
  \<^item> Engine, API, commands: healing clears everything, a rejected step leaves no trace on the
    proxies, a timer ends whatever bears its fault's name, a scenario keeps its schedule; the engine knows exactly the catalogue's kinds; without the
    token no request has an effect; the fault command, from its argument list over the bytes of
    its request to the handler, applies exactly the step of its flags; the bytes of the status
    response determine the states of the nodes.
  \<^item> JSON and flags: reading a written JSON value gives it back (\<open>read_write_json\<close>), what is read is
    valid UTF-8, and flags written in any of their forms parse to their values; these lemmas
    carry the facts on the API and the commands.
  \<^item> The running server: in every reachable state connections are accounted for; a healed server stays healed until a fault or scenario is
    requested; bytes arrive only at the other end of the connection they were read from, and
    never on a connection of a partitioned or crashed node. The steps of scenarios there agree with
    \<open>engine_Run\<close>: a scenario run in one go is one of the executions.

  \<^bold>\<open>Bounds and fuel.\<close> Loops over data are structural recursions; \<open>RunUntilLeader\<close> recurses on
  the number of ticks it is given, which is the code's own bound. The crash loop is a recursion
  with a termination proof: a beat takes at least 200 ms of the time left to its deadline. The
  election storm recurses on the views it finds at its ticks, of which its interval and deadline
  admit finitely many.
  The pump of a proxy recurses on the chunks it reads. The two goroutines of the deadlock fault
  run along a schedule; a schedule that is too short, or a statement that stays blocked, is the
  outcome \<open>Waiting\<close>, and the facts on that fault are about the calls that return.

  \<^bold>\<open>Not modelled.\<close> Sockets, the HTTP server and log lines; the dashboard
  (\<^verbatim>\<open>internal/control/static\<close>) and the container files, which are in other languages; the
  JSON of the scenario list, whose parameters keep YAML types that the model does not tell apart.
  Floating-point numbers are reals, and a division by a rate of
  zero is 0 where Go has an infinity; \<^verbatim>\<open>time.ParseDuration\<close> is exact on fractions. The steps of
  \<open>System\<close> are atomic: a request, one step of a scenario, the handling of one chunk. The code
  may interleave inside them where they lock several proxies one after the other or sleep.
  A raw write that fails has written nothing, and a write is not refused because its socket has
  been closed meanwhile. A panic inside a pump (\<open>Panicked\<close>, as of a duplication fault with no copies)
  ends that pump in the model, where in Go it ends the process.
  Mutexes are not modelled: each operation is atomic,
  as the code's locking makes it, and a call that waits for a lock it will not get is described
  in the text of the fact that shows the wait.
\<close>

end
